(* ===== verification/Osa_Prelude.thy ===== *)
theory Osa_Prelude
  imports Main "HOL-Library.Word" "HOL-Library.Signed_Division"
begin

text \<open>
  The shared vocabulary of the development: the C types the sources use, the errno values of
  the Linux C library that the platform layer returns negated, raw memory as lists of bytes
  with the two \<^verbatim>\<open>memcpy\<close> shapes the sources need, bounded C strings, and the generic lemmas
  and fact collections on which the component theories build.

  Conventions. A C \<^verbatim>\<open>int\<close> is an \<open>int\<close> (the sources never overflow one where the model leaves
  the bound implicit, and the theories state the bounds where they matter), \<^verbatim>\<open>uint32_t\<close> is a
  \<open>32 word\<close> so that it wraps, \<^verbatim>\<open>size_t\<close> is a \<open>nat\<close>, and an object pointer is a \<open>nat\<close> with
  \<open>NULL = 0\<close>. A heap of objects of one struct type is a function from addresses to records.
\<close>

section \<open>Types of the sources\<close>

type_synonym byte = "8 word"
type_synonym uint32 = "32 word"
type_synonym ptr = nat

abbreviation (input) NULL :: ptr where
  "NULL \<equiv> 0"

text \<open>The facts that unfold the errno values and the other integer constants of the sources.\<close>

named_theorems c_consts

definition EINTR :: int where [c_consts]: "EINTR = 4"
definition EAGAIN :: int where [c_consts]: "EAGAIN = 11"
definition ENOMEM :: int where [c_consts]: "ENOMEM = 12"
definition EINVAL :: int where [c_consts]: "EINVAL = 22"
definition EPIPE :: int where [c_consts]: "EPIPE = 32"
definition ETIMEDOUT :: int where [c_consts]: "ETIMEDOUT = 110"
definition INT_MAX :: int where [c_consts]: "INT_MAX = 2147483647"

text \<open>\<open>c_int n\<close>: \<open>n\<close> is a value of the 32-bit type \<^verbatim>\<open>int\<close>.\<close>

definition c_int :: "int \<Rightarrow> bool" where
  "c_int n \<longleftrightarrow> - (2 ^ 31) \<le> n \<and> n < 2 ^ 31"

section \<open>C division\<close>

text \<open>
  \<^verbatim>\<open>/\<close> and \<^verbatim>\<open>%\<close> on \<^verbatim>\<open>int\<close> truncate towards zero: \<open>sdiv\<close> and \<open>smod\<close>. On the non-negative operands
  of ring indices and timeouts they are \<open>div\<close> and \<open>mod\<close>.
\<close>

lemma sdiv_nonneg: "0 \<le> a \<Longrightarrow> 0 < b \<Longrightarrow> (a :: int) sdiv b = a div b"
  by (simp add: signed_divide_int_def sgn_if)

lemma smod_nonneg: "0 \<le> a \<Longrightarrow> 0 < b \<Longrightarrow> (a :: int) smod b = a mod b"
  by (cases "a = 0") (simp_all add: signed_modulo_int_def)

section \<open>Memory and strings\<close>

text \<open>
  \<open>memcpy_to buf off src n\<close> is \<open>buf\<close> after \<^verbatim>\<open>memcpy(buf + off, src, n)\<close>, and
  \<open>memcpy_from buf off n\<close> the bytes \<^verbatim>\<open>memcpy(dst, buf + off, n)\<close> leaves in \<open>dst\<close>.
\<close>

definition memcpy_to :: "byte list \<Rightarrow> nat \<Rightarrow> byte list \<Rightarrow> nat \<Rightarrow> byte list" where
  "memcpy_to buf off src n = take off buf @ take n src @ drop (off + n) buf"

definition memcpy_from :: "byte list \<Rightarrow> nat \<Rightarrow> nat \<Rightarrow> byte list" where
  "memcpy_from buf off n = take n (drop off buf)"

lemma length_memcpy_to [simp]:
  "off + n \<le> length buf \<Longrightarrow> n \<le> length src \<Longrightarrow> length (memcpy_to buf off src n) = length buf"
  by (simp add: memcpy_to_def)

lemma length_memcpy_from [simp]:
  "off + n \<le> length buf \<Longrightarrow> length (memcpy_from buf off n) = n"
  by (simp add: memcpy_from_def)

lemma memcpy_from_same:
  "off + n \<le> length buf \<Longrightarrow> n \<le> length src \<Longrightarrow>
   memcpy_from (memcpy_to buf off src n) off n = take n src"
  by (simp add: memcpy_from_def memcpy_to_def)

lemma memcpy_from_disjoint:
  assumes "off + n \<le> length buf" and "n \<le> length src"
    and "off' + n' \<le> off \<or> off + n \<le> off'"
  shows "memcpy_from (memcpy_to buf off src n) off' n' = memcpy_from buf off' n'"
  using assms(3)
proof
  assume "off' + n' \<le> off"
  then show ?thesis
    using assms(1,2) by (simp add: memcpy_from_def memcpy_to_def take_drop min_def)
next
  assume "off + n \<le> off'"
  then show ?thesis
    using assms(1,2) by (simp add: memcpy_from_def memcpy_to_def)
qed

text \<open>
  Little-endian storage of an unsigned value of \<open>n\<close> bytes, and of a 32-bit \<^verbatim>\<open>int\<close> in two's
  complement.
\<close>

fun le_bytes :: "nat \<Rightarrow> nat \<Rightarrow> byte list" where
  "le_bytes 0 x = []"
| "le_bytes (Suc n) x = of_nat (x mod 256) # le_bytes n (x div 256)"

fun le_value :: "byte list \<Rightarrow> nat" where
  "le_value [] = 0"
| "le_value (b # bs) = unat b + 256 * le_value bs"

definition int_bits :: "int \<Rightarrow> nat" where
  "int_bits i = nat (i mod 2 ^ 32)"

definition bits_int :: "nat \<Rightarrow> int" where
  "bits_int n = (if n < 2 ^ 31 then int n else int n - 2 ^ 32)"

lemma length_le_bytes [simp]: "length (le_bytes n x) = n"
  by (induction n arbitrary: x) simp_all

lemma le_value_bytes: "x < 256 ^ n \<Longrightarrow> le_value (le_bytes n x) = x"
proof (induction n arbitrary: x)
  case (Suc n)
  then have "x div 256 < 256 ^ n"
    by (simp add: div_less_iff_less_mult mult.commute)
  moreover have "unat (of_nat (x mod 256) :: byte) = x mod 256"
    by (simp add: unat_of_nat take_bit_nat_eq_self)
  ultimately show ?case
    using Suc.IH [of "x div 256"] by simp
qed simp

lemma int_bits_less: "int_bits i < 256 ^ 4"
  by (simp add: int_bits_def nat_less_iff)

lemma bits_int_bits: "c_int i \<Longrightarrow> bits_int (int_bits i) = i"
proof -
  assume "c_int i"
  then have "- 2147483648 \<le> i" and "i < 2147483648"
    by (simp_all add: c_int_def)
  then have "i mod 4294967296 = (if 0 \<le> i then i else i + 4294967296)"
    by (auto simp: mod_pos_pos_trivial) (subst mod_add_self2 [symmetric], rule mod_pos_pos_trivial, auto)
  then show ?thesis
    using \<open>- 2147483648 \<le> i\<close> \<open>i < 2147483648\<close> by (auto simp: bits_int_def int_bits_def)
qed

lemma int_le_bytes: "c_int i \<Longrightarrow> bits_int (le_value (le_bytes 4 (int_bits i))) = i"
  using le_value_bytes [OF int_bits_less [of i]] by (simp add: bits_int_bits)

text \<open>\<open>c_string n s\<close>: what fits of \<open>s\<close> in a \<^verbatim>\<open>char\<close> array of size \<open>n\<close> before its final NUL.\<close>

definition c_string :: "nat \<Rightarrow> string \<Rightarrow> string" where
  "c_string n s = take (n - 1) s"

lemma length_c_string: "0 < n \<Longrightarrow> length (c_string n s) < n"
  by (simp add: c_string_def)

lemma c_string_id: "length s < n \<Longrightarrow> c_string n s = s"
  by (simp add: c_string_def)

section \<open>Unsigned counters\<close>

text \<open>A \<^verbatim>\<open>uint32_t\<close> counter that counts a length below \<open>2 ^ 32\<close> does not wrap.\<close>

lemma unat_of_nat_uint32: "n < 2 ^ 32 \<Longrightarrow> unat (of_nat n :: uint32) = n"
  by (simp add: unat_of_nat take_bit_nat_eq_self)

section \<open>Counting threads\<close>

text \<open>How the number of threads with a property changes when one thread moves.\<close>

lemma card_enter:
  "finite {u. P (f u)} \<Longrightarrow> \<not> P (f t) \<Longrightarrow> P x \<Longrightarrow> card {u. P ((f(t := x)) u)} = Suc (card {u. P (f u)})"
proof -
  assume "finite {u. P (f u)}" "\<not> P (f t)" "P x"
  moreover from this have "{u. P ((f(t := x)) u)} = insert t {u. P (f u)}" by auto
  ultimately show ?thesis by simp
qed

lemma card_leave:
  "finite {u. P (f u)} \<Longrightarrow> P (f t) \<Longrightarrow> \<not> P x \<Longrightarrow> Suc (card {u. P ((f(t := x)) u)}) = card {u. P (f u)}"
proof -
  assume *: "finite {u. P (f u)}" "P (f t)" "\<not> P x"
  from * have "{u. P ((f(t := x)) u)} = {u. P (f u)} - {t}" by auto
  moreover have "t \<in> {u. P (f u)}" using * by simp
  ultimately show ?thesis using card_Suc_Diff1 [OF *(1)] by metis
qed

lemma card_stay: "P (f t) = P x \<Longrightarrow> card {u. P ((f(t := x)) u)} = card {u. P (f u)}"
  by (rule arg_cong [of _ _ card]) auto

end
