(* ===== verification/Osa_Clock.thy ===== *)
theory Osa_Clock
  imports Osa_Prelude
begin

text \<open>
  Time values of the Linux platform layer: \<^verbatim>\<open>struct timespec\<close>, and the deadline computation
  \<^verbatim>\<open>calc_timeout\<close> of \<^verbatim>\<open>platform/linux/osa_queue.c\<close>. The clock reading that \<^verbatim>\<open>clock_gettime\<close> stores
  in the structure is an argument of the model. A call that may block either returns or leaves its
  thread asleep, until a deadline or for ever (\<open>call\<close>). The lemmas show that a deadline is again a
  normalised \<^verbatim>\<open>timespec\<close> and lies exactly the requested number of milliseconds ahead.
\<close>

record timespec =
  tv_sec :: int
  tv_nsec :: int

definition calc_timeout :: "timespec \<Rightarrow> int \<Rightarrow> timespec" where
  "calc_timeout now timeout_ms =
    (let sec = tv_sec now + timeout_ms sdiv 1000;
         nsec = tv_nsec now + (timeout_ms smod 1000) * 1000000
     in if nsec \<ge> 1000000000
        then \<lparr>tv_sec = sec + 1, tv_nsec = nsec - 1000000000\<rparr>
        else \<lparr>tv_sec = sec, tv_nsec = nsec\<rparr>)"

datatype wait_kind = Until timespec | Forever

datatype 'r call = Return 'r | Park wait_kind

text \<open>A normalised time, and a time as a number of nanoseconds.\<close>

definition valid_timespec :: "timespec \<Rightarrow> bool" where
  "valid_timespec t \<longleftrightarrow> 0 \<le> tv_nsec t \<and> tv_nsec t < 1000000000"

definition nanoseconds :: "timespec \<Rightarrow> int" where
  "nanoseconds t = tv_sec t * 1000000000 + tv_nsec t"

definition reached :: "timespec \<Rightarrow> timespec \<Rightarrow> bool" where
  "reached now deadline \<longleftrightarrow> nanoseconds deadline \<le> nanoseconds now"

lemma calc_timeout_valid:
  assumes "valid_timespec now" and "0 \<le> timeout_ms"
  shows "valid_timespec (calc_timeout now timeout_ms)"
proof -
  have "0 \<le> timeout_ms mod 1000" and "timeout_ms mod 1000 < 1000"
    by simp_all
  then show ?thesis
    using assms by (auto simp: calc_timeout_def valid_timespec_def smod_nonneg Let_def)
qed

lemma calc_timeout_exact:
  assumes "0 \<le> timeout_ms"
  shows "nanoseconds (calc_timeout now timeout_ms) = nanoseconds now + timeout_ms * 1000000"
proof -
  define d m where "d = timeout_ms div 1000" and "m = timeout_ms mod 1000"
  have "timeout_ms * 1000000 = d * 1000000000 + m * 1000000"
    unfolding d_def m_def by presburger
  then show ?thesis
    using assms
    by (simp add: calc_timeout_def nanoseconds_def sdiv_nonneg smod_nonneg Let_def algebra_simps
        flip: d_def m_def)
qed

lemma calc_timeout_later:
  "0 < timeout_ms \<Longrightarrow> \<not> reached now (calc_timeout now timeout_ms)"
  by (simp add: reached_def calc_timeout_exact)

section \<open>Properties\<close>

text \<open>
  C38. The deadline of a timed wait is normalised and lies exactly \<open>timeout_ms\<close> milliseconds after
  the clock reading, so the wait cannot end before that.
\<close>

theorem calc_timeout_correct:
  assumes "valid_timespec now" and "0 < timeout_ms"
  shows "valid_timespec (calc_timeout now timeout_ms) \<and>
    nanoseconds (calc_timeout now timeout_ms) = nanoseconds now + timeout_ms * 1000000 \<and>
    \<not> reached now (calc_timeout now timeout_ms)"
  using assms by (simp add: calc_timeout_valid calc_timeout_exact calc_timeout_later)

theorem calc_timeout_correct_witness:
  "calc_timeout \<lparr>tv_sec = 5, tv_nsec = 900000000\<rparr> 1250 = \<lparr>tv_sec = 7, tv_nsec = 150000000\<rparr> \<and>
   nanoseconds (calc_timeout \<lparr>tv_sec = 5, tv_nsec = 900000000\<rparr> 1250) = 7150000000"
proof -
  have "valid_timespec \<lparr>tv_sec = 5, tv_nsec = 900000000\<rparr>"
    by (simp add: valid_timespec_def)
  from calc_timeout_correct [OF this, of 1250] show ?thesis
    by (simp add: calc_timeout_def nanoseconds_def sdiv_nonneg smod_nonneg)
qed

end
