(* ===== verification/Osa_Fifo.thy ===== *)
theory Osa_Fifo
  imports Osa_Prelude
begin

text \<open>
  The contract of a bounded first-in-first-out queue, as the clients of the queues of the system
  rely on it. The ring buffer of \<^verbatim>\<open>platform/linux/osa_queue.c\<close> and the linked job queue of
  \<^verbatim>\<open>core/osa_worker.c\<close> both provide it: their theories interpret the locale on the model of the
  code. The consequences for any sequence of operations are proved here once.
\<close>

text \<open>
  A client's history: the elements whose insertion returned 0, the elements that came out, and
  the final state. \<open>fifo_ok\<close> says that every insertion meets the precondition of the provider at
  the time it happens.
\<close>

datatype 'a fifo_op = Put 'a | Get

fun fifo_run ::
  "('s \<Rightarrow> 'a \<Rightarrow> int \<times> 's) \<Rightarrow> ('s \<Rightarrow> 'a option \<times> 's) \<Rightarrow> 'a fifo_op list \<Rightarrow> 's \<Rightarrow>
   'a list \<times> 'a list \<times> 's" where
  "fifo_run put get [] s = ([], [], s)"
| "fifo_run put get (Put x # ops) s =
    (let (r, s') = put s x; (acc, del, s'') = fifo_run put get ops s'
     in (if r = 0 then x # acc else acc, del, s''))"
| "fifo_run put get (Get # ops) s =
    (let (r, s') = get s; (acc, del, s'') = fifo_run put get ops s'
     in (acc, (case r of Some x \<Rightarrow> x # del | None \<Rightarrow> del), s''))"

fun fifo_ok ::
  "('s \<Rightarrow> 'a \<Rightarrow> bool) \<Rightarrow> ('s \<Rightarrow> 'a \<Rightarrow> int \<times> 's) \<Rightarrow> ('s \<Rightarrow> 'a option \<times> 's) \<Rightarrow>
   'a fifo_op list \<Rightarrow> 's \<Rightarrow> bool" where
  "fifo_ok accepts put get [] s \<longleftrightarrow> True"
| "fifo_ok accepts put get (Put x # ops) s \<longleftrightarrow>
    accepts s x \<and> fifo_ok accepts put get ops (snd (put s x))"
| "fifo_ok accepts put get (Get # ops) s \<longleftrightarrow> fifo_ok accepts put get ops (snd (get s))"

locale bounded_fifo =
  fixes inv :: "'s \<Rightarrow> bool"
    and contents :: "'s \<Rightarrow> 'a list"
    and cap :: "'s \<Rightarrow> nat"
    and accepts :: "'s \<Rightarrow> 'a \<Rightarrow> bool"
    and put :: "'s \<Rightarrow> 'a \<Rightarrow> int \<times> 's"
    and get :: "'s \<Rightarrow> 'a option \<times> 's"
  assumes bounded: "inv s \<Longrightarrow> length (contents s) \<le> cap s"
    and put_inv: "inv s \<Longrightarrow> accepts s x \<Longrightarrow> inv (snd (put s x))"
    and put_space: "inv s \<Longrightarrow> accepts s x \<Longrightarrow> length (contents s) < cap s \<Longrightarrow>
      fst (put s x) = 0 \<and> contents (snd (put s x)) = contents s @ [x]"
    and put_full: "inv s \<Longrightarrow> accepts s x \<Longrightarrow> length (contents s) = cap s \<Longrightarrow>
      fst (put s x) \<noteq> 0 \<and> contents (snd (put s x)) = contents s"
    and get_inv: "inv s \<Longrightarrow> inv (snd (get s))"
    and get_some: "inv s \<Longrightarrow> contents s = x # xs \<Longrightarrow>
      fst (get s) = Some x \<and> contents (snd (get s)) = xs"
    and get_none: "inv s \<Longrightarrow> contents s = [] \<Longrightarrow>
      fst (get s) = None \<and> contents (snd (get s)) = []"
    and cap_put: "inv s \<Longrightarrow> accepts s x \<Longrightarrow> cap (snd (put s x)) = cap s"
    and cap_get: "inv s \<Longrightarrow> cap (snd (get s)) = cap s"
begin

lemma put_cases:
  assumes "inv s" and "accepts s x"
  obtains "fst (put s x) = 0" "contents (snd (put s x)) = contents s @ [x]"
  | "fst (put s x) \<noteq> 0" "contents (snd (put s x)) = contents s"
  using assms bounded put_space put_full by (metis le_neq_implies_less)

lemma put_succeeds_iff:
  "inv s \<Longrightarrow> accepts s x \<Longrightarrow> fst (put s x) = 0 \<longleftrightarrow> length (contents s) < cap s"
  using bounded put_space put_full by (metis le_neq_implies_less)

lemma get_cases:
  assumes "inv s"
  obtains x where "fst (get s) = Some x" "contents s = x # contents (snd (get s))"
  | "fst (get s) = None" "contents s = []" "contents (snd (get s)) = []"
  using assms get_some get_none by (cases "contents s") auto

lemma run_history:
  assumes "inv s" and "fifo_ok accepts put get ops s"
    and "fifo_run put get ops s = (acc, del, s')"
  shows "inv s' \<and> cap s' = cap s \<and> contents s @ acc = del @ contents s'"
  using assms
proof (induction ops arbitrary: s acc del)
  case Nil
  then show ?case by simp
next
  case (Cons op ops)
  show ?case
  proof (cases op)
    case (Put x)
    obtain r t where r: "put s x = (r, t)" by fastforce
    obtain acc' del' where run: "fifo_run put get ops t = (acc', del', s')"
      and res: "acc = (if r = 0 then x # acc' else acc')" "del = del'"
      using Cons.prems(3) Put r by (auto split: prod.splits)
    have pre: "inv s" "accepts s x" and ok: "fifo_ok accepts put get ops t"
      using Cons.prems Put r by auto
    have t: "inv t" "cap t = cap s"
      using put_inv [OF pre] cap_put [OF pre] r by auto
    have "inv s' \<and> cap s' = cap t \<and> contents t @ acc' = del' @ contents s'"
      by (rule Cons.IH [OF t(1) ok run])
    then show ?thesis
      using r res t by (cases rule: put_cases [OF pre]) auto
  next
    case Get
    obtain r t where r: "get s = (r, t)" by fastforce
    obtain acc' del' where run: "fifo_run put get ops t = (acc', del', s')"
      and res: "acc = acc'" "del = (case r of Some x \<Rightarrow> x # del' | None \<Rightarrow> del')"
      using Cons.prems(3) Get r by (auto split: prod.splits)
    have t: "inv t" "cap t = cap s"
      using get_inv [OF Cons.prems(1)] cap_get [OF Cons.prems(1)] r by auto
    have ok: "fifo_ok accepts put get ops t"
      using Cons.prems(2) Get r by simp
    have "inv s' \<and> cap s' = cap t \<and> contents t @ acc' = del' @ contents s'"
      by (rule Cons.IH [OF t(1) ok run])
    then show ?thesis
      using r res t by (cases rule: get_cases [OF Cons.prems(1)]) auto
  qed
qed

end

lemma fifo_ok_any: "fifo_ok (\<lambda>_ _. True) put get ops s"
proof (induction ops arbitrary: s)
  case (Cons op ops)
  then show ?case by (cases op) simp_all
qed simp

text \<open>
  Two providers of the contract cannot be told apart: from equal contents and capacities the same
  operations are accepted and return the same elements.
\<close>

lemma fifo_equiv:
  assumes A: "bounded_fifo invA contA capA accA putA getA" and B: "bounded_fifo invB contB capB accB putB getB"
    and "invA s" "invB t" "contA s = contB t" "capA s = capB t"
    and "fifo_ok accA putA getA ops s" "fifo_ok accB putB getB ops t"
    and "fifo_run putA getA ops s = (acc, del, s')" "fifo_run putB getB ops t = (acc', del', t')"
  shows "acc = acc' \<and> del = del' \<and> contA s' = contB t'"
  using assms(3-)
proof (induction ops arbitrary: s t acc del acc' del')
  case (Cons op ops)
  show ?case
  proof (cases op)
    case (Put x)
    obtain r s1 r' t1 where r: "putA s x = (r, s1)" "putB t x = (r', t1)" by fastforce
    obtain acc1 del1 acc2 del2 where run: "fifo_run putA getA ops s1 = (acc1, del1, s')"
      "fifo_run putB getB ops t1 = (acc2, del2, t')"
      and res: "acc = (if r = 0 then x # acc1 else acc1)" "del = del1"
      "acc' = (if r' = 0 then x # acc2 else acc2)" "del' = del2"
      using Cons.prems(7,8) Put r by (auto split: prod.splits)
    have pre: "accA s x" "accB t x"
      using Cons.prems(5,6) Put by auto
    have "r = 0 \<longleftrightarrow> r' = 0"
      using bounded_fifo.put_succeeds_iff [OF A Cons.prems(1) pre(1)] bounded_fifo.put_succeeds_iff [OF B Cons.prems(2) pre(2)]
        Cons.prems(3,4) r by simp
    moreover have "contA s1 = contB t1"
      using Cons.prems(3) r calculation
      by (cases rule: bounded_fifo.put_cases [OF A Cons.prems(1) pre(1)];
          cases rule: bounded_fifo.put_cases [OF B Cons.prems(2) pre(2)]) auto
    moreover have "acc1 = acc2 \<and> del1 = del2 \<and> contA s' = contB t'"
    proof (rule Cons.IH [OF _ _ calculation(2) _ _ _ run])
      show "invA s1" "invB t1" "capA s1 = capB t1"
        using bounded_fifo.put_inv [OF A Cons.prems(1) pre(1)] bounded_fifo.put_inv [OF B Cons.prems(2) pre(2)]
          bounded_fifo.cap_put [OF A Cons.prems(1) pre(1)] bounded_fifo.cap_put [OF B Cons.prems(2) pre(2)]
          Cons.prems(4) r by simp_all
      show "fifo_ok accA putA getA ops s1" "fifo_ok accB putB getB ops t1"
        using Cons.prems(5,6) Put r by simp_all
    qed
    ultimately show ?thesis
      using res by simp
  next
    case Get
    obtain r s1 r' t1 where r: "getA s = (r, s1)" "getB t = (r', t1)" by fastforce
    obtain acc1 del1 acc2 del2 where run: "fifo_run putA getA ops s1 = (acc1, del1, s')"
      "fifo_run putB getB ops t1 = (acc2, del2, t')"
      and res: "acc = acc1" "del = (case r of Some x \<Rightarrow> x # del1 | None \<Rightarrow> del1)"
      "acc' = acc2" "del' = (case r' of Some x \<Rightarrow> x # del2 | None \<Rightarrow> del2)"
      using Cons.prems(7,8) Get r by (auto split: prod.splits)
    have eq: "r = r'" "contA s1 = contB t1"
      using Cons.prems(3) r
      by (cases rule: bounded_fifo.get_cases [OF A Cons.prems(1)];
          cases rule: bounded_fifo.get_cases [OF B Cons.prems(2)]; simp)+
    have "acc1 = acc2 \<and> del1 = del2 \<and> contA s' = contB t'"
    proof (rule Cons.IH [OF _ _ eq(2) _ _ _ run])
      show "invA s1" "invB t1" "capA s1 = capB t1"
        using bounded_fifo.get_inv [OF A Cons.prems(1)] bounded_fifo.get_inv [OF B Cons.prems(2)]
          bounded_fifo.cap_get [OF A Cons.prems(1)] bounded_fifo.cap_get [OF B Cons.prems(2)]
          Cons.prems(4) r by simp_all
      show "fifo_ok accA putA getA ops s1" "fifo_ok accB putB getB ops t1"
        using Cons.prems(5,6) Get r by simp_all
    qed
    then show ?thesis
      using res eq(1) by (simp split: option.split)
  qed
qed simp

end
