(* ===== verification/Osa_Queue.thy ===== *)
theory Osa_Queue
  imports Osa_Clock Osa_Fifo
begin

text \<open>
  The Linux message queue, \<^verbatim>\<open>platform/linux/osa_queue.c\<close>: a byte ring buffer under a mutex with
  two condition variables.

  A queue object is the record \<open>osa_queue_impl\<close>; a handle is an optional object, \<open>None\<close> for NULL.
  The mutex makes every stretch of code between two blocking points atomic, so an operation that
  may sleep in \<^verbatim>\<open>pthread_cond_wait\<close> or \<^verbatim>\<open>pthread_cond_timedwait\<close> is modelled by the stretch from
  its call and the stretch from its wake-up: either ends with \<open>Return\<close> or with \<open>Park\<close>
  (\<^verbatim>\<open>Osa_Clock\<close>), the thread asleep on the condition variable and the mutex released. The outcomes of \<^verbatim>\<open>calloc\<close> and the
  clock reading are arguments. The interleaving of several threads is the subject of
  \<^verbatim>\<open>Osa_Queue_Threads\<close>.

  The lemmas: the representation invariant \<open>queue_inv\<close>, the refinement to a list of messages
  (\<open>queue_contents\<close>), the behaviour of every branch, and the interpretation of the contract
  \<open>bounded_fifo\<close>.
\<close>

section \<open>The queue object\<close>

definition OSA_QUEUE_NAME_LEN :: nat where
  "OSA_QUEUE_NAME_LEN = 32"

record osa_queue_impl =
  q_name :: string
  q_msg_size :: nat
  q_max_msgs :: int
  q_buffer :: "byte list"
  q_head :: int
  q_tail :: int
  q_count :: int
  q_closed :: bool

section \<open>Creation and destruction\<close>

definition osa_queue_create ::
  "bool \<Rightarrow> string option \<Rightarrow> nat \<Rightarrow> int \<Rightarrow> bool \<Rightarrow> bool \<Rightarrow> int \<times> osa_queue_impl option" where
  "osa_queue_create queue name msg_size max_msgs calloc_q calloc_buf =
    (case name of
       None \<Rightarrow> (- EINVAL, None)
     | Some nm \<Rightarrow>
         if \<not> queue \<or> msg_size = 0 \<or> max_msgs \<le> 0 then (- EINVAL, None)
         else if \<not> calloc_q then (- ENOMEM, None)
         else if \<not> calloc_buf then (- ENOMEM, None)
         else (0, Some \<lparr>q_name = c_string OSA_QUEUE_NAME_LEN nm,
                        q_msg_size = msg_size, q_max_msgs = max_msgs,
                        q_buffer = replicate (nat max_msgs * msg_size) 0,
                        q_head = 0, q_tail = 0, q_count = 0, q_closed = False\<rparr>))"

text \<open>
  \<^verbatim>\<open>osa_queue_destroy\<close> first closes the queue and wakes every waiter under the mutex
  (\<open>queue_close\<close>), and then releases the condition variables, the mutex and the memory without
  waiting for them: the handle is gone, whoever still holds it.
\<close>

definition queue_close :: "osa_queue_impl \<Rightarrow> osa_queue_impl" where
  "queue_close q = q\<lparr>q_closed := True\<rparr>"

definition osa_queue_destroy :: "osa_queue_impl option \<Rightarrow> int \<times> osa_queue_impl option" where
  "osa_queue_destroy queue = (case queue of None \<Rightarrow> (- EINVAL, None) | Some q \<Rightarrow> (0, None))"

section \<open>Sending\<close>

definition queue_full :: "osa_queue_impl \<Rightarrow> bool" where
  "queue_full q \<longleftrightarrow> q_count q \<ge> q_max_msgs q"

text \<open>From the second test of \<^verbatim>\<open>closed\<close> to the end: the message is written at \<^verbatim>\<open>tail\<close>.\<close>

definition send_finish :: "osa_queue_impl \<Rightarrow> byte list \<Rightarrow> int \<times> osa_queue_impl" where
  "send_finish q msg =
    (if q_closed q then (- EPIPE, q)
     else if queue_full q then (- EAGAIN, q)
     else (0, q\<lparr>q_buffer := memcpy_to (q_buffer q) (nat (q_tail q) * q_msg_size q) msg (q_msg_size q),
                q_tail := (q_tail q + 1) smod q_max_msgs q,
                q_count := q_count q + 1\<rparr>))"

text \<open>The head of either waiting loop.\<close>

definition send_wait :: "wait_kind \<Rightarrow> osa_queue_impl \<Rightarrow> byte list \<Rightarrow> (int \<times> osa_queue_impl) call" where
  "send_wait k q msg =
    (if queue_full q \<and> \<not> q_closed q then Park k else Return (send_finish q msg))"

text \<open>
  \<open>queue_send\<close> is the body behind the NULL checks, on the object; \<open>osa_queue_send\<close> the call on
  the handle.
\<close>

definition queue_send ::
  "osa_queue_impl \<Rightarrow> byte list \<Rightarrow> nat \<Rightarrow> int \<Rightarrow> timespec \<Rightarrow> (int \<times> osa_queue_impl) call" where
  "queue_send q msg msg_len timeout_ms now =
    (if msg_len \<noteq> q_msg_size q then Return (- EINVAL, q)
     else if q_closed q then Return (- EPIPE, q)
     else if queue_full q then
       (if timeout_ms = 0 then Return (- EAGAIN, q)
        else if timeout_ms > 0 then send_wait (Until (calc_timeout now timeout_ms)) q msg
        else send_wait Forever q msg)
     else Return (send_finish q msg))"

definition osa_queue_send ::
  "osa_queue_impl option \<Rightarrow> byte list option \<Rightarrow> nat \<Rightarrow> int \<Rightarrow> timespec \<Rightarrow>
   (int \<times> osa_queue_impl option) call" where
  "osa_queue_send queue msg msg_len timeout_ms now =
    (case (queue, msg) of
       (Some q, Some m) \<Rightarrow> map_call (map_prod id Some) (queue_send q m msg_len timeout_ms now)
     | _ \<Rightarrow> Return (- EINVAL, queue))"

text \<open>The stretch from the wake-up of a sleeping sender, whose wait returned \<open>ret\<close>.\<close>

definition send_wake ::
  "wait_kind \<Rightarrow> int \<Rightarrow> osa_queue_impl \<Rightarrow> byte list \<Rightarrow> (int \<times> osa_queue_impl) call" where
  "send_wake k ret q msg =
    (case k of
       Until ts \<Rightarrow> if ret = ETIMEDOUT then Return (- ETIMEDOUT, q) else send_wait k q msg
     | Forever \<Rightarrow> send_wait k q msg)"

section \<open>Receiving\<close>

definition recv_finish :: "osa_queue_impl \<Rightarrow> int \<times> byte list option \<times> osa_queue_impl" where
  "recv_finish q =
    (if q_closed q \<and> q_count q = 0 then (- EPIPE, None, q)
     else if q_count q = 0 then (- EAGAIN, None, q)
     else (0, Some (memcpy_from (q_buffer q) (nat (q_head q) * q_msg_size q) (q_msg_size q)),
           q\<lparr>q_head := (q_head q + 1) smod q_max_msgs q, q_count := q_count q - 1\<rparr>))"

definition recv_wait ::
  "wait_kind \<Rightarrow> osa_queue_impl \<Rightarrow> (int \<times> byte list option \<times> osa_queue_impl) call" where
  "recv_wait k q =
    (if q_count q = 0 \<and> \<not> q_closed q then Park k else Return (recv_finish q))"

definition queue_receive ::
  "osa_queue_impl \<Rightarrow> nat \<Rightarrow> int \<Rightarrow> timespec \<Rightarrow>
   (int \<times> byte list option \<times> osa_queue_impl) call" where
  "queue_receive q msg_len timeout_ms now =
    (if msg_len \<noteq> q_msg_size q then Return (- EINVAL, None, q)
     else if q_closed q \<and> q_count q = 0 then Return (- EPIPE, None, q)
     else if q_count q = 0 then
       (if timeout_ms = 0 then Return (- EAGAIN, None, q)
        else if timeout_ms > 0 then recv_wait (Until (calc_timeout now timeout_ms)) q
        else recv_wait Forever q)
     else Return (recv_finish q))"

text \<open>The flag \<open>msg\<close> says that the caller's buffer pointer is not NULL.\<close>

definition osa_queue_receive ::
  "osa_queue_impl option \<Rightarrow> bool \<Rightarrow> nat \<Rightarrow> int \<Rightarrow> timespec \<Rightarrow>
   (int \<times> byte list option \<times> osa_queue_impl option) call" where
  "osa_queue_receive queue msg msg_len timeout_ms now =
    (case queue of
       Some q \<Rightarrow>
         if msg then map_call (map_prod id (map_prod id Some)) (queue_receive q msg_len timeout_ms now)
         else Return (- EINVAL, None, queue)
     | None \<Rightarrow> Return (- EINVAL, None, queue))"

definition recv_wake ::
  "wait_kind \<Rightarrow> int \<Rightarrow> osa_queue_impl \<Rightarrow> (int \<times> byte list option \<times> osa_queue_impl) call" where
  "recv_wake k ret q =
    (case k of
       Until ts \<Rightarrow> if ret = ETIMEDOUT then Return (- ETIMEDOUT, None, q) else recv_wait k q
     | Forever \<Rightarrow> recv_wait k q)"

section \<open>Queries\<close>

definition osa_queue_count :: "osa_queue_impl option \<Rightarrow> int" where
  "osa_queue_count queue = (case queue of None \<Rightarrow> - EINVAL | Some q \<Rightarrow> q_count q)"

definition osa_queue_is_full :: "osa_queue_impl option \<Rightarrow> bool" where
  "osa_queue_is_full queue = (case queue of None \<Rightarrow> False | Some q \<Rightarrow> queue_full q)"

definition osa_queue_is_empty :: "osa_queue_impl option \<Rightarrow> bool" where
  "osa_queue_is_empty queue = (case queue of None \<Rightarrow> True | Some q \<Rightarrow> q_count q = 0)"

definition osa_queue_get_name :: "osa_queue_impl option \<Rightarrow> string option" where
  "osa_queue_get_name queue = map_option q_name queue"

section \<open>The representation invariant and the abstraction\<close>

definition queue_inv :: "osa_queue_impl \<Rightarrow> bool" where
  "queue_inv q \<longleftrightarrow>
    0 < q_msg_size q \<and> 0 < q_max_msgs q \<and>
    length (q_buffer q) = nat (q_max_msgs q) * q_msg_size q \<and>
    0 \<le> q_head q \<and> q_head q < q_max_msgs q \<and>
    0 \<le> q_count q \<and> q_count q \<le> q_max_msgs q \<and>
    q_tail q = (q_head q + q_count q) mod q_max_msgs q"

text \<open>The \<open>i\<close>-th slot of the ring, and the messages from the oldest to the newest.\<close>

definition queue_slot :: "osa_queue_impl \<Rightarrow> nat \<Rightarrow> byte list" where
  "queue_slot q i = memcpy_from (q_buffer q) (i * q_msg_size q) (q_msg_size q)"

definition ring_index :: "osa_queue_impl \<Rightarrow> nat \<Rightarrow> nat" where
  "ring_index q i = nat ((q_head q + int i) mod q_max_msgs q)"

definition queue_contents :: "osa_queue_impl \<Rightarrow> byte list list" where
  "queue_contents q = map (\<lambda>i. queue_slot q (ring_index q i)) [0..<nat (q_count q)]"

definition queue_cap :: "osa_queue_impl \<Rightarrow> nat" where
  "queue_cap q = nat (q_max_msgs q)"

section \<open>Ring arithmetic\<close>

lemma length_queue_contents [simp]: "length (queue_contents q) = nat (q_count q)"
  by (simp add: queue_contents_def)

lemma ring_index_less: "queue_inv q \<Longrightarrow> ring_index q i < nat (q_max_msgs q)"
  by (simp add: queue_inv_def ring_index_def zless_nat_conj)

lemma ring_index_inj:
  assumes "queue_inv q" and "i < nat (q_max_msgs q)" and "j < nat (q_max_msgs q)"
    and "ring_index q i = ring_index q j"
  shows "i = j"
proof -
  have "(q_head q + int i) mod q_max_msgs q = (q_head q + int j) mod q_max_msgs q"
    using assms(1,4) by (simp add: ring_index_def queue_inv_def eq_nat_nat_iff)
  then have "int i mod q_max_msgs q = int j mod q_max_msgs q"
    by (simp add: mod_eq_dvd_iff)
  then show ?thesis
    using assms(2,3) by (simp add: zless_nat_conj)
qed

lemma ring_index_tail: "queue_inv q \<Longrightarrow> ring_index q (nat (q_count q)) = nat (q_tail q)"
  by (simp add: ring_index_def queue_inv_def)

lemma slot_within:
  assumes "queue_inv q" and "i < nat (q_max_msgs q)"
  shows "i * q_msg_size q + q_msg_size q \<le> length (q_buffer q)"
proof -
  have "Suc i * q_msg_size q \<le> nat (q_max_msgs q) * q_msg_size q"
    using assms(2) by (intro mult_le_mono) auto
  then show ?thesis
    using assms(1) by (simp add: queue_inv_def algebra_simps)
qed

lemma slots_disjoint:
  "i \<noteq> j \<Longrightarrow> (i :: nat) * n + n \<le> j * n \<or> j * n + n \<le> i * n"
proof -
  assume "i \<noteq> j"
  then consider "Suc i \<le> j" | "Suc j \<le> i" by linarith
  then show ?thesis
  proof cases
    case 1
    from mult_le_mono1 [OF this, of n] show ?thesis by simp
  next
    case 2
    from mult_le_mono1 [OF this, of n] show ?thesis by simp
  qed
qed

lemma contents_nth_mem: "m \<in> set (queue_contents q) \<Longrightarrow> queue_inv q \<Longrightarrow> length m = q_msg_size q"
  using slot_within [OF _ ring_index_less]
  by (auto simp: queue_contents_def queue_slot_def)

section \<open>Every operation keeps the invariant and refines the list\<close>

text \<open>The two state changes: a message written at \<^verbatim>\<open>tail\<close>, and one taken from \<^verbatim>\<open>head\<close>.\<close>

lemma send_finish_ok:
  assumes inv: "queue_inv q" and "\<not> q_closed q" and "\<not> queue_full q"
    and len: "length msg = q_msg_size q"
  obtains q' where "send_finish q msg = (0, q')" "queue_inv q'"
    "queue_contents q' = queue_contents q @ [msg]"
    "q_max_msgs q' = q_max_msgs q" "q_msg_size q' = q_msg_size q" "q_closed q' = q_closed q"
    "q_name q' = q_name q" "q_count q' = q_count q + 1"
proof -
  let ?t = "nat (q_tail q)" and ?m = "q_msg_size q" and ?c = "nat (q_count q)"
  define q' where "q' = snd (send_finish q msg)"
  have room: "0 \<le> q_tail q" "q_tail q < q_max_msgs q" "?c < nat (q_max_msgs q)"
    using inv assms(3) by (auto simp: queue_inv_def queue_full_def)
  have q': "q' = q\<lparr>q_buffer := memcpy_to (q_buffer q) (?t * ?m) msg ?m,
      q_tail := (q_tail q + 1) mod q_max_msgs q, q_count := q_count q + 1\<rparr>"
    using assms room by (simp add: q'_def send_finish_def smod_nonneg)
  have fits: "?t * ?m + ?m \<le> length (q_buffer q)"
    using slot_within [OF inv, of ?t] room by simp
  have inv': "queue_inv q'"
    using inv room len fits by (auto simp: q' queue_inv_def mod_simps add.assoc)
  have "queue_slot q' (ring_index q' i) = queue_slot q (ring_index q i)" if "i < ?c" for i
  proof -
    have "ring_index q i \<noteq> ?t"
      using ring_index_inj [OF inv, of i ?c] ring_index_tail [OF inv] that room by auto
    then show ?thesis
      using len slots_disjoint [of "ring_index q i" ?t ?m]
      by (simp add: q' queue_slot_def ring_index_def memcpy_from_disjoint [OF fits])
  qed
  moreover have "queue_slot q' (ring_index q' ?c) = msg"
    using ring_index_tail [OF inv] fits len
    by (simp add: q' queue_slot_def ring_index_def memcpy_from_same)
  moreover have "nat (q_count q') = Suc ?c"
    using inv by (simp add: q' queue_inv_def nat_add_distrib)
  ultimately have "queue_contents q' = queue_contents q @ [msg]"
    by (simp add: queue_contents_def)
  moreover have "send_finish q msg = (0, q')"
    using assms(2,3) by (simp add: q'_def send_finish_def)
  ultimately show ?thesis
    using inv' by (intro that [of q']) (simp_all add: q')
qed

lemma recv_finish_ok:
  assumes inv: "queue_inv q" and "q_count q \<noteq> 0"
  obtains msg q' where "recv_finish q = (0, Some msg, q')" "queue_inv q'"
    "queue_contents q = msg # queue_contents q'" "length msg = q_msg_size q"
    "q_max_msgs q' = q_max_msgs q" "q_msg_size q' = q_msg_size q" "q_closed q' = q_closed q"
    "q_name q' = q_name q" "q_count q' = q_count q - 1"
proof -
  let ?h = "nat (q_head q)" and ?m = "q_msg_size q"
  define q' where "q' = q\<lparr>q_head := (q_head q + 1) mod q_max_msgs q, q_count := q_count q - 1\<rparr>"
  have head: "0 \<le> q_head q" "q_head q < q_max_msgs q" "1 \<le> q_count q"
    using assms by (auto simp: queue_inv_def)
  have inv': "queue_inv q'"
    using inv head by (auto simp: q'_def queue_inv_def mod_simps)
  have count: "nat (q_count q) = Suc (nat (q_count q'))"
    using head by (simp add: q'_def Suc_nat_eq_nat_zadd1)
  have idx: "ring_index q' i = ring_index q (Suc i)" for i
    by (simp add: q'_def ring_index_def mod_simps algebra_simps)
  have "queue_contents q =
      queue_slot q (ring_index q 0) # map (\<lambda>i. queue_slot q (ring_index q (Suc i))) [0..<nat (q_count q')]"
    unfolding queue_contents_def count by (simp only: map_upt_Suc)
  also have "map (\<lambda>i. queue_slot q (ring_index q (Suc i))) [0..<nat (q_count q')] = queue_contents q'"
    by (simp add: queue_contents_def idx queue_slot_def) (simp add: q'_def)
  finally have "queue_contents q = queue_slot q ?h # queue_contents q'"
    using head by (simp add: ring_index_def)
  moreover have "recv_finish q = (0, Some (queue_slot q ?h), q')"
    using head assms(2) by (simp add: recv_finish_def q'_def queue_slot_def smod_nonneg)
  moreover have "length (queue_slot q ?h) = ?m"
    using slot_within [OF inv, of ?h] head by (simp add: queue_slot_def)
  ultimately show ?thesis
    using inv' by (intro that [of "queue_slot q ?h" q']) (simp_all add: q'_def)
qed

lemma send_finish_refused:
  "q_closed q \<or> queue_full q \<Longrightarrow> send_finish q msg = (if q_closed q then - EPIPE else - EAGAIN, q)"
  by (auto simp: send_finish_def)

lemma recv_finish_empty:
  "q_count q = 0 \<Longrightarrow> recv_finish q = (if q_closed q then - EPIPE else - EAGAIN, None, q)"
  by (simp add: recv_finish_def)

text \<open>The three ways a sender's stretch can end.\<close>

lemma send_wait_cases:
  "send_wait k q msg =
    (if q_closed q then Return (- EPIPE, q) else if queue_full q then Park k
     else Return (send_finish q msg))"
  by (simp add: send_wait_def send_finish_def)

lemma queue_send_cases:
  "queue_send q msg msg_len timeout_ms now =
    (if msg_len \<noteq> q_msg_size q then Return (- EINVAL, q)
     else if q_closed q then Return (- EPIPE, q)
     else if \<not> queue_full q then Return (send_finish q msg)
     else if timeout_ms = 0 then Return (- EAGAIN, q)
     else if timeout_ms > 0 then Park (Until (calc_timeout now timeout_ms))
     else Park Forever)"
  by (simp add: queue_send_def send_wait_cases)

lemma recv_wait_cases:
  "recv_wait k q =
    (if q_count q \<noteq> 0 then Return (recv_finish q)
     else if q_closed q then Return (- EPIPE, None, q) else Park k)"
  by (simp add: recv_wait_def recv_finish_def)

lemma queue_receive_cases:
  "queue_receive q msg_len timeout_ms now =
    (if msg_len \<noteq> q_msg_size q then Return (- EINVAL, None, q)
     else if q_count q \<noteq> 0 then Return (recv_finish q)
     else if q_closed q then Return (- EPIPE, None, q)
     else if timeout_ms = 0 then Return (- EAGAIN, None, q)
     else if timeout_ms > 0 then Park (Until (calc_timeout now timeout_ms))
     else Park Forever)"
  by (simp add: queue_receive_def recv_wait_cases)

section \<open>The non-blocking operations are a bounded FIFO\<close>

definition try_send :: "timespec \<Rightarrow> osa_queue_impl \<Rightarrow> byte list \<Rightarrow> int \<times> osa_queue_impl" where
  "try_send now q msg =
    (case queue_send q msg (length msg) 0 now of Return r \<Rightarrow> r | Park k \<Rightarrow> (- EAGAIN, q))"

definition try_receive :: "timespec \<Rightarrow> osa_queue_impl \<Rightarrow> byte list option \<times> osa_queue_impl" where
  "try_receive now q =
    (case queue_receive q (q_msg_size q) 0 now of Return (r, m, q') \<Rightarrow> (m, q') | Park k \<Rightarrow> (None, q))"

definition open_inv :: "osa_queue_impl \<Rightarrow> bool" where
  "open_inv q \<longleftrightarrow> queue_inv q \<and> \<not> q_closed q"

definition fits :: "osa_queue_impl \<Rightarrow> byte list \<Rightarrow> bool" where
  "fits q msg \<longleftrightarrow> length msg = q_msg_size q"

lemma queue_full_iff: "queue_inv q \<Longrightarrow> queue_full q \<longleftrightarrow> length (queue_contents q) = queue_cap q"
  by (auto simp: queue_inv_def queue_full_def queue_cap_def)

lemma queue_empty_iff: "queue_inv q \<Longrightarrow> q_count q = 0 \<longleftrightarrow> queue_contents q = []"
  by (auto simp: queue_inv_def queue_contents_def)

interpretation ring: bounded_fifo open_inv queue_contents queue_cap fits "try_send now" "try_receive now"
  for now
proof (unfold_locales, goal_cases)
  case (1 q)
  then show ?case by (auto simp: open_inv_def queue_inv_def queue_cap_def)
next
  case (2 q m)
  then show ?case
    by (cases "queue_full q")
      (auto simp: open_inv_def fits_def try_send_def queue_send_cases elim: send_finish_ok [of q m])
next
  case (3 q m)
  then have "\<not> queue_full q" by (auto simp: open_inv_def queue_full_iff)
  with 3 show ?case
    by (auto simp: open_inv_def fits_def try_send_def queue_send_cases elim: send_finish_ok [of q m])
next
  case (4 q m)
  then show ?case
    by (simp add: open_inv_def fits_def try_send_def queue_send_cases queue_full_iff EAGAIN_def)
next
  case (5 q)
  then show ?case
    by (cases "q_count q = 0")
      (auto simp: open_inv_def try_receive_def queue_receive_cases elim: recv_finish_ok [of q])
next
  case (6 q x xs)
  then have "q_count q \<noteq> 0" by (auto simp: open_inv_def queue_empty_iff)
  with 6 show ?case
    by (auto simp: open_inv_def try_receive_def queue_receive_cases elim: recv_finish_ok [of q])
next
  case (7 q)
  then show ?case
    by (auto simp: open_inv_def try_receive_def queue_receive_cases queue_empty_iff [symmetric])
next
  case (8 q m)
  then show ?case
    by (cases "queue_full q")
      (auto simp: open_inv_def fits_def queue_cap_def try_send_def queue_send_cases
        elim: send_finish_ok [of q m])
next
  case (9 q)
  then show ?case
    by (cases "q_count q = 0")
      (auto simp: open_inv_def queue_cap_def try_receive_def queue_receive_cases
        elim: recv_finish_ok [of q])
qed

section \<open>Properties\<close>

text \<open>
  \<^verbatim>\<open>osa_queue_create\<close> returns 0 exactly when its arguments are sensible and memory is available,
  and then the new queue is well formed, open and empty, with the requested geometry; otherwise it
  returns \<open>- EINVAL\<close> or \<open>- ENOMEM\<close> and no queue.
\<close>

theorem osa_queue_create_spec:
  "osa_queue_create queue name msg_size max_msgs calloc_q calloc_buf = (r, h) \<Longrightarrow>
   (r = 0 \<longleftrightarrow> queue \<and> name \<noteq> None \<and> msg_size \<noteq> 0 \<and> 0 < max_msgs \<and> calloc_q \<and> calloc_buf) \<and>
   (r \<noteq> 0 \<longrightarrow> h = None \<and> r \<in> {- EINVAL, - ENOMEM}) \<and>
   (r = 0 \<longrightarrow> (\<exists>q. h = Some q \<and> open_inv q \<and> queue_contents q = [] \<and>
      q_msg_size q = msg_size \<and> queue_cap q = nat max_msgs \<and> length (q_name q) < OSA_QUEUE_NAME_LEN))"
  by (auto simp: osa_queue_create_def open_inv_def queue_inv_def queue_contents_def queue_cap_def
      c_string_def OSA_QUEUE_NAME_LEN_def c_consts split: option.splits if_splits)

theorem osa_queue_create_spec_witness:
  "\<exists>q. osa_queue_create True (Some ''q'') 24 20 True True = (0, Some q) \<and> open_inv q \<and> queue_cap q = 20"
proof -
  obtain q where q: "osa_queue_create True (Some ''q'') 24 20 True True = (0, Some q)"
    by (simp add: osa_queue_create_def)
  from osa_queue_create_spec [OF q] q show ?thesis by auto
qed

text \<open>
  C18. Every way a send can go. On a well-formed queue a send that returns has either appended the
  message to the contents (the queue was open and not full and the size right) and returned 0, or
  left the queue unchanged with the error code of its cause; it goes to sleep only on a full open
  queue and with a non-zero timeout, until exactly the deadline the timeout asks for.
\<close>

theorem queue_send_spec:
  assumes "queue_inv q"
  shows "case queue_send q msg (length msg) timeout_ms now of
      Return (r, q') \<Rightarrow>
        queue_inv q' \<and> queue_cap q' = queue_cap q \<and> q_msg_size q' = q_msg_size q \<and>
        (if length msg \<noteq> q_msg_size q then r = - EINVAL \<and> q' = q
         else if q_closed q then r = - EPIPE \<and> q' = q
         else if length (queue_contents q) = queue_cap q then r = - EAGAIN \<and> q' = q \<and> timeout_ms = 0
         else r = 0 \<and> queue_contents q' = queue_contents q @ [msg] \<and> \<not> q_closed q')
    | Park k \<Rightarrow>
        length msg = q_msg_size q \<and> \<not> q_closed q \<and> length (queue_contents q) = queue_cap q \<and>
        timeout_ms \<noteq> 0 \<and>
        (case k of Forever \<Rightarrow> timeout_ms < 0
         | Until ts \<Rightarrow> 0 < timeout_ms \<and> nanoseconds ts = nanoseconds now + timeout_ms * 1000000)"
proof (cases "length msg = q_msg_size q \<and> \<not> q_closed q \<and> \<not> queue_full q")
  case True
  then obtain q' where q': "send_finish q msg = (0, q')" "queue_inv q'"
    "queue_contents q' = queue_contents q @ [msg]" "q_max_msgs q' = q_max_msgs q"
    "q_msg_size q' = q_msg_size q" "q_closed q' = q_closed q"
    using send_finish_ok [OF assms] by metis
  then show ?thesis
    using True queue_full_iff [OF assms] by (simp add: queue_send_cases queue_cap_def)
next
  case False
  then show ?thesis
    using assms queue_full_iff [OF assms] by (auto simp: queue_send_cases calc_timeout_exact)
qed

theorem queue_send_spec_witness:
  "\<exists>q'. queue_send \<lparr>q_name = [], q_msg_size = 1, q_max_msgs = 2, q_buffer = [7, 8], q_head = 1,
      q_tail = 0, q_count = 1, q_closed = False\<rparr> [9] 1 0 \<lparr>tv_sec = 0, tv_nsec = 0\<rparr> = Return (0, q') \<and>
    queue_contents q' = [[8], [9]]"
proof -
  let ?q = "\<lparr>q_name = [], q_msg_size = 1, q_max_msgs = 2, q_buffer = [7, 8], q_head = 1,
      q_tail = 0, q_count = 1, q_closed = False\<rparr> :: osa_queue_impl"
  have inv: "queue_inv ?q" and c: "queue_contents ?q = [[8]]"
    by (simp_all add: queue_inv_def queue_contents_def queue_slot_def ring_index_def memcpy_from_def)
  then show ?thesis
    using queue_send_spec [OF inv, of "[9]" 0 "\<lparr>tv_sec = 0, tv_nsec = 0\<rparr>"]
    by (simp add: queue_cap_def split: call.splits prod.splits)
qed

text \<open>
  C19. Every way a receive can go. On a well-formed queue a receive of the right size returns the
  oldest message and removes it, also from a closed queue; on an empty queue it returns the error
  code of its cause and changes nothing, or sleeps when the queue is open and the timeout is not 0.
\<close>

theorem queue_receive_spec:
  assumes "queue_inv q"
  shows "case queue_receive q msg_len timeout_ms now of
      Return (r, m, q') \<Rightarrow>
        queue_inv q' \<and> queue_cap q' = queue_cap q \<and> q_closed q' = q_closed q \<and>
        (if msg_len \<noteq> q_msg_size q then r = - EINVAL \<and> m = None \<and> q' = q
         else case queue_contents q of
           x # xs \<Rightarrow> r = 0 \<and> m = Some x \<and> length x = msg_len \<and> queue_contents q' = xs
         | [] \<Rightarrow> m = None \<and> q' = q \<and>
             (if q_closed q then r = - EPIPE else r = - EAGAIN \<and> timeout_ms = 0))
    | Park k \<Rightarrow>
        msg_len = q_msg_size q \<and> \<not> q_closed q \<and> queue_contents q = [] \<and> timeout_ms \<noteq> 0 \<and>
        (case k of Forever \<Rightarrow> timeout_ms < 0
         | Until ts \<Rightarrow> 0 < timeout_ms \<and> nanoseconds ts = nanoseconds now + timeout_ms * 1000000)"
proof (cases "msg_len = q_msg_size q \<and> q_count q \<noteq> 0")
  case True
  then obtain m q' where q': "recv_finish q = (0, Some m, q')" "queue_inv q'"
    "queue_contents q = m # queue_contents q'" "length m = q_msg_size q"
    "q_max_msgs q' = q_max_msgs q" "q_closed q' = q_closed q"
    using recv_finish_ok [OF assms] by metis
  then show ?thesis
    using True by (simp add: queue_receive_cases queue_cap_def)
next
  case False
  then show ?thesis
    using assms queue_empty_iff [OF assms]
    by (auto simp: queue_receive_cases calc_timeout_exact split: list.splits)
qed

theorem queue_receive_spec_witness:
  "\<exists>q'. queue_receive \<lparr>q_name = [], q_msg_size = 1, q_max_msgs = 2, q_buffer = [7, 8], q_head = 1,
      q_tail = 1, q_count = 2, q_closed = True\<rparr> 1 0 \<lparr>tv_sec = 0, tv_nsec = 0\<rparr> = Return (0, Some [8], q') \<and>
    queue_contents q' = [[7]]"
proof -
  let ?q = "\<lparr>q_name = [], q_msg_size = 1, q_max_msgs = 2, q_buffer = [7, 8], q_head = 1,
      q_tail = 1, q_count = 2, q_closed = True\<rparr> :: osa_queue_impl"
  have inv: "queue_inv ?q" and c: "queue_contents ?q = [[8], [7]]"
    by (simp_all add: queue_inv_def queue_contents_def queue_slot_def ring_index_def memcpy_from_def
        upt_conv_Cons numeral_eq_Suc)
  then show ?thesis
    using queue_receive_spec [OF inv, of 1 0 "\<lparr>tv_sec = 0, tv_nsec = 0\<rparr>"]
    by (simp add: queue_cap_def split: call.splits prod.splits)
qed

text \<open>
  C20. Any sequence of non-blocking sends and receives on an open queue is first in, first out: what
  was in the queue followed by what was accepted is what came out followed by what is still there,
  and the queue stays well formed within its capacity.
\<close>

theorem queue_fifo_history:
  assumes "open_inv q" and "fifo_ok fits (try_send now) (try_receive now) ops q"
    and "fifo_run (try_send now) (try_receive now) ops q = (accepted, delivered, q')"
  shows "open_inv q' \<and> queue_contents q @ accepted = delivered @ queue_contents q' \<and>
    length (queue_contents q') \<le> queue_cap q"
  using ring.run_history [OF assms] ring.bounded [of q'] by simp

theorem queue_fifo_history_witness:
  "\<exists>q'. fifo_run (try_send \<lparr>tv_sec = 0, tv_nsec = 0\<rparr>) (try_receive \<lparr>tv_sec = 0, tv_nsec = 0\<rparr>)
      [Put [1], Put [2], Put [3], Get, Put [4], Get]
      \<lparr>q_name = [], q_msg_size = 1, q_max_msgs = 2, q_buffer = [0, 0], q_head = 0, q_tail = 0,
       q_count = 0, q_closed = False\<rparr> = ([[1], [2], [4]], [[1], [2]], q') \<and>
    queue_contents q' = [[4]]"
proof -
  let ?q = "\<lparr>q_name = [], q_msg_size = 1, q_max_msgs = 2, q_buffer = [0, 0], q_head = 0, q_tail = 0,
       q_count = 0, q_closed = False\<rparr> :: osa_queue_impl"
    and ?now = "\<lparr>tv_sec = 0, tv_nsec = 0\<rparr> :: timespec"
  let ?ops = "[Put [1], Put [2], Put [3], Get, Put [4], Get] :: byte list fifo_op list"
  have inv: "open_inv ?q"
    by (simp add: open_inv_def queue_inv_def)
  have ok: "fifo_ok fits (try_send ?now) (try_receive ?now) ?ops ?q"
    by code_simp
  obtain q' where run: "fifo_run (try_send ?now) (try_receive ?now) ?ops ?q = ([[1], [2], [4]], [[1], [2]], q')"
    by (simp add: try_send_def try_receive_def queue_send_cases queue_receive_cases send_finish_def
        recv_finish_def queue_full_def memcpy_to_def memcpy_from_def smod_nonneg c_consts)
  have "queue_contents ?q = []"
    by (simp add: queue_contents_def)
  with queue_fifo_history [OF inv ok run] run show ?thesis
    by auto
qed

end
