(* ===== verification/Osa_Queue_Threads.thy ===== *)
theory Osa_Queue_Threads
  imports Osa_Queue
begin

text \<open>
  The Linux message queue under any number of threads. A state holds the queue object and, per
  thread, where the thread is: outside the queue, or asleep in one of the two waiting loops, with
  the message it sends and whether its wait is still pending, was ended by
  \<^verbatim>\<open>pthread_cond_signal\<close> or \<^verbatim>\<open>pthread_cond_broadcast\<close>, or ran into its deadline. The histories of
  the messages written and read are ghost fields. A step is one atomic stretch of one thread of
  the theory \<^verbatim>\<open>Osa_Queue\<close>; a thread whose wait is pending may also wake spuriously, as POSIX allows.

  The lemmas show two invariants of every reachable state: \<open>history_inv\<close>, by which messages leave
  in the order they were accepted with none lost, repeated or changed, and \<open>wakeup_inv\<close>, by which
  no wake-up is lost.
\<close>

section \<open>Threads\<close>

datatype wait_status = Waiting | Signalled | Expired

datatype thread_pc =
    Outside
  | Sending "byte list" wait_kind wait_status
  | Receiving wait_kind wait_status

record queue_sys =
  sys_q :: osa_queue_impl
  sys_pc :: "nat \<Rightarrow> thread_pc"
  sys_sent :: "byte list list"
  sys_received :: "byte list list"

fun send_status :: "thread_pc \<Rightarrow> wait_status option" where
  "send_status (Sending m k w) = Some w"
| "send_status _ = None"

fun recv_status :: "thread_pc \<Rightarrow> wait_status option" where
  "recv_status (Receiving k w) = Some w"
| "recv_status _ = None"

fun set_status :: "wait_status \<Rightarrow> thread_pc \<Rightarrow> thread_pc" where
  "set_status w Outside = Outside"
| "set_status w (Sending m k v) = Sending m k w"
| "set_status w (Receiving k v) = Receiving k w"

text \<open>The value a wait returns to its caller.\<close>

definition wait_result :: "wait_status \<Rightarrow> int" where
  "wait_result w = (if w = Expired then ETIMEDOUT else 0)"

text \<open>
  \<^verbatim>\<open>pthread_cond_signal\<close> ends one pending wait on the condition variable if there is one;
  \<^verbatim>\<open>pthread_cond_broadcast\<close> on both variables ends them all.
\<close>

inductive cond_signal ::
  "(thread_pc \<Rightarrow> wait_status option) \<Rightarrow> (nat \<Rightarrow> thread_pc) \<Rightarrow> (nat \<Rightarrow> thread_pc) \<Rightarrow> bool"
  for status where
  signal_one: "status (pcs u) = Some Waiting \<Longrightarrow>
    cond_signal status pcs (pcs(u := set_status Signalled (pcs u)))"
| signal_none: "(\<And>u. status (pcs u) \<noteq> Some Waiting) \<Longrightarrow> cond_signal status pcs pcs"

definition broadcast :: "(nat \<Rightarrow> thread_pc) \<Rightarrow> nat \<Rightarrow> thread_pc" where
  "broadcast pcs =
    (\<lambda>t. if send_status (pcs t) = Some Waiting \<or> recv_status (pcs t) = Some Waiting
         then set_status Signalled (pcs t) else pcs t)"

section \<open>Steps\<close>

text \<open>Thread \<open>t\<close> leaves a send with result \<open>r\<close>, or a receive with result \<open>r\<close> and message \<open>m\<close>.\<close>

inductive send_done :: "queue_sys \<Rightarrow> nat \<Rightarrow> byte list \<Rightarrow> int \<times> osa_queue_impl \<Rightarrow> queue_sys \<Rightarrow> bool" where
  send_done_ok: "cond_signal recv_status ((sys_pc s)(t := Outside)) pcs \<Longrightarrow>
    send_done s t msg (0, q) (s\<lparr>sys_q := q, sys_pc := pcs, sys_sent := sys_sent s @ [msg]\<rparr>)"
| send_done_err: "r \<noteq> 0 \<Longrightarrow>
    send_done s t msg (r, q) (s\<lparr>sys_q := q, sys_pc := (sys_pc s)(t := Outside)\<rparr>)"

inductive recv_done ::
  "queue_sys \<Rightarrow> nat \<Rightarrow> int \<times> byte list option \<times> osa_queue_impl \<Rightarrow> queue_sys \<Rightarrow> bool" where
  recv_done_ok: "cond_signal send_status ((sys_pc s)(t := Outside)) pcs \<Longrightarrow>
    recv_done s t (0, Some m, q) (s\<lparr>sys_q := q, sys_pc := pcs, sys_received := sys_received s @ [m]\<rparr>)"
| recv_done_err: "r \<noteq> 0 \<Longrightarrow>
    recv_done s t (r, None, q) (s\<lparr>sys_q := q, sys_pc := (sys_pc s)(t := Outside)\<rparr>)"

inductive queue_step :: "queue_sys \<Rightarrow> queue_sys \<Rightarrow> bool" where
  send_call: "sys_pc s t = Outside \<Longrightarrow>
    queue_send (sys_q s) msg (length msg) timeout_ms now = Return res \<Longrightarrow> send_done s t msg res s' \<Longrightarrow>
    queue_step s s'"
| send_park: "sys_pc s t = Outside \<Longrightarrow>
    queue_send (sys_q s) msg (length msg) timeout_ms now = Park k \<Longrightarrow>
    queue_step s (s\<lparr>sys_pc := (sys_pc s)(t := Sending msg k Waiting)\<rparr>)"
| send_resume: "sys_pc s t = Sending msg k w \<Longrightarrow>
    send_wake k (wait_result w) (sys_q s) msg = Return res \<Longrightarrow> send_done s t msg res s' \<Longrightarrow>
    queue_step s s'"
| send_repark: "sys_pc s t = Sending msg k w \<Longrightarrow>
    send_wake k (wait_result w) (sys_q s) msg = Park k' \<Longrightarrow>
    queue_step s (s\<lparr>sys_pc := (sys_pc s)(t := Sending msg k' Waiting)\<rparr>)"
| recv_call: "sys_pc s t = Outside \<Longrightarrow>
    queue_receive (sys_q s) msg_len timeout_ms now = Return res \<Longrightarrow> recv_done s t res s' \<Longrightarrow>
    queue_step s s'"
| recv_park: "sys_pc s t = Outside \<Longrightarrow>
    queue_receive (sys_q s) msg_len timeout_ms now = Park k \<Longrightarrow>
    queue_step s (s\<lparr>sys_pc := (sys_pc s)(t := Receiving k Waiting)\<rparr>)"
| recv_resume: "sys_pc s t = Receiving k w \<Longrightarrow>
    recv_wake k (wait_result w) (sys_q s) = Return res \<Longrightarrow> recv_done s t res s' \<Longrightarrow>
    queue_step s s'"
| recv_repark: "sys_pc s t = Receiving k w \<Longrightarrow>
    recv_wake k (wait_result w) (sys_q s) = Park k' \<Longrightarrow>
    queue_step s (s\<lparr>sys_pc := (sys_pc s)(t := Receiving k' Waiting)\<rparr>)"
| send_expire: "sys_pc s t = Sending msg (Until ts) Waiting \<Longrightarrow> reached now ts \<Longrightarrow>
    queue_step s (s\<lparr>sys_pc := (sys_pc s)(t := Sending msg (Until ts) Expired)\<rparr>)"
| recv_expire: "sys_pc s t = Receiving (Until ts) Waiting \<Longrightarrow> reached now ts \<Longrightarrow>
    queue_step s (s\<lparr>sys_pc := (sys_pc s)(t := Receiving (Until ts) Expired)\<rparr>)"
| close_call:
    "queue_step s (s\<lparr>sys_q := queue_close (sys_q s), sys_pc := broadcast (sys_pc s)\<rparr>)"

definition queue_sys_init :: "osa_queue_impl \<Rightarrow> queue_sys" where
  "queue_sys_init q = \<lparr>sys_q = q, sys_pc = (\<lambda>_. Outside), sys_sent = [], sys_received = []\<rparr>"

inductive queue_reachable :: "osa_queue_impl \<Rightarrow> queue_sys \<Rightarrow> bool" for q0 where
  queue_start: "queue_reachable q0 (queue_sys_init q0)"
| queue_next: "queue_reachable q0 s \<Longrightarrow> queue_step s s' \<Longrightarrow> queue_reachable q0 s'"

section \<open>First in, first out\<close>

definition history_inv :: "queue_sys \<Rightarrow> bool" where
  "history_inv s \<longleftrightarrow>
    queue_inv (sys_q s) \<and> sys_received s @ queue_contents (sys_q s) = sys_sent s \<and>
    (\<forall>t msg k w. sys_pc s t = Sending msg k w \<longrightarrow> length msg = q_msg_size (sys_q s))"

text \<open>Nothing but the status of a wait changes in a signal.\<close>

lemma cond_signal_sending:
  "cond_signal status pcs pcs' \<Longrightarrow> pcs' t = Sending msg k w \<Longrightarrow> \<exists>w'. pcs t = Sending msg k w'"
proof (induction rule: cond_signal.induct)
  case (signal_one pcs u)
  then show ?case by (cases "pcs u"; cases "t = u") auto
qed auto

lemma broadcast_sending:
  "broadcast pcs t = Sending msg k w \<Longrightarrow> \<exists>w'. pcs t = Sending msg k w'"
  by (cases "pcs t") (auto simp: broadcast_def split: if_splits)

lemma queue_close_simps [simp]:
  "queue_inv (queue_close q) = queue_inv q"
  "queue_contents (queue_close q) = queue_contents q"
  "q_msg_size (queue_close q) = q_msg_size q"
  "q_max_msgs (queue_close q) = q_max_msgs q"
  "q_count (queue_close q) = q_count q"
  "q_closed (queue_close q)"
  by (simp_all add: queue_close_def queue_inv_def queue_contents_def queue_slot_def ring_index_def)

text \<open>
  What a stretch that returns has done to the object: nothing, or one message in (out).
\<close>

definition wrote :: "osa_queue_impl \<Rightarrow> byte list \<Rightarrow> osa_queue_impl \<Rightarrow> bool" where
  "wrote q msg q' \<longleftrightarrow>
    queue_inv q' \<and> queue_contents q' = queue_contents q @ [msg] \<and> q_msg_size q' = q_msg_size q \<and>
    q_max_msgs q' = q_max_msgs q \<and> q_count q' = q_count q + 1 \<and> \<not> q_closed q \<and> \<not> q_closed q'"

definition took :: "osa_queue_impl \<Rightarrow> byte list \<Rightarrow> osa_queue_impl \<Rightarrow> bool" where
  "took q msg q' \<longleftrightarrow>
    queue_inv q' \<and> queue_contents q = msg # queue_contents q' \<and> q_msg_size q' = q_msg_size q \<and>
    q_max_msgs q' = q_max_msgs q \<and> q_count q' = q_count q - 1 \<and> q_count q > 0 \<and>
    q_closed q' = q_closed q"

lemma send_finish_wrote:
  assumes "queue_inv q" and "length msg = q_msg_size q" and "send_finish q msg = (r, q')"
  shows "(r = 0 \<and> wrote q msg q') \<or> (r \<noteq> 0 \<and> q' = q)"
proof (cases "q_closed q \<or> queue_full q")
  case True
  then show ?thesis
    using assms(3) by (auto simp: send_finish_refused c_consts split: if_splits)
next
  case False
  then show ?thesis
    using assms by (auto simp: wrote_def elim!: send_finish_ok [of q msg])
qed

lemma recv_finish_took:
  assumes "queue_inv q" and "recv_finish q = (r, m, q')"
  shows "(r = 0 \<and> (\<exists>msg. m = Some msg \<and> took q msg q')) \<or> (r \<noteq> 0 \<and> m = None \<and> q' = q)"
proof (cases "q_count q = 0")
  case True
  then show ?thesis
    using assms(2) by (auto simp: recv_finish_empty c_consts split: if_splits)
next
  case False
  moreover have "0 < q_count q"
    using assms(1) False by (simp add: queue_inv_def)
  ultimately show ?thesis
    using assms by (auto simp: took_def elim!: recv_finish_ok [of q])
qed

lemma queue_send_wrote:
  assumes "queue_inv q" and "queue_send q msg (length msg) timeout_ms now = Return (r, q')"
  shows "(r = 0 \<and> wrote q msg q') \<or> (r \<noteq> 0 \<and> q' = q)"
  using assms send_finish_wrote [of q msg r q']
  by (auto simp: queue_send_cases c_consts split: if_splits)

lemma send_wake_wrote:
  assumes "queue_inv q" and "length msg = q_msg_size q" and "send_wake k ret q msg = Return (r, q')"
  shows "(r = 0 \<and> wrote q msg q') \<or> (r \<noteq> 0 \<and> q' = q)"
  using assms send_finish_wrote [of q msg r q']
  by (auto simp: send_wake_def send_wait_cases c_consts split: if_splits wait_kind.splits)

lemma queue_receive_took:
  assumes "queue_inv q" and "queue_receive q msg_len timeout_ms now = Return (r, m, q')"
  shows "(r = 0 \<and> (\<exists>msg. m = Some msg \<and> took q msg q')) \<or> (r \<noteq> 0 \<and> m = None \<and> q' = q)"
  using assms recv_finish_took [of q r m q']
  by (auto simp: queue_receive_cases c_consts split: if_splits)

lemma recv_wake_took:
  assumes "queue_inv q" and "recv_wake k ret q = Return (r, m, q')"
  shows "(r = 0 \<and> (\<exists>msg. m = Some msg \<and> took q msg q')) \<or> (r \<noteq> 0 \<and> m = None \<and> q' = q)"
  using assms recv_finish_took [of q r m q']
  by (auto simp: recv_wake_def recv_wait_cases c_consts split: if_splits wait_kind.splits)

lemma send_done_history:
  assumes "history_inv s" and "send_done s t msg (r, q') s'"
    and "(r = 0 \<and> wrote (sys_q s) msg q') \<or> (r \<noteq> 0 \<and> q' = sys_q s)"
  shows "history_inv s'"
  using assms(2)
proof (cases rule: send_done.cases)
  case (send_done_ok pcs)
  moreover have "length m = q_msg_size (sys_q s)" if "pcs u = Sending m k w" for u m k w
    using cond_signal_sending [OF send_done_ok(3) that] assms(1)
    by (auto simp: history_inv_def split: if_splits)
  ultimately show ?thesis
    using assms(1,3) by (auto simp: history_inv_def wrote_def)
next
  case send_done_err
  then show ?thesis
    using assms(1,3) by (auto simp: history_inv_def)
qed

lemma recv_done_history:
  assumes "history_inv s" and "recv_done s t (r, m, q') s'"
    and "(r = 0 \<and> (\<exists>msg. m = Some msg \<and> took (sys_q s) msg q')) \<or> (r \<noteq> 0 \<and> m = None \<and> q' = sys_q s)"
  shows "history_inv s'"
  using assms(2)
proof (cases rule: recv_done.cases)
  case (recv_done_ok pcs m')
  moreover have "length m = q_msg_size (sys_q s)" if "pcs u = Sending m k w" for u m k w
    using cond_signal_sending [OF recv_done_ok(4) that] assms(1)
    by (auto simp: history_inv_def split: if_splits)
  ultimately show ?thesis
    using assms(1,3) by (auto simp: history_inv_def took_def)
next
  case recv_done_err
  then show ?thesis
    using assms(1,3) by (auto simp: history_inv_def)
qed

lemma queue_send_park_len:
  "queue_send q msg (length msg) timeout_ms now = Park k \<Longrightarrow> length msg = q_msg_size q"
  by (simp add: queue_send_def split: if_splits)

lemma queue_step_history:
  assumes "queue_step s s'" and "history_inv s"
  shows "history_inv s'"
  using assms
proof (induction rule: queue_step.induct)
  case (send_call s t msg timeout_ms now res s')
  obtain r q' where res: "res = (r, q')" by fastforce
  have "queue_inv (sys_q s)" using send_call.prems by (simp add: history_inv_def)
  from queue_send_wrote [OF this send_call.hyps(2) [unfolded res]] show ?case
    by (rule send_done_history [OF send_call.prems send_call.hyps(3) [unfolded res]])
next
  case (send_resume s t msg k w res s')
  obtain r q' where res: "res = (r, q')" by fastforce
  have "queue_inv (sys_q s)" and "length msg = q_msg_size (sys_q s)"
    using send_resume.prems send_resume.hyps(1) by (auto simp: history_inv_def)
  from send_wake_wrote [OF this send_resume.hyps(2) [unfolded res]] show ?case
    by (rule send_done_history [OF send_resume.prems send_resume.hyps(3) [unfolded res]])
next
  case (recv_call s t msg_len timeout_ms now res s')
  obtain r m q' where res: "res = (r, m, q')" by (cases res) auto
  have "queue_inv (sys_q s)" using recv_call.prems by (simp add: history_inv_def)
  from queue_receive_took [OF this recv_call.hyps(2) [unfolded res]] show ?case
    by (rule recv_done_history [OF recv_call.prems recv_call.hyps(3) [unfolded res]])
next
  case (recv_resume s t k w res s')
  obtain r m q' where res: "res = (r, m, q')" by (cases res) auto
  have "queue_inv (sys_q s)" using recv_resume.prems by (simp add: history_inv_def)
  from recv_wake_took [OF this recv_resume.hyps(2) [unfolded res]] show ?case
    by (rule recv_done_history [OF recv_resume.prems recv_resume.hyps(3) [unfolded res]])
next
  case (close_call s)
  then show ?case by (auto simp: history_inv_def dest!: broadcast_sending)
qed (auto simp: history_inv_def dest: queue_send_park_len)

section \<open>No lost wake-up\<close>

text \<open>
  \<open>covered status n pcs\<close>: if a thread of the class still sleeps although \<open>n\<close> of them could
  proceed, then at least \<open>n\<close> of the class have a wake-up on the way. Senders and receivers are the
  two classes; what a signal, a departure and a new sleeper do to the cover is proved once.
\<close>

definition covered :: "(thread_pc \<Rightarrow> wait_status option) \<Rightarrow> nat \<Rightarrow> (nat \<Rightarrow> thread_pc) \<Rightarrow> bool" where
  "covered status n pcs \<longleftrightarrow>
    ((\<exists>t. status (pcs t) = Some Waiting) \<longrightarrow> n \<le> card {t. status (pcs t) = Some Signalled})"

locale wait_class =
  fixes status :: "thread_pc \<Rightarrow> wait_status option"
  assumes status_outside: "status Outside = None"
    and status_set: "status (set_status w pc) = map_option (\<lambda>_. w) (status pc)"
begin

lemma finite_status:
  "finite {t. pcs t \<noteq> Outside} \<Longrightarrow> finite {t. status (pcs t) = Some w}"
  by (rule finite_subset [rotated]) (auto simp: status_outside)

lemma covered_0: "covered status 0 pcs"
  by (simp add: covered_def)

lemma covered_signal:
  assumes "cond_signal status pcs pcs'" and "finite {t. pcs t \<noteq> Outside}" and "covered status n pcs"
  shows "covered status (Suc n) pcs'"
  using assms
proof (induction rule: cond_signal.induct)
  case (signal_one pcs u)
  let ?S = "{t. status (pcs t) = Some Signalled}"
  have "{t. status ((pcs(u := set_status Signalled (pcs u))) t) = Some Signalled} = insert u ?S"
    using signal_one.hyps by (auto simp: status_set)
  moreover have "u \<notin> ?S" and "finite ?S"
    using signal_one.hyps finite_status [OF signal_one.prems(1)] by auto
  ultimately show ?case
    using signal_one.hyps signal_one.prems(2) by (auto simp: covered_def)
next
  case (signal_none pcs)
  then show ?case by (simp add: covered_def)
qed

lemma covered_leave:
  assumes "covered status n pcs" and "finite {t. pcs t \<noteq> Outside}" and "status pc \<noteq> Some Waiting"
  shows "covered status (n - 1) (pcs(t := pc))"
proof -
  let ?S = "{u. status (pcs u) = Some Signalled}"
  have "?S - {t} \<subseteq> {u. status ((pcs(t := pc)) u) = Some Signalled}"
    by auto
  moreover have "finite {u. status ((pcs(t := pc)) u) = Some Signalled}"
    by (rule finite_subset [of _ "insert t ?S"]) (auto simp: finite_status [OF assms(2)])
  ultimately have "card (?S - {t}) \<le> card {u. status ((pcs(t := pc)) u) = Some Signalled}"
    by (rule card_mono [rotated])
  moreover have "card ?S - 1 \<le> card (?S - {t})"
    by (simp add: card_Diff_singleton_if)
  ultimately have "card ?S - 1 \<le> card {u. status ((pcs(t := pc)) u) = Some Signalled}"
    by linarith
  moreover have "\<exists>u. status (pcs u) = Some Waiting" if "\<exists>u. status ((pcs(t := pc)) u) = Some Waiting"
    using that assms(3) by (auto split: if_splits)
  ultimately show ?thesis
    using assms(1) unfolding covered_def by (meson diff_le_mono order_trans)
qed

lemma covered_leave_unsignalled:
  assumes "covered status n pcs" and "status pc \<noteq> Some Waiting" and "status pc \<noteq> Some Signalled"
    and "status (pcs t) \<noteq> Some Signalled"
  shows "covered status n (pcs(t := pc))"
proof -
  have "{u. status ((pcs(t := pc)) u) = Some Signalled} = {u. status (pcs u) = Some Signalled}"
    using assms by auto
  then show ?thesis
    using assms(1,2) by (auto simp: covered_def split: if_splits)
qed

lemma covered_cong:
  "(\<And>t. status (pcs' t) = status (pcs t)) \<Longrightarrow> covered status n pcs' = covered status n pcs"
  by (simp add: covered_def)

end

interpretation senders: wait_class send_status
proof
  show "send_status (set_status w pc) = map_option (\<lambda>_. w) (send_status pc)" for w pc
    by (cases pc) simp_all
qed simp

interpretation receivers: wait_class recv_status
proof
  show "recv_status (set_status w pc) = map_option (\<lambda>_. w) (recv_status pc)" for w pc
    by (cases pc) simp_all
qed simp

lemma signal_senders_recv_status:
  "cond_signal send_status pcs pcs' \<Longrightarrow> recv_status (pcs' t) = recv_status (pcs t)"
proof (induction rule: cond_signal.induct)
  case (signal_one pcs u)
  then show ?case by (cases "pcs u") auto
qed simp

lemma signal_receivers_send_status:
  "cond_signal recv_status pcs pcs' \<Longrightarrow> send_status (pcs' t) = send_status (pcs t)"
proof (induction rule: cond_signal.induct)
  case (signal_one pcs u)
  then show ?case by (cases "pcs u") auto
qed simp

lemma signal_outside: "cond_signal status pcs pcs' \<Longrightarrow> pcs' t = Outside \<longleftrightarrow> pcs t = Outside"
proof (induction rule: cond_signal.induct)
  case (signal_one pcs u)
  then show ?case by (cases "pcs u") auto
qed simp

definition asleep :: "thread_pc \<Rightarrow> bool" where
  "asleep pc \<longleftrightarrow> send_status pc = Some Waiting \<or> recv_status pc = Some Waiting"

definition wakeup_inv :: "queue_sys \<Rightarrow> bool" where
  "wakeup_inv s \<longleftrightarrow>
    finite {t. sys_pc s t \<noteq> Outside} \<and>
    (q_closed (sys_q s) \<longrightarrow> (\<forall>t. \<not> asleep (sys_pc s t))) \<and>
    covered recv_status (nat (q_count (sys_q s))) (sys_pc s) \<and>
    covered send_status (nat (q_max_msgs (sys_q s) - q_count (sys_q s))) (sys_pc s)"

text \<open>A signalled thread leaves with an error only when the queue was closed.\<close>

lemma wake_signalled:
  "send_wake k 0 q msg = send_wait k q msg" "recv_wake k 0 q = recv_wait k q"
  by (simp_all add: send_wake_def recv_wake_def c_consts split: wait_kind.split)

lemma send_wake_error:
  assumes "send_wake k (wait_result w) q msg = Return (r, q')" and "r \<noteq> 0"
  shows "w = Expired \<or> q_closed q"
proof (rule ccontr)
  assume neg: "\<not> ?thesis"
  then have "send_wait k q msg = Return (r, q')"
    using assms(1) by (simp add: wait_result_def wake_signalled)
  with neg have "send_finish q msg = (r, q')" and "\<not> queue_full q"
    by (simp_all add: send_wait_cases split: if_splits)
  with neg have "r = 0"
    by (simp add: send_finish_def)
  with assms(2) show False ..
qed

lemma recv_wake_error:
  assumes "recv_wake k (wait_result w) q = Return (r, m, q')" and "r \<noteq> 0"
  shows "w = Expired \<or> q_closed q"
proof (rule ccontr)
  assume neg: "\<not> ?thesis"
  then have "recv_wait k q = Return (r, m, q')"
    using assms(1) by (simp add: wait_result_def wake_signalled)
  with neg have "recv_finish q = (r, m, q')" and "q_count q \<noteq> 0"
    by (simp_all add: recv_wait_cases split: if_splits)
  then have "r = 0"
    by (simp add: recv_finish_def)
  with assms(2) show False ..
qed

lemma asleep_outside [simp]: "\<not> asleep Outside"
  by (simp add: asleep_def)

lemma finite_update: "finite {t. pcs t \<noteq> x} \<Longrightarrow> finite {t. (pcs(u := y)) t \<noteq> x}"
  by (rule finite_subset [of _ "insert u {t. pcs t \<noteq> x}"]) auto

text \<open>A thread that leaves with an error takes no wake-up away from the others.\<close>

lemma leave_error_wakeup:
  assumes "wakeup_inv s"
    and "(send_status (sys_pc s t) \<noteq> Some Signalled \<and> recv_status (sys_pc s t) \<noteq> Some Signalled) \<or>
      q_closed (sys_q s)"
  shows "wakeup_inv (s\<lparr>sys_pc := (sys_pc s)(t := Outside)\<rparr>)"
proof (cases "q_closed (sys_q s)")
  case True
  then show ?thesis
    using assms(1) finite_update [of "sys_pc s"]
    by (auto simp: wakeup_inv_def covered_def asleep_def split: if_splits)
next
  case False
  then show ?thesis
    using assms finite_update [of "sys_pc s"]
    by (auto simp: wakeup_inv_def
        intro!: senders.covered_leave_unsignalled receivers.covered_leave_unsignalled)
qed

lemma send_done_wakeup:
  assumes "wakeup_inv s" and "send_done s t msg (r, q') s'" and "queue_inv (sys_q s)"
    and "(r = 0 \<and> wrote (sys_q s) msg q') \<or> (r \<noteq> 0 \<and> q' = sys_q s)"
    and "recv_status (sys_pc s t) = None"
    and "r \<noteq> 0 \<Longrightarrow> send_status (sys_pc s t) \<noteq> Some Signalled \<or> q_closed (sys_q s)"
  shows "wakeup_inv s'"
  using assms(2)
proof (cases rule: send_done.cases)
  case (send_done_ok pcs)
  let ?pcs = "(sys_pc s)(t := Outside)"
  have w: "wrote (sys_q s) msg q'" using assms(4) send_done_ok by simp
  have fin: "finite {u. ?pcs u \<noteq> Outside}"
    using assms(1) by (intro finite_update) (simp add: wakeup_inv_def)
  have "covered recv_status (nat (q_count (sys_q s))) ?pcs"
    using assms(1,5) by (subst receivers.covered_cong [of _ "sys_pc s"]) (auto simp: wakeup_inv_def)
  moreover have "Suc (nat (q_count (sys_q s))) = nat (q_count q')"
    using w assms(3) by (simp add: wrote_def queue_inv_def Suc_nat_eq_nat_zadd1)
  ultimately have r: "covered recv_status (nat (q_count q')) pcs"
    using receivers.covered_signal [OF send_done_ok(3) fin] by metis
  have "covered send_status (nat (q_max_msgs (sys_q s) - q_count (sys_q s)) - 1) ?pcs"
    using assms(1) by (intro senders.covered_leave) (auto simp: wakeup_inv_def)
  moreover have "nat (q_max_msgs (sys_q s) - q_count (sys_q s)) - 1 = nat (q_max_msgs q' - q_count q')"
    using w by (simp add: wrote_def nat_diff_distrib')
  ultimately have "covered send_status (nat (q_max_msgs q' - q_count q')) pcs"
    using signal_receivers_send_status [OF send_done_ok(3)]
    by (subst senders.covered_cong [of _ ?pcs]) auto
  with r show ?thesis
    using w fin signal_outside [OF send_done_ok(3)] send_done_ok
    by (simp add: wakeup_inv_def wrote_def)
next
  case send_done_err
  then show ?thesis
    using leave_error_wakeup [OF assms(1), of t] assms(4,5,6) by auto
qed

lemma recv_done_wakeup:
  assumes "wakeup_inv s" and "recv_done s t (r, m, q') s'" and "queue_inv (sys_q s)"
    and "(r = 0 \<and> (\<exists>msg. m = Some msg \<and> took (sys_q s) msg q')) \<or> (r \<noteq> 0 \<and> m = None \<and> q' = sys_q s)"
    and "send_status (sys_pc s t) = None"
    and "r \<noteq> 0 \<Longrightarrow> recv_status (sys_pc s t) \<noteq> Some Signalled \<or> q_closed (sys_q s)"
  shows "wakeup_inv s'"
  using assms(2)
proof (cases rule: recv_done.cases)
  case (recv_done_ok pcs m')
  let ?pcs = "(sys_pc s)(t := Outside)"
  have w: "took (sys_q s) m' q'" using assms(4) recv_done_ok by simp
  have fin: "finite {u. ?pcs u \<noteq> Outside}"
    using assms(1) by (intro finite_update) (simp add: wakeup_inv_def)
  have "covered send_status (nat (q_max_msgs (sys_q s) - q_count (sys_q s))) ?pcs"
    using assms(1,5) by (subst senders.covered_cong [of _ "sys_pc s"]) (auto simp: wakeup_inv_def)
  moreover have "Suc (nat (q_max_msgs (sys_q s) - q_count (sys_q s))) = nat (q_max_msgs q' - q_count q')"
    using w assms(3) by (simp add: took_def queue_inv_def Suc_nat_eq_nat_zadd1)
  ultimately have r: "covered send_status (nat (q_max_msgs q' - q_count q')) pcs"
    using senders.covered_signal [OF recv_done_ok(4) fin] by metis
  have "covered recv_status (nat (q_count (sys_q s)) - 1) ?pcs"
    using assms(1) by (intro receivers.covered_leave) (auto simp: wakeup_inv_def)
  moreover have "nat (q_count (sys_q s)) - 1 = nat (q_count q')"
    using w by (simp add: took_def nat_diff_distrib')
  ultimately have "covered recv_status (nat (q_count q')) pcs"
    using signal_senders_recv_status [OF recv_done_ok(4)]
    by (subst receivers.covered_cong [of _ ?pcs]) auto
  moreover have "\<not> asleep (pcs u)" if "q_closed q'" for u
  proof -
    have "\<not> asleep (sys_pc s u)" for u
      using w that assms(1) by (auto simp: wakeup_inv_def took_def)
    then have "\<not> asleep (?pcs u)" and "\<And>u. send_status (?pcs u) \<noteq> Some Waiting"
      by (auto simp: asleep_def)
    then show ?thesis
      using recv_done_ok(4) by (auto elim!: cond_signal.cases)
  qed
  ultimately show ?thesis
    using r fin signal_outside [OF recv_done_ok(4)] recv_done_ok by (simp add: wakeup_inv_def)
next
  case recv_done_err
  then show ?thesis
    using leave_error_wakeup [OF assms(1), of t] assms(4,5,6) by auto
qed

text \<open>A thread goes to sleep only when it could not proceed, on an open queue.\<close>

lemma send_sleep:
  "queue_send q msg len timeout_ms now = Park k \<Longrightarrow> queue_full q \<and> \<not> q_closed q"
  "send_wake k' ret q msg = Park k \<Longrightarrow> queue_full q \<and> \<not> q_closed q"
  by (auto simp: queue_send_cases send_wake_def send_wait_cases split: if_splits wait_kind.splits)

lemma recv_sleep:
  "queue_receive q len timeout_ms now = Park k \<Longrightarrow> q_count q = 0 \<and> \<not> q_closed q"
  "recv_wake k' ret q = Park k \<Longrightarrow> q_count q = 0 \<and> \<not> q_closed q"
  by (auto simp: queue_receive_cases recv_wake_def recv_wait_cases split: if_splits wait_kind.splits)

lemma send_sleep_wakeup:
  assumes "wakeup_inv s" and "queue_full (sys_q s) \<and> \<not> q_closed (sys_q s)"
    and "recv_status (sys_pc s t) = None"
  shows "wakeup_inv (s\<lparr>sys_pc := (sys_pc s)(t := Sending msg k Waiting)\<rparr>)"
proof -
  have "nat (q_max_msgs (sys_q s) - q_count (sys_q s)) = 0"
    using assms(2) by (simp add: queue_full_def)
  moreover have "recv_status (((sys_pc s)(t := Sending msg k Waiting)) u) = recv_status (sys_pc s u)" for u
    using assms(3) by simp
  then have "covered recv_status n ((sys_pc s)(t := Sending msg k Waiting)) =
      covered recv_status n (sys_pc s)" for n
    by (rule receivers.covered_cong)
  ultimately show ?thesis
    using assms(1,2) finite_update [of "sys_pc s"]
    by (simp add: wakeup_inv_def senders.covered_0 del: fun_upd_apply)
qed

lemma recv_sleep_wakeup:
  assumes "wakeup_inv s" and "q_count (sys_q s) = 0 \<and> \<not> q_closed (sys_q s)"
    and "send_status (sys_pc s t) = None"
  shows "wakeup_inv (s\<lparr>sys_pc := (sys_pc s)(t := Receiving k Waiting)\<rparr>)"
proof -
  have "send_status (((sys_pc s)(t := Receiving k Waiting)) u) = send_status (sys_pc s u)" for u
    using assms(3) by simp
  then have "covered send_status n ((sys_pc s)(t := Receiving k Waiting)) =
      covered send_status n (sys_pc s)" for n
    by (rule senders.covered_cong)
  then show ?thesis
    using assms(1,2) finite_update [of "sys_pc s"]
    by (simp add: wakeup_inv_def receivers.covered_0 del: fun_upd_apply)
qed

lemma expire_wakeup:
  assumes "wakeup_inv s" and "asleep (sys_pc s t)"
  shows "wakeup_inv (s\<lparr>sys_pc := (sys_pc s)(t := set_status Expired (sys_pc s t))\<rparr>)"
proof -
  have st: "send_status (sys_pc s t) \<noteq> Some Signalled" "recv_status (sys_pc s t) \<noteq> Some Signalled"
    using assms(2) by (cases "sys_pc s t"; simp add: asleep_def)+
  have "\<not> q_closed (sys_q s)"
    using assms by (auto simp: wakeup_inv_def)
  then show ?thesis
    using assms(1) st finite_update [of "sys_pc s" Outside t "set_status Expired (sys_pc s t)"]
    by (auto simp: wakeup_inv_def senders.status_set receivers.status_set simp del: fun_upd_apply
        intro!: senders.covered_leave_unsignalled receivers.covered_leave_unsignalled)
qed

lemma close_wakeup:
  assumes "wakeup_inv s"
  shows "wakeup_inv (s\<lparr>sys_q := queue_close (sys_q s), sys_pc := broadcast (sys_pc s)\<rparr>)"
proof -
  have none: "\<not> asleep (broadcast (sys_pc s) t)" for t
    by (auto simp: broadcast_def asleep_def senders.status_set receivers.status_set)
  have "broadcast (sys_pc s) t = Outside \<longleftrightarrow> sys_pc s t = Outside" for t
    by (cases "sys_pc s t") (auto simp: broadcast_def)
  then show ?thesis
    using assms none by (auto simp: wakeup_inv_def covered_def asleep_def)
qed

lemma queue_step_wakeup:
  assumes "queue_step s s'" and "history_inv s" and "wakeup_inv s"
  shows "wakeup_inv s'"
  using assms
proof (induction rule: queue_step.induct)
  case (send_call s t msg timeout_ms now res s')
  obtain r q' where res: "res = (r, q')" by fastforce
  have inv: "queue_inv (sys_q s)" using send_call.prems by (simp add: history_inv_def)
  show ?case
    using send_call.hyps(1)
    by (intro send_done_wakeup [OF send_call.prems(2) send_call.hyps(3) [unfolded res] inv
          queue_send_wrote [OF inv send_call.hyps(2) [unfolded res]]]) auto
next
  case (send_resume s t msg k w res s')
  obtain r q' where res: "res = (r, q')" by fastforce
  have inv: "queue_inv (sys_q s)" "length msg = q_msg_size (sys_q s)"
    using send_resume.prems send_resume.hyps(1) by (auto simp: history_inv_def)
  show ?case
    using send_resume.hyps(1) send_wake_error [OF send_resume.hyps(2) [unfolded res]]
    by (intro send_done_wakeup [OF send_resume.prems(2) send_resume.hyps(3) [unfolded res] inv(1)
          send_wake_wrote [OF inv send_resume.hyps(2) [unfolded res]]]) auto
next
  case (recv_call s t msg_len timeout_ms now res s')
  obtain r m q' where res: "res = (r, m, q')" by (cases res) auto
  have inv: "queue_inv (sys_q s)" using recv_call.prems by (simp add: history_inv_def)
  show ?case
    using recv_call.hyps(1)
    by (intro recv_done_wakeup [OF recv_call.prems(2) recv_call.hyps(3) [unfolded res] inv
          queue_receive_took [OF inv recv_call.hyps(2) [unfolded res]]]) auto
next
  case (recv_resume s t k w res s')
  obtain r m q' where res: "res = (r, m, q')" by (cases res) auto
  have inv: "queue_inv (sys_q s)" using recv_resume.prems by (simp add: history_inv_def)
  show ?case
    using recv_resume.hyps(1) recv_wake_error [OF recv_resume.hyps(2) [unfolded res]]
    by (intro recv_done_wakeup [OF recv_resume.prems(2) recv_resume.hyps(3) [unfolded res] inv
          recv_wake_took [OF inv recv_resume.hyps(2) [unfolded res]]]) auto
next
  case (send_expire s t msg ts now)
  then show ?case using expire_wakeup [of s t] by (simp add: asleep_def)
next
  case (recv_expire s t ts now)
  then show ?case using expire_wakeup [of s t] by (simp add: asleep_def)
next
  case (close_call s)
  then show ?case by (blast intro: close_wakeup)
qed (auto intro: send_sleep_wakeup recv_sleep_wakeup dest: send_sleep recv_sleep)

lemma queue_reachable_invs:
  assumes "queue_reachable q0 s" and "queue_inv q0" and "queue_contents q0 = []"
  shows "history_inv s \<and> wakeup_inv s"
  using assms
proof (induction rule: queue_reachable.induct)
  case queue_start
  then show ?case
    by (simp add: history_inv_def wakeup_inv_def queue_sys_init_def covered_def asleep_def)
next
  case (queue_next s s')
  then show ?case by (blast intro: queue_step_history queue_step_wakeup)
qed

section \<open>Properties\<close>

text \<open>The sample run of the witnesses: two receivers park on an empty queue of one-byte messages, then a third thread sends.\<close>

definition sample_queue :: osa_queue_impl where
  "sample_queue = \<lparr>q_name = [], q_msg_size = 1, q_max_msgs = 2, q_buffer = [0, 0], q_head = 0,
     q_tail = 0, q_count = 0, q_closed = False\<rparr>"

definition sample_sys :: queue_sys where
  "sample_sys = \<lparr>sys_q = sample_queue\<lparr>q_buffer := [5, 0], q_tail := 1, q_count := 1\<rparr>,
     sys_pc = (\<lambda>_. Outside)(0 := Receiving Forever Signalled, 1 := Receiving Forever Waiting),
     sys_sent = [[5]], sys_received = []\<rparr>"

lemma sample_queue_ok: "queue_inv sample_queue" "queue_contents sample_queue = []"
  by (simp_all add: sample_queue_def queue_inv_def queue_contents_def)

lemma sample_reachable: "queue_reachable sample_queue sample_sys"
proof -
  let ?q = sample_queue and ?now = "\<lparr>tv_sec = 0, tv_nsec = 0\<rparr> :: timespec"
  let ?s0 = "queue_sys_init ?q"
  let ?s1 = "?s0\<lparr>sys_pc := (sys_pc ?s0)(0 := Receiving Forever Waiting)\<rparr>"
  let ?s2 = "?s1\<lparr>sys_pc := (sys_pc ?s1)(1 := Receiving Forever Waiting)\<rparr>"
  let ?q3 = "?q\<lparr>q_buffer := [5, 0], q_tail := 1, q_count := 1\<rparr>"
  have park: "queue_receive ?q 1 (-1) ?now = Park Forever"
    by (simp add: sample_queue_def queue_receive_cases)
  have "queue_step ?s0 ?s1"
    by (rule recv_park [where timeout_ms = "-1" and now = ?now and msg_len = 1])
      (simp_all add: queue_sys_init_def park [simplified])
  moreover have "queue_step ?s1 ?s2"
    by (rule recv_park [where timeout_ms = "-1" and now = ?now and msg_len = 1])
      (simp_all add: queue_sys_init_def park [simplified])
  moreover have "queue_step ?s2 sample_sys"
  proof (rule send_call [where t = 2 and msg = "[5]" and timeout_ms = 0 and now = ?now])
    show "sys_pc ?s2 2 = Outside" by (simp add: queue_sys_init_def)
    show "queue_send (sys_q ?s2) [5] (length [5::byte]) 0 ?now = Return (0, ?q3)"
      by (simp add: queue_sys_init_def sample_queue_def queue_send_cases send_finish_def queue_full_def
          memcpy_to_def smod_nonneg)
    have "cond_signal recv_status ((sys_pc ?s2)(2 := Outside))
        (((sys_pc ?s2)(2 := Outside))(0 := set_status Signalled (((sys_pc ?s2)(2 := Outside)) 0)))"
      by (rule signal_one) (simp add: queue_sys_init_def)
    moreover have "((sys_pc ?s2)(2 := Outside))(0 := set_status Signalled (((sys_pc ?s2)(2 := Outside)) 0)) =
        sys_pc sample_sys"
      by (auto simp: queue_sys_init_def sample_sys_def)
    ultimately have "cond_signal recv_status ((sys_pc ?s2)(2 := Outside)) (sys_pc sample_sys)"
      by simp
    from send_done_ok [OF this, of "[5]" ?q3]
    show "send_done ?s2 2 [5] (0, ?q3) sample_sys"
      by (simp add: sample_sys_def queue_sys_init_def)
  qed
  ultimately show ?thesis
    by (meson queue_start queue_next)
qed

text \<open>
  C1. First in, first out under every interleaving of any number of threads, with sleeps, time-outs,
  spurious wake-ups and closing: what the receivers got so far followed by what is in the ring is
  exactly the sequence of messages whose send returned 0, in that order, and the ring stays well
  formed, with a count between 0 and its capacity.
\<close>

theorem queue_concurrent_fifo:
  assumes "queue_reachable q0 s" and "queue_inv q0" and "queue_contents q0 = []"
  shows "sys_received s @ queue_contents (sys_q s) = sys_sent s \<and> queue_inv (sys_q s) \<and>
    0 \<le> q_count (sys_q s) \<and> q_count (sys_q s) \<le> q_max_msgs (sys_q s)"
  using queue_reachable_invs [OF assms] by (simp add: history_inv_def queue_inv_def)

theorem queue_concurrent_fifo_witness:
  "queue_contents (sys_q sample_sys) = sys_sent sample_sys"
  using queue_concurrent_fifo [OF sample_reachable sample_queue_ok] by (simp add: sample_sys_def)

text \<open>
  C2. No wake-up is lost. In every reachable state, if some receiver still sleeps, then at least as
  many receivers have been woken and are on their way as there are messages in the queue; so a
  receiver is never left asleep beside a message nobody is coming for. The same holds of senders
  and free slots, and nobody sleeps on a closed queue.
\<close>

theorem queue_no_lost_wakeup:
  assumes "queue_reachable q0 s" and "queue_inv q0" and "queue_contents q0 = []"
  shows "(recv_status (sys_pc s t) = Some Waiting \<longrightarrow>
      \<not> q_closed (sys_q s) \<and>
      length (queue_contents (sys_q s)) \<le> card {u. recv_status (sys_pc s u) = Some Signalled}) \<and>
    (send_status (sys_pc s t) = Some Waiting \<longrightarrow>
      \<not> q_closed (sys_q s) \<and>
      queue_cap (sys_q s) - length (queue_contents (sys_q s))
        \<le> card {u. send_status (sys_pc s u) = Some Signalled})"
proof -
  have h: "queue_inv (sys_q s)" and w: "wakeup_inv s"
    using queue_reachable_invs [OF assms] by (simp_all add: history_inv_def)
  have "nat (q_max_msgs (sys_q s) - q_count (sys_q s)) =
      queue_cap (sys_q s) - length (queue_contents (sys_q s))"
    using h by (simp add: queue_cap_def queue_inv_def nat_diff_distrib)
  then show ?thesis
    using w by (auto simp: wakeup_inv_def covered_def asleep_def)
qed

theorem queue_no_lost_wakeup_witness:
  "recv_status (sys_pc sample_sys 1) = Some Waiting \<and> length (queue_contents (sys_q sample_sys)) = 1 \<and>
   1 \<le> card {u. recv_status (sys_pc sample_sys u) = Some Signalled}"
proof -
  have "recv_status (sys_pc sample_sys 1) = Some Waiting" "length (queue_contents (sys_q sample_sys)) = 1"
    by (simp_all add: sample_sys_def)
  with queue_no_lost_wakeup [OF sample_reachable sample_queue_ok, of 1] show ?thesis
    by simp
qed

end
