(* ===== verification/Hsm_Core.thy ===== *)
theory Hsm_Core
  imports Osa_Prelude
begin

text \<open>
  The state machine core, \<^verbatim>\<open>core/hsm.h\<close>: events, states, the active object and the \<^verbatim>\<open>STATE_\<close>
  macros. State objects and handler functions are found by address: \<open>states\<close> gives the
  \<^verbatim>\<open>struct hsm_state\<close> stored at an address, \<open>code\<close> the function behind a handler pointer. Handlers
  are code of the application, arguments of the model; the macros they expand call further handlers
  through a function pointer, so a handler takes the \<open>caller\<close> that resolves such a pointer. \<open>hsm_call\<close>
  ties the knot with the depth of the C stack as fuel: \<open>None\<close> is a call through a pointer that is no
  state or no function, or a stack that overflows. A larger stack never changes a result
  (\<open>hsm_app.call_mono\<close>), so fuel is no restriction for a handler that returns at all.
\<close>

section \<open>Signals and events\<close>

definition HSM_SIG_INIT :: int where [c_consts]: "HSM_SIG_INIT = 0"
definition HSM_SIG_ENTRY :: int where [c_consts]: "HSM_SIG_ENTRY = 1"
definition HSM_SIG_EXIT :: int where [c_consts]: "HSM_SIG_EXIT = 2"
definition HSM_SIG_PERIOD :: int where [c_consts]: "HSM_SIG_PERIOD = 3"
definition HSM_USER_SIG :: int where [c_consts]: "HSM_USER_SIG = 4"

record hsm_event =
  ev_signal :: int
  ev_data :: ptr
  ev_size :: int

text \<open>An event with a signal and no data, as the initialisers of the sources build it.\<close>

definition sig_event :: "int \<Rightarrow> hsm_event" where
  "sig_event sig = \<lparr>ev_signal = sig, ev_data = NULL, ev_size = 0\<rparr>"

section \<open>States and the active object\<close>

record hsm_state =
  st_handler :: ptr
  st_parent :: ptr
  st_name :: string

record hsm_active =
  hsm_error :: int
  hsm_current :: ptr
  hsm_histroy :: ptr

type_synonym 's caller = "ptr \<Rightarrow> hsm_event \<Rightarrow> 's \<Rightarrow> (int \<times> 's) option"
type_synonym 's handler = "'s caller \<Rightarrow> hsm_event \<Rightarrow> 's \<Rightarrow> (int \<times> 's) option"
type_synonym state_table = "ptr \<rightharpoonup> hsm_state"

fun hsm_call :: "(ptr \<rightharpoonup> 's handler) \<Rightarrow> nat \<Rightarrow> 's caller" where
  "hsm_call code 0 f e s = None"
| "hsm_call code (Suc n) f e s =
    (case code f of None \<Rightarrow> None | Some h \<Rightarrow> h (hsm_call code n) e s)"

section \<open>The macros\<close>

definition STATE_NAME :: "state_table \<Rightarrow> ('a hsm_active_scheme) \<Rightarrow> string option" where
  "STATE_NAME states entry = map_option st_name (states (hsm_current entry))"

definition STATE_DISPATCH ::
  "state_table \<Rightarrow> 'a hsm_active_scheme caller \<Rightarrow> ptr \<Rightarrow> hsm_event \<Rightarrow> 'a hsm_active_scheme \<Rightarrow>
   (int \<times> 'a hsm_active_scheme) option" where
  "STATE_DISPATCH states call s e entry =
    (case states s of None \<Rightarrow> None | Some st \<Rightarrow> call (st_handler st) e entry)"

definition STATE_INIT ::
  "state_table \<Rightarrow> 'a hsm_active_scheme caller \<Rightarrow> 'a hsm_active_scheme \<Rightarrow>
   (int \<times> 'a hsm_active_scheme) option" where
  "STATE_INIT states call entry =
    (case states (hsm_current entry) of
       None \<Rightarrow> None
     | Some st \<Rightarrow> call (st_handler st) (sig_event HSM_SIG_ENTRY) entry)"

definition STATE_TRANSIT ::
  "state_table \<Rightarrow> 'a hsm_active_scheme caller \<Rightarrow> ptr \<Rightarrow> 'a hsm_active_scheme \<Rightarrow>
   'a hsm_active_scheme option" where
  "STATE_TRANSIT states call s entry =
    (let e1 = entry\<lparr>hsm_histroy := hsm_current entry\<rparr>;
         e2 = e1\<lparr>hsm_current := s\<rparr>
     in case STATE_INIT states call e2 of
          None \<Rightarrow> None
        | Some (r, e3) \<Rightarrow> Some (e3\<lparr>hsm_error := r\<rparr>))"

definition STATE_SUPER ::
  "state_table \<Rightarrow> 'a hsm_active_scheme caller \<Rightarrow> hsm_event \<Rightarrow> 'a hsm_active_scheme \<Rightarrow>
   'a hsm_active_scheme option" where
  "STATE_SUPER states call e entry =
    (case states (hsm_current entry) of
       None \<Rightarrow> None
     | Some st \<Rightarrow>
         if st_parent st \<noteq> NULL
         then (case STATE_DISPATCH states call (st_parent st) e entry of
                 None \<Rightarrow> None
               | Some (r, entry') \<Rightarrow> Some (entry'\<lparr>hsm_error := r\<rparr>))
         else Some entry)"

section \<open>Stack depth\<close>

text \<open>One caller is at least as defined as another; a handler preserves this order.\<close>

definition call_le :: "'s caller \<Rightarrow> 's caller \<Rightarrow> bool" where
  "call_le c c' \<longleftrightarrow> (\<forall>f e s r. c f e s = Some r \<longrightarrow> c' f e s = Some r)"

definition handler_mono :: "'s handler \<Rightarrow> bool" where
  "handler_mono h \<longleftrightarrow>
    (\<forall>c c' e s r. call_le c c' \<longrightarrow> h c e s = Some r \<longrightarrow> h c' e s = Some r)"

named_theorems mono_intros

lemma call_leD [mono_intros]: "call_le c c' \<Longrightarrow> c f e s = Some r \<Longrightarrow> c' f e s = Some r"
  unfolding call_le_def by blast

lemma STATE_DISPATCH_mono [mono_intros]:
  "call_le c c' \<Longrightarrow> STATE_DISPATCH states c s e entry = Some r \<Longrightarrow>
   STATE_DISPATCH states c' s e entry = Some r"
  by (auto simp: STATE_DISPATCH_def split: option.splits intro: call_leD)

lemma STATE_INIT_mono [mono_intros]:
  "call_le c c' \<Longrightarrow> STATE_INIT states c entry = Some r \<Longrightarrow> STATE_INIT states c' entry = Some r"
  by (auto simp: STATE_INIT_def split: option.splits intro: call_leD)

lemma STATE_TRANSIT_mono [mono_intros]:
  assumes "call_le c c'" and "STATE_TRANSIT states c s entry = Some r"
  shows "STATE_TRANSIT states c' s entry = Some r"
  using assms(2) STATE_INIT_mono [OF assms(1)]
  by (auto simp: STATE_TRANSIT_def Let_def split: option.splits)

lemma STATE_SUPER_mono [mono_intros]:
  assumes "call_le c c'" and "STATE_SUPER states c e entry = Some r"
  shows "STATE_SUPER states c' e entry = Some r"
  using assms(2) STATE_DISPATCH_mono [OF assms(1)]
  by (auto simp: STATE_SUPER_def split: option.splits if_splits)

text \<open>
  The contract of an application of the framework: its handlers use the framework only through the
  macros. A result then does not depend on the size of the stack.
\<close>

locale hsm_app =
  fixes code :: "ptr \<rightharpoonup> 's handler"
  assumes mono: "code f = Some h \<Longrightarrow> handler_mono h"
begin

lemma call_Suc: "call_le (hsm_call code n) (hsm_call code (Suc n))"
proof (induction n)
  case 0
  then show ?case by (simp add: call_le_def)
next
  case (Suc n)
  show ?case
    unfolding call_le_def
  proof (intro allI impI)
    fix f e s r
    assume "hsm_call code (Suc n) f e s = Some r"
    then obtain h where h: "code f = Some h" "h (hsm_call code n) e s = Some r"
      by (auto split: option.splits)
    with mono [OF h(1)] Suc have "h (hsm_call code (Suc n)) e s = Some r"
      unfolding handler_mono_def by blast
    with h(1) show "hsm_call code (Suc (Suc n)) f e s = Some r"
      by simp
  qed
qed

lemma call_mono:
  assumes "hsm_call code n f e s = Some r" and "n \<le> m"
  shows "hsm_call code m f e s = Some r"
  using assms(2)
proof (induction m rule: dec_induct)
  case base
  show ?case by (rule assms(1))
next
  case (step m)
  then show ?case using call_Suc [of m] unfolding call_le_def by blast
qed

lemma call_deterministic:
  assumes "hsm_call code n f e s = Some r" and "hsm_call code m f e s = Some r'"
  shows "r = r'"
  using call_mono [OF assms(1), of "max n m"] call_mono [OF assms(2), of "max n m"] by simp

end

section \<open>What the macros do\<close>

text \<open>
  A transition calls one handler, that of the target, with one event, the entry signal, when
  \<^verbatim>\<open>current\<close> and \<^verbatim>\<open>histroy\<close> are already the new ones.
\<close>

lemma STATE_TRANSIT_entry:
  assumes "states t = Some st"
    and "call (st_handler st) (sig_event HSM_SIG_ENTRY)
      (s\<lparr>hsm_histroy := hsm_current s, hsm_current := t\<rparr>) = Some (r, s')"
  shows "STATE_TRANSIT states call t s = Some (s'\<lparr>hsm_error := r\<rparr>)"
  using assms by (simp add: STATE_TRANSIT_def STATE_INIT_def)

lemma STATE_TRANSIT_only_entry:
  assumes "\<And>st s. states t = Some st \<Longrightarrow>
    call (st_handler st) (sig_event HSM_SIG_ENTRY) s = call' (st_handler st) (sig_event HSM_SIG_ENTRY) s"
  shows "STATE_TRANSIT states call t s = STATE_TRANSIT states call' t s"
  using assms by (simp add: STATE_TRANSIT_def STATE_INIT_def split: option.split)

lemma STATE_SUPER_top:
  "states (hsm_current s) = Some st \<Longrightarrow> st_parent st = NULL \<Longrightarrow> STATE_SUPER states call e s = Some s"
  by (simp add: STATE_SUPER_def)

lemma STATE_SUPER_parent:
  assumes "states (hsm_current s) = Some st" and "st_parent st \<noteq> NULL"
    and "states (st_parent st) = Some pst" and "call (st_handler pst) e s = Some (r, s')"
  shows "STATE_SUPER states call e s = Some (s'\<lparr>hsm_error := r\<rparr>)"
  using assms by (simp add: STATE_SUPER_def STATE_DISPATCH_def)

text \<open>
  \<^verbatim>\<open>STATE_SUPER\<close> looks at the parent of the current state, not of the state whose handler expands
  it: a parent that delegates in turn calls itself, whatever the stack.
\<close>

lemma STATE_SUPER_diverges:
  assumes "states (hsm_current s) = Some st" and "st_parent st \<noteq> NULL"
    and "states (st_parent st) = Some pst" and "code (st_handler pst) = Some h"
    and deleg: "\<And>call. h call e s = map_option k (STATE_SUPER states call e s)"
  shows "hsm_call code n (st_handler pst) e s = None"
  by (induction n) (simp_all add: assms STATE_SUPER_def STATE_DISPATCH_def)

section \<open>Exit actions\<close>

text \<open>
  A handler that, on any event but the exit signal, calls other handlers only on events that are
  not the exit signal. The macros are such callers. An application of such handlers never reaches
  what its handlers do on exit, however the events come: the exit behaviour may be replaced by
  anything (\<open>with_exit\<close>).
\<close>

definition exit_free :: "'s handler \<Rightarrow> bool" where
  "exit_free h \<longleftrightarrow>
    (\<forall>c c' e s. ev_signal e \<noteq> HSM_SIG_EXIT \<longrightarrow>
      (\<forall>f e' s'. ev_signal e' \<noteq> HSM_SIG_EXIT \<longrightarrow> c f e' s' = c' f e' s') \<longrightarrow> h c e s = h c' e s)"

definition with_exit :: "'s handler \<Rightarrow> 's handler \<Rightarrow> 's handler" where
  "with_exit x h call e s = (if ev_signal e = HSM_SIG_EXIT then x call e s else h call e s)"

lemma exit_freeI:
  assumes "\<And>c c' e s. ev_signal e \<noteq> HSM_SIG_EXIT \<Longrightarrow>
    \<forall>f e' s'. ev_signal e' \<noteq> HSM_SIG_EXIT \<longrightarrow> c f e' s' = c' f e' s' \<Longrightarrow> h c e s = h c' e s"
  shows "exit_free h"
  unfolding exit_free_def using assms by blast

lemma STATE_TRANSIT_exit_free:
  assumes "\<forall>f e' s'. ev_signal e' \<noteq> HSM_SIG_EXIT \<longrightarrow> c f e' s' = c' f e' s'"
  shows "STATE_TRANSIT states c t s = STATE_TRANSIT states c' t s"
proof (rule STATE_TRANSIT_only_entry)
  fix st s1
  have "ev_signal (sig_event HSM_SIG_ENTRY) \<noteq> HSM_SIG_EXIT"
    by (simp add: sig_event_def c_consts)
  with assms show "c (st_handler st) (sig_event HSM_SIG_ENTRY) s1 =
      c' (st_handler st) (sig_event HSM_SIG_ENTRY) s1"
    by blast
qed

lemma STATE_SUPER_exit_free:
  assumes "ev_signal e \<noteq> HSM_SIG_EXIT"
    and "\<forall>f e' s'. ev_signal e' \<noteq> HSM_SIG_EXIT \<longrightarrow> c f e' s' = c' f e' s'"
  shows "STATE_SUPER states c e s = STATE_SUPER states c' e s"
proof -
  have "c f e s' = c' f e s'" for f s'
    using assms by blast
  then show ?thesis
    unfolding STATE_SUPER_def STATE_DISPATCH_def by presburger
qed

locale macro_app = hsm_app +
  assumes exit_free: "code f = Some h \<Longrightarrow> exit_free h"
begin

lemma exit_irrelevant:
  assumes "ev_signal e \<noteq> HSM_SIG_EXIT"
  shows "hsm_call (\<lambda>f. map_option (with_exit x) (code f)) n f e s = hsm_call code n f e s"
  using assms
proof (induction n arbitrary: f e s)
  case (Suc n)
  show ?case
  proof (cases "code f")
    case (Some h)
    have "h (hsm_call (\<lambda>f. map_option (with_exit x) (code f)) n) e s = h (hsm_call code n) e s"
      using exit_free [OF Some] Suc unfolding exit_free_def by blast
    moreover have "with_exit x h c e s = h c e s" for c
      using Suc.prems by (simp add: with_exit_def)
    ultimately show ?thesis
      using Some by simp
  qed simp
qed simp

end

section \<open>Properties\<close>

text \<open>
  C30. Delegation to the parent: when the handler of the current state passes an event it does not
  handle to \<^verbatim>\<open>STATE_SUPER\<close> and the parent's handler returns \<open>r\<close>, the dispatch runs the parent's handler
  on the same event and object, and \<open>r\<close> ends in \<^verbatim>\<open>error\<close>.
\<close>

theorem STATE_SUPER_delegates:
  fixes s :: "'a hsm_active_scheme"
  assumes "states (hsm_current s) = Some st" and "code (st_handler st) = Some h"
    and "\<And>call. h call e s = map_option (Pair ret) (STATE_SUPER states call e s)"
    and "st_parent st \<noteq> NULL" and "states (st_parent st) = Some pst"
    and "hsm_call code n (st_handler pst) e s = Some (r, s')"
  shows "STATE_DISPATCH states (hsm_call code (Suc n)) (hsm_current s) e s =
    Some (ret, s'\<lparr>hsm_error := r\<rparr>)"
proof -
  have "STATE_SUPER states (hsm_call code n) e s = Some (s'\<lparr>hsm_error := r\<rparr>)"
    by (rule STATE_SUPER_parent) (fact assms)+
  then show ?thesis
    using assms(1-3) by (simp add: STATE_DISPATCH_def)
qed

text \<open>A child that delegates to a top-level parent, and a parent that delegates in turn.\<close>

definition sample_states :: state_table where
  "sample_states =
    [1 \<mapsto> \<lparr>st_handler = 11, st_parent = 2, st_name = ''child''\<rparr>,
     2 \<mapsto> \<lparr>st_handler = 12, st_parent = 0, st_name = ''parent''\<rparr>]"

definition sample_delegate :: "hsm_active handler" where
  "sample_delegate call e s = map_option (Pair 0) (STATE_SUPER sample_states call e s)"

definition sample_child :: hsm_active where
  "sample_child = \<lparr>hsm_error = 0, hsm_current = 1, hsm_histroy = 1\<rparr>"

theorem STATE_SUPER_delegates_witness:
  "STATE_DISPATCH sample_states
     (hsm_call [11 \<mapsto> sample_delegate, 12 \<mapsto> (\<lambda>call e s. Some (7, s))] (Suc 1)) 1 (sig_event 4)
     sample_child = Some (0, sample_child\<lparr>hsm_error := 7\<rparr>)"
proof -
  let ?code = "[11 \<mapsto> sample_delegate, 12 \<mapsto> (\<lambda>call e s. Some (7, s))]"
  have "STATE_DISPATCH sample_states (hsm_call ?code (Suc 1)) (hsm_current sample_child) (sig_event 4)
      sample_child = Some (0, sample_child\<lparr>hsm_error := 7\<rparr>)"
    by (rule STATE_SUPER_delegates [where h = sample_delegate
          and st = "\<lparr>st_handler = 11, st_parent = 2, st_name = ''child''\<rparr>"
          and pst = "\<lparr>st_handler = 12, st_parent = 0, st_name = ''parent''\<rparr>"])
      (simp_all add: sample_states_def sample_child_def sample_delegate_def)
  then show ?thesis by (simp add: sample_child_def)
qed

text \<open>
  \<^verbatim>\<open>STATE_SUPER\<close> reads the parent of the current state even when a parent's handler expands it:
  if the parent's handler passes the event on as well, the call never returns, whatever the stack.
\<close>

theorem STATE_SUPER_nested_diverges:
  fixes s :: "'a hsm_active_scheme"
  assumes "states (hsm_current s) = Some st" and "st_parent st \<noteq> NULL"
    and "states (st_parent st) = Some pst" and "code (st_handler pst) = Some h"
    and "\<And>call. h call e s = map_option k (STATE_SUPER states call e s)"
  shows "\<forall>n. hsm_call code n (st_handler pst) e s = None"
proof
  show "hsm_call code n (st_handler pst) e s = None" for n
    by (rule STATE_SUPER_diverges) (fact assms)+
qed

theorem STATE_SUPER_nested_diverges_witness:
  "\<forall>n. hsm_call [11 \<mapsto> sample_delegate, 12 \<mapsto> sample_delegate] n 12 (sig_event 9) sample_child = None"
proof -
  let ?pst = "\<lparr>st_handler = 12, st_parent = 0, st_name = ''parent''\<rparr>"
  have "\<forall>n. hsm_call [11 \<mapsto> sample_delegate, 12 \<mapsto> sample_delegate] n (st_handler ?pst) (sig_event 9)
      sample_child = None"
    by (rule STATE_SUPER_nested_diverges [where k = "Pair 0" and states = sample_states and h = sample_delegate
          and st = "\<lparr>st_handler = 11, st_parent = 2, st_name = ''child''\<rparr>"])
      (simp_all add: sample_states_def sample_child_def sample_delegate_def)
  then show ?thesis by simp
qed

end
