(* ===== verification/Osa_Thread.thy ===== *)
theory Osa_Thread
  imports Osa_Clock
begin

text \<open>
  Threads of the Linux platform layer, \<^verbatim>\<open>platform/linux/osa_thread.c\<close>. The state \<open>thread_sys\<close> holds
  the live handle objects by address and which POSIX threads have terminated. The address
  \<^verbatim>\<open>calloc\<close> returns (NULL when it fails) and \<^verbatim>\<open>pthread_create\<close>, which yields an error number or a
  new thread, are arguments. An access through a handle that is not live is undefined behaviour in
  C, and \<open>None\<close> in the model.
\<close>

record osa_thread_param =
  tp_name :: "string option"
  tp_stack_size :: int
  tp_priority :: int
  tp_stack_buf :: ptr

record thread_attr =
  attr_stacksize :: "int option"
  attr_stack :: "(ptr \<times> int) option"
  attr_fifo_priority :: "int option"

record osa_thread_internal =
  t_pthread :: nat
  t_name :: string
  t_detached :: bool

record thread_sys =
  th_handles :: "ptr \<rightharpoonup> osa_thread_internal"
  th_terminated :: "nat \<Rightarrow> bool"

text \<open>The attributes that \<^verbatim>\<open>osa_thread_create\<close> sets from its parameters.\<close>

definition thread_attrs :: "osa_thread_param \<Rightarrow> thread_attr" where
  "thread_attrs param =
    \<lparr>attr_stacksize = (if tp_stack_size param > 0 then Some (tp_stack_size param) else None),
     attr_stack = (if tp_stack_buf param \<noteq> NULL \<and> tp_stack_size param > 0
                   then Some (tp_stack_buf param, tp_stack_size param) else None),
     attr_fifo_priority = (if tp_priority param > 0 then Some (tp_priority param) else None)\<rparr>"

definition osa_thread_create ::
  "thread_sys \<Rightarrow> bool \<Rightarrow> osa_thread_param option \<Rightarrow> ptr \<Rightarrow> ptr \<Rightarrow>
   ptr \<Rightarrow> (thread_attr \<Rightarrow> ptr \<Rightarrow> ptr \<Rightarrow> int + nat) \<Rightarrow> int \<times> ptr option \<times> thread_sys" where
  "osa_thread_create sys thread param entry arg calloc_t pthread_create =
    (case param of
       None \<Rightarrow> (- EINVAL, None, sys)
     | Some p \<Rightarrow>
         if \<not> thread \<or> entry = NULL then (- EINVAL, None, sys)
         else if calloc_t = NULL then (- ENOMEM, None, sys)
         else (case pthread_create (thread_attrs p) entry arg of
                 Inl ret \<Rightarrow> (- ret, None, sys)
               | Inr pt \<Rightarrow>
                   (0, Some calloc_t,
                    sys\<lparr>th_handles := (th_handles sys)(calloc_t \<mapsto>
                      \<lparr>t_pthread = pt,
                       t_name = (case tp_name p of None \<Rightarrow> [] | Some nm \<Rightarrow> c_string 32 nm),
                       t_detached = False\<rparr>)\<rparr>)))"

definition osa_thread_delete :: "thread_sys \<Rightarrow> ptr \<Rightarrow> (int \<times> thread_sys) option" where
  "osa_thread_delete sys thread =
    (if thread = NULL then Some (- EINVAL, sys)
     else case th_handles sys thread of
       None \<Rightarrow> None
     | Some t \<Rightarrow> Some (0, sys\<lparr>th_handles := (th_handles sys)(thread := None)\<rparr>))"

text \<open>
  \<^verbatim>\<open>osa_thread_join\<close> blocks until the thread has terminated, then frees the handle.
\<close>

definition osa_thread_join :: "thread_sys \<Rightarrow> ptr \<Rightarrow> (int \<times> thread_sys) call option" where
  "osa_thread_join sys thread =
    (if thread = NULL then Some (Return (- EINVAL, sys))
     else case th_handles sys thread of
       None \<Rightarrow> None
     | Some t \<Rightarrow>
         if t_detached t then Some (Return (0, sys))
         else if th_terminated sys (t_pthread t)
         then Some (Return (0, sys\<lparr>th_handles := (th_handles sys)(thread := None)\<rparr>))
         else Some (Park Forever))"

text \<open>The microseconds that \<^verbatim>\<open>osa_thread_sleep\<close> hands to \<^verbatim>\<open>usleep\<close>.\<close>

definition osa_thread_sleep :: "uint32 \<Rightarrow> uint32" where
  "osa_thread_sleep ms = ms * 1000"

text \<open>
  The thread \<open>pt\<close> ends itself. The handle that \<^verbatim>\<open>osa_thread_self\<close> returns is the address \<open>tls\<close> of an object in the
  thread's own storage, here with its former value \<open>t\<close>: it is not one of \<open>th_handles\<close>, whose objects
  are on the heap, and freeing it is undefined.
\<close>

definition osa_thread_exit :: "nat \<Rightarrow> thread_sys \<Rightarrow> thread_sys" where
  "osa_thread_exit pt sys = sys\<lparr>th_terminated := (th_terminated sys)(pt := True)\<rparr>"

definition osa_thread_self :: "nat \<Rightarrow> ptr \<Rightarrow> osa_thread_internal \<Rightarrow> ptr \<times> osa_thread_internal" where
  "osa_thread_self pt tls t = (tls, t\<lparr>t_pthread := pt\<rparr>)"

definition osa_thread_yield :: "thread_sys \<Rightarrow> thread_sys" where
  "osa_thread_yield sys = sys"

section \<open>Lemmas\<close>

lemma osa_thread_create_ok:
  assumes "entry \<noteq> NULL" and "h \<noteq> NULL" and "pc (thread_attrs p) entry arg = Inr pt"
  shows "\<exists>sys'. osa_thread_create sys True (Some p) entry arg h pc = (0, Some h, sys') \<and>
    (\<exists>t. th_handles sys' h = Some t \<and> t_pthread t = pt \<and> \<not> t_detached t \<and> length (t_name t) < 32) \<and>
    (\<forall>h'. h' \<noteq> h \<longrightarrow> th_handles sys' h' = th_handles sys h')"
  using assms by (auto simp: osa_thread_create_def c_string_def split: option.split)

text \<open>A joined handle is gone: joining it again is undefined.\<close>

lemma osa_thread_join_once:
  assumes "osa_thread_join sys h = Some (Return (0, sys'))"
    and "th_handles sys h = Some t" and "\<not> t_detached t"
  shows "osa_thread_join sys' h = None"
  using assms by (auto simp: osa_thread_join_def c_consts split: if_splits)

text \<open>A thread that has ended itself can be joined, by its handle and by no other.\<close>

lemma osa_thread_exit_join:
  assumes "th_handles sys h = Some t" and "h \<noteq> NULL" and "\<not> t_detached t"
  shows "osa_thread_join (osa_thread_exit pt sys) h =
    (if t_pthread t = pt then Some (Return (0, (osa_thread_exit pt sys)\<lparr>th_handles := (th_handles sys)(h := None)\<rparr>))
     else map_option (map_call (map_prod id (osa_thread_exit pt))) (osa_thread_join sys h))"
  using assms by (simp add: osa_thread_join_def osa_thread_exit_def)

lemma osa_thread_sleep_exact:
  assumes "unat ms < 4294968"
  shows "unat (osa_thread_sleep ms) = unat ms * 1000"
proof -
  have "unat ms * 1000 < 2 ^ 32"
    using assms by simp
  then show ?thesis
    by (simp add: osa_thread_sleep_def unat_word_ariths)
qed

lemma osa_thread_sleep_wraps: "osa_thread_sleep 4294968 = 704"
  by (simp add: osa_thread_sleep_def)

section \<open>Properties\<close>

text \<open>
  The life of a thread handle: creation succeeds exactly when the arguments are there, memory is
  available and \<^verbatim>\<open>pthread_create\<close> succeeds; the handle is then live, a join of it blocks while the
  thread runs and otherwise returns 0 and frees it, and using it after that is undefined. (A failing
  \<^verbatim>\<open>pthread_create\<close> returns a non-zero error number.)
\<close>

theorem osa_thread_lifecycle:
  assumes "osa_thread_create sys True (Some p) entry arg h pc = (r, th, sys1)"
    and "pc (thread_attrs p) entry arg \<noteq> Inl 0"
  shows "(r = 0 \<longrightarrow> th = Some h \<and> entry \<noteq> NULL \<and> h \<noteq> NULL \<and>
      (if th_terminated sys1 (t_pthread (the (th_handles sys1 h)))
       then \<exists>sys2. osa_thread_join sys1 h = Some (Return (0, sys2)) \<and> th_handles sys2 h = None \<and>
         osa_thread_join sys2 h = None \<and> osa_thread_delete sys2 h = None
       else osa_thread_join sys1 h = Some (Park Forever))) \<and>
    (entry \<noteq> NULL \<and> h \<noteq> NULL \<and> (\<exists>pt. pc (thread_attrs p) entry arg = Inr pt) \<longrightarrow> r = 0)"
  using assms
  by (auto simp: osa_thread_create_def osa_thread_join_def osa_thread_delete_def c_consts
      split: if_splits sum.splits)

theorem osa_thread_lifecycle_witness:
  "\<exists>sys1. osa_thread_create \<lparr>th_handles = Map.empty, th_terminated = (\<lambda>_. False)\<rparr> True
      (Some \<lparr>tp_name = None, tp_stack_size = 8192, tp_priority = 5, tp_stack_buf = 0\<rparr>)
      1 2 3 (\<lambda>_ _ _. Inr 7) = (0, Some 3, sys1) \<and> osa_thread_join sys1 3 = Some (Park Forever)"
proof -
  let ?sys = "\<lparr>th_handles = Map.empty, th_terminated = (\<lambda>_. False)\<rparr> :: thread_sys"
    and ?p = "\<lparr>tp_name = None, tp_stack_size = 8192, tp_priority = 5, tp_stack_buf = 0\<rparr> :: osa_thread_param"
  obtain sys1 where s: "osa_thread_create ?sys True (Some ?p) 1 2 3 (\<lambda>_ _ _. Inr 7) = (0, Some 3, sys1)"
    and "th_terminated sys1 = (\<lambda>_. False)"
    by (simp add: osa_thread_create_def)
  with osa_thread_lifecycle [OF s] show ?thesis by simp
qed

text \<open>
  \<^verbatim>\<open>osa_thread_sleep\<close> hands \<open>ms * 1000\<close> microseconds to \<^verbatim>\<open>usleep\<close> up to 4294967 ms; at 4294968 ms (71.6
  minutes) the 32-bit product wraps and the sleep is 704 microseconds.
\<close>

theorem osa_thread_sleep_range:
  "unat (osa_thread_sleep ms) = unat ms * 1000 \<longleftrightarrow> unat ms < 4294968"
proof
  assume "unat (osa_thread_sleep ms) = unat ms * 1000"
  moreover have "unat (osa_thread_sleep ms) < 2 ^ 32"
    using unsigned_less [of "osa_thread_sleep ms"] by simp
  ultimately show "unat ms < 4294968" by simp
qed (rule osa_thread_sleep_exact)

end
