(* ===== verification/Osa_Timer.thy ===== *)
theory Osa_Timer
  imports Osa_Clock
begin

text \<open>
  Timers of the Linux platform layer, \<^verbatim>\<open>platform/linux/osa_timer.c\<close>, on POSIX timers. The state
  \<open>timer_sys\<close> holds the live \<^verbatim>\<open>osa_timer_impl\<close> objects by address and the setting of every kernel
  timer. The address \<^verbatim>\<open>calloc\<close> returns and the results of \<^verbatim>\<open>timer_create\<close> and \<^verbatim>\<open>timer_settime\<close>
  (0 or an error number) are arguments; \<^verbatim>\<open>timer_delete\<close> of a timer just created succeeds.
\<close>

record itimerspec =
  it_interval :: timespec
  it_value :: timespec

record osa_timer_impl =
  tm_timer_id :: nat
  tm_callback :: ptr
  tm_arg :: ptr
  tm_active :: bool

record timer_sys =
  tm_heap :: "ptr \<rightharpoonup> osa_timer_impl"
  tm_kernel :: "nat \<rightharpoonup> itimerspec"

definition zero_timespec :: timespec where
  "zero_timespec = \<lparr>tv_sec = 0, tv_nsec = 0\<rparr>"

definition zero_itimerspec :: itimerspec where
  "zero_itimerspec = \<lparr>it_interval = zero_timespec, it_value = zero_timespec\<rparr>"

text \<open>Seconds and nanoseconds of a period, in \<^verbatim>\<open>unsigned int\<close> arithmetic.\<close>

definition period_timespec :: "uint32 \<Rightarrow> timespec" where
  "period_timespec period_ms =
    \<lparr>tv_sec = uint (period_ms div 1000), tv_nsec = uint ((period_ms mod 1000) * 1000000)\<rparr>"

definition osa_timer_create ::
  "timer_sys \<Rightarrow> bool \<Rightarrow> uint32 \<Rightarrow> bool \<Rightarrow> ptr \<Rightarrow> ptr \<Rightarrow>
   ptr \<Rightarrow> int + nat \<Rightarrow> int \<Rightarrow> int \<times> ptr option \<times> timer_sys" where
  "osa_timer_create sys timer period_ms cycle callback arg calloc_t timer_create settime_ret =
    (if \<not> timer \<or> callback = NULL \<or> period_ms = 0 then (- EINVAL, None, sys)
     else if calloc_t = NULL then (- ENOMEM, None, sys)
     else case timer_create of
       Inl errno \<Rightarrow> (- errno, None, sys)
     | Inr kid \<Rightarrow>
         let ts = period_timespec period_ms;
             its = \<lparr>it_interval = (if cycle then ts else zero_timespec), it_value = ts\<rparr>
         in if settime_ret \<noteq> 0 then (- settime_ret, None, sys)
            else (0, Some calloc_t,
                  sys\<lparr>tm_heap := (tm_heap sys)(calloc_t \<mapsto>
                        \<lparr>tm_timer_id = kid, tm_callback = callback, tm_arg = arg, tm_active = True\<rparr>),
                      tm_kernel := (tm_kernel sys)(kid \<mapsto> its)\<rparr>))"

definition osa_timer_stop :: "timer_sys \<Rightarrow> ptr \<Rightarrow> int \<Rightarrow> (int \<times> timer_sys) option" where
  "osa_timer_stop sys timer settime_ret =
    (if timer = NULL then Some (- EINVAL, sys)
     else case tm_heap sys timer of
       None \<Rightarrow> None
     | Some t \<Rightarrow>
         if settime_ret \<noteq> 0 then Some (- settime_ret, sys)
         else Some (0, sys\<lparr>tm_heap := (tm_heap sys)(timer \<mapsto> t\<lparr>tm_active := False\<rparr>),
                           tm_kernel := (tm_kernel sys)(tm_timer_id t \<mapsto> zero_itimerspec)\<rparr>))"

definition osa_timer_delete :: "timer_sys \<Rightarrow> ptr \<Rightarrow> int \<Rightarrow> (int \<times> timer_sys) option" where
  "osa_timer_delete sys timer delete_ret =
    (if timer = NULL then Some (- EINVAL, sys)
     else case tm_heap sys timer of
       None \<Rightarrow> None
     | Some t \<Rightarrow>
         if delete_ret \<noteq> 0 then Some (- delete_ret, sys)
         else Some (0, sys\<lparr>tm_heap := (tm_heap sys)(timer := None),
                           tm_kernel := (tm_kernel sys)(tm_timer_id t := None)\<rparr>))"

text \<open>The call the notification function makes: the callback and its argument.\<close>

definition posix_timer_callback :: "timer_sys \<Rightarrow> ptr \<Rightarrow> (ptr \<times> ptr) option" where
  "posix_timer_callback sys timer =
    (if timer = NULL then None
     else case tm_heap sys timer of
       None \<Rightarrow> None
     | Some t \<Rightarrow> if tm_callback t \<noteq> NULL then Some (tm_callback t, tm_arg t) else None)"

section \<open>Lemmas\<close>

text \<open>A kernel timer fires when its next expiry is not zero; it repeats when its interval is not.\<close>

definition armed :: "timer_sys \<Rightarrow> nat \<Rightarrow> bool" where
  "armed sys kid \<longleftrightarrow> (\<exists>its. tm_kernel sys kid = Some its \<and> nanoseconds (it_value its) \<noteq> 0)"

lemma period_timespec_parts:
  "tv_sec (period_timespec period_ms) = uint period_ms div 1000"
  "tv_nsec (period_timespec period_ms) = uint period_ms mod 1000 * 1000000"
proof -
  show "tv_sec (period_timespec period_ms) = uint period_ms div 1000"
    by (simp add: period_timespec_def uint_div)
  define m where "m = uint period_ms mod 1000"
  have "0 \<le> m" and "m < 1000"
    by (simp_all add: m_def)
  then have "m * 1000000 mod 4294967296 = m * 1000000"
    by (intro mod_pos_pos_trivial) auto
  then show "tv_nsec (period_timespec period_ms) = uint period_ms mod 1000 * 1000000"
    by (simp add: period_timespec_def uint_word_ariths uint_mod m_def)
qed

lemma period_timespec_exact: "nanoseconds (period_timespec period_ms) = uint period_ms * 1000000"
proof -
  define p where "p = uint period_ms"
  have "p div 1000 * 1000000000 + p mod 1000 * 1000000 = p * 1000000"
    by presburger
  then show ?thesis
    by (simp add: nanoseconds_def period_timespec_parts p_def)
qed

lemma period_timespec_valid: "valid_timespec (period_timespec period_ms)"
proof -
  define m where "m = uint period_ms mod 1000"
  have "0 \<le> m" and "m < 1000"
    by (simp_all add: m_def)
  then show ?thesis
    by (simp add: valid_timespec_def period_timespec_parts flip: m_def)
qed

lemma osa_timer_create_ok:
  assumes "period_ms \<noteq> 0" and "callback \<noteq> NULL" and "h \<noteq> NULL"
  shows "\<exists>sys'. osa_timer_create sys True period_ms cycle callback arg h (Inr kid) 0 = (0, Some h, sys') \<and>
    armed sys' kid \<and> posix_timer_callback sys' h = Some (callback, arg) \<and>
    (\<forall>kid'. kid' \<noteq> kid \<longrightarrow> armed sys' kid' = armed sys kid')"
proof -
  have "uint period_ms \<noteq> 0"
    using assms(1) by (simp add: unsigned_eq_0_iff)
  then show ?thesis
    using assms
    by (simp add: osa_timer_create_def posix_timer_callback_def armed_def Let_def period_timespec_exact)
qed

lemma osa_timer_stop_ok:
  assumes "h \<noteq> NULL" and "tm_heap sys h = Some t"
  shows "\<exists>sys'. osa_timer_stop sys h 0 = Some (0, sys') \<and> \<not> armed sys' (tm_timer_id t) \<and>
    (\<forall>kid. kid \<noteq> tm_timer_id t \<longrightarrow> armed sys' kid = armed sys kid)"
  using assms
  by (simp add: osa_timer_stop_def armed_def zero_itimerspec_def zero_timespec_def nanoseconds_def)

section \<open>Properties\<close>

text \<open>
  A timer created with a non-zero period and a callback is armed and first expires after exactly
  \<open>period_ms\<close> milliseconds, as a normalised time (for every 32-bit period, without overflow); it
  repeats with the same period exactly when asked to. Stopping it disarms it and no other timer.
\<close>

theorem osa_timer_create_stop:
  assumes "osa_timer_create sys True period_ms cycle callback arg h (Inr kid) 0 = (0, Some h, sys1)"
  shows "\<exists>its. tm_kernel sys1 kid = Some its \<and>
    nanoseconds (it_value its) = uint period_ms * 1000000 \<and> valid_timespec (it_value its) \<and>
    nanoseconds (it_interval its) = (if cycle then uint period_ms * 1000000 else 0) \<and>
    armed sys1 kid \<and> posix_timer_callback sys1 h = Some (callback, arg) \<and>
    (\<exists>sys2. osa_timer_stop sys1 h 0 = Some (0, sys2) \<and> \<not> armed sys2 kid \<and>
      (\<forall>k. k \<noteq> kid \<longrightarrow> armed sys2 k = armed sys k))"
proof -
  have "period_ms \<noteq> 0"
    using assms by (auto simp: osa_timer_create_def c_consts split: if_splits)
  then have "uint period_ms \<noteq> 0"
    by (simp add: unsigned_eq_0_iff)
  then show ?thesis
    using assms
    by (auto simp: osa_timer_create_def osa_timer_stop_def posix_timer_callback_def armed_def
        period_timespec_exact period_timespec_valid zero_itimerspec_def zero_timespec_def
        nanoseconds_def [of "\<lparr>tv_sec = 0, tv_nsec = 0\<rparr>"] c_consts Let_def split: if_splits)
qed

theorem osa_timer_create_stop_witness:
  "\<exists>sys1 its. osa_timer_create \<lparr>tm_heap = Map.empty, tm_kernel = Map.empty\<rparr> True 1500 True 1 2 3 (Inr 4) 0 =
      (0, Some 3, sys1) \<and> tm_kernel sys1 4 = Some its \<and> nanoseconds (it_value its) = 1500000000 \<and>
    armed sys1 4"
proof -
  obtain sys1 where s: "osa_timer_create \<lparr>tm_heap = Map.empty, tm_kernel = Map.empty\<rparr> True 1500 True 1 2 3
      (Inr 4) 0 = (0, Some 3, sys1)"
    by (simp add: osa_timer_create_def Let_def)
  from osa_timer_create_stop [OF s] s show ?thesis by auto
qed

end
