(* ===== verification/Osa_Hsm.thy ===== *)
theory Osa_Hsm
  imports Hsm_Core Osa_Queue Osa_Thread Osa_Timer
begin

text \<open>
  The active state machine, \<^verbatim>\<open>core/osa_hsm.c\<close>: a state machine with its own dispatcher thread, a
  message queue of events and a periodic timer. The object extends \<open>hsm_active\<close>; its queue handle
  is the queue object of \<^verbatim>\<open>Osa_Queue\<close> (\<open>None\<close> for NULL). An event travels through the queue as the
  bytes of its C struct in the LP64 layout of Linux on 64-bit machines (\<open>event_bytes\<close>); the padding
  bytes are whatever the sender's stack held, an argument. The dispatcher thread is split at the
  point where it sleeps: \<open>osa_hsm_active_run_init\<close> is the code before the loop, \<open>run_iter\<close> one turn
  of the loop, \<open>hsm_drain\<close> the loop until it sleeps on the empty queue.

  The timer operations of the platform are arguments of \<open>osa_hsm_active_period\<close>, bound at link time
  in C; the lemmas instantiate them with \<^verbatim>\<open>Osa_Timer\<close>.
\<close>

section \<open>Events as messages\<close>

definition sizeof_hsm_event :: nat where
  "sizeof_hsm_event = 24"

definition event_bytes :: "(nat \<Rightarrow> byte) \<Rightarrow> hsm_event \<Rightarrow> byte list" where
  "event_bytes pad e =
    le_bytes 4 (int_bits (ev_signal e)) @ map pad [4..<8] @
    le_bytes 8 (ev_data e) @
    le_bytes 4 (int_bits (ev_size e)) @ map pad [20..<24]"

definition bytes_event :: "byte list \<Rightarrow> hsm_event" where
  "bytes_event bs =
    \<lparr>ev_signal = bits_int (le_value (memcpy_from bs 0 4)),
     ev_data = le_value (memcpy_from bs 8 8),
     ev_size = bits_int (le_value (memcpy_from bs 16 4))\<rparr>"

definition valid_event :: "hsm_event \<Rightarrow> bool" where
  "valid_event e \<longleftrightarrow> c_int (ev_signal e) \<and> ev_data e < 2 ^ 64 \<and> c_int (ev_size e)"

lemma length_event_bytes [simp]: "length (event_bytes pad e) = sizeof_hsm_event"
  by (simp add: event_bytes_def sizeof_hsm_event_def)

lemma bytes_event_bytes:
  assumes "valid_event e"
  shows "bytes_event (event_bytes pad e) = e"
proof -
  have "ev_data e < 256 ^ 8"
    using assms by (simp add: valid_event_def)
  then show ?thesis
    using assms
    by (simp add: bytes_event_def event_bytes_def memcpy_from_def le_value_bytes int_le_bytes
        valid_event_def)
qed

section \<open>The active object\<close>

record osa_hsm_active = hsm_active +
  hsm_name :: "string option"
  task_ref :: ptr
  msg_q :: "osa_queue_impl option"
  msg_q_size :: int
  timer_id :: ptr
  tick_period :: int

definition hsm_sig_str :: "string list" where
  "hsm_sig_str = [''init'', ''entry'', ''exit'', ''period'']"

text \<open>\<open>None\<close> is a read outside the table.\<close>

definition oas_hsm_sig_str :: "int \<Rightarrow> string option" where
  "oas_hsm_sig_str signal =
    (if signal < HSM_USER_SIG
     then (if 0 \<le> signal then Some (hsm_sig_str ! nat signal) else None)
     else Some ''unknown'')"

definition osa_hsm_active_init ::
  "'a osa_hsm_active_scheme \<Rightarrow> ptr \<Rightarrow> int \<times> 'a osa_hsm_active_scheme" where
  "osa_hsm_active_init hsm init =
    (0, hsm\<lparr>hsm_current := init, hsm_histroy := init, hsm_error := 0\<rparr>)"

section \<open>The dispatcher thread\<close>

definition hsm_queue_name :: "string option \<Rightarrow> string \<Rightarrow> string" where
  "hsm_queue_name name pid =
    c_string 32 (''hsm_'' @ (case name of Some nm \<Rightarrow> nm | None \<Rightarrow> pid) @ ''_q'')"

text \<open>
  The code before the loop. The result says whether the thread goes on to the loop; \<open>pid\<close> is the
  process id in decimal.
\<close>

definition osa_hsm_active_run_init ::
  "state_table \<Rightarrow> (ptr \<rightharpoonup> 'a osa_hsm_active_scheme handler) \<Rightarrow> nat \<Rightarrow> string \<Rightarrow> bool \<Rightarrow> bool \<Rightarrow>
   'a osa_hsm_active_scheme \<Rightarrow> (bool \<times> 'a osa_hsm_active_scheme) option" where
  "osa_hsm_active_run_init states code n pid calloc_q calloc_buf hsm =
    (case STATE_INIT states (hsm_call code n) hsm of
       None \<Rightarrow> None
     | Some (_, hsm1) \<Rightarrow>
         (case osa_queue_create True (Some (hsm_queue_name (hsm_name hsm1) pid))
             sizeof_hsm_event (msg_q_size hsm1) calloc_q calloc_buf of
            (ret, q) \<Rightarrow>
              if ret \<noteq> 0 then Some (False, hsm1) else Some (True, hsm1\<lparr>msg_q := q\<rparr>)))"

text \<open>One turn of the loop: the state dispatched to is the one current after the receive.\<close>

definition run_iter ::
  "state_table \<Rightarrow> (ptr \<rightharpoonup> 'a osa_hsm_active_scheme handler) \<Rightarrow> nat \<Rightarrow> timespec \<Rightarrow>
   'a osa_hsm_active_scheme \<Rightarrow> ((ptr \<times> hsm_event) option \<times> 'a osa_hsm_active_scheme option) call" where
  "run_iter states code n now hsm =
    (case osa_queue_receive (msg_q hsm) True sizeof_hsm_event (-1) now of
       Park k \<Rightarrow> Park k
     | Return (ret, m, q) \<Rightarrow>
         let hsm1 = hsm\<lparr>msg_q := q\<rparr>
         in if ret \<noteq> 0 then Return (None, Some hsm1)
            else let event = bytes_event (the m); state = hsm_current hsm1
                 in Return (Some (state, event),
                      map_option snd (STATE_DISPATCH states (hsm_call code n) state event hsm1)))"

text \<open>
  The loop for at most \<open>k\<close> turns, with the trace of the dispatches: the last component is the
  object asleep on its queue, or \<open>None\<close> when the turns are used up or a handler went wrong.
\<close>

fun hsm_drain ::
  "state_table \<Rightarrow> (ptr \<rightharpoonup> 'a osa_hsm_active_scheme handler) \<Rightarrow> nat \<Rightarrow> timespec \<Rightarrow> nat \<Rightarrow>
   'a osa_hsm_active_scheme \<Rightarrow> (ptr \<times> hsm_event) list \<times> 'a osa_hsm_active_scheme option" where
  "hsm_drain states code n now 0 hsm =
    (case run_iter states code n now hsm of Park _ \<Rightarrow> ([], Some hsm) | Return _ \<Rightarrow> ([], None))"
| "hsm_drain states code n now (Suc k) hsm =
    (case run_iter states code n now hsm of
       Park _ \<Rightarrow> ([], Some hsm)
     | Return (d, None) \<Rightarrow> (case d of None \<Rightarrow> [] | Some x \<Rightarrow> [x], None)
     | Return (d, Some hsm') \<Rightarrow>
         (case hsm_drain states code n now k hsm' of
            (tr, r) \<Rightarrow> (case d of None \<Rightarrow> tr | Some x \<Rightarrow> x # tr, r)))"

section \<open>Starting, posting and the periodic timer\<close>

definition osa_hsm_active_start ::
  "'a osa_hsm_active_scheme option \<Rightarrow> int \<Rightarrow> int \<Rightarrow> int \<Rightarrow> ptr \<Rightarrow> ptr \<Rightarrow>
   ptr \<Rightarrow> (thread_attr \<Rightarrow> ptr \<Rightarrow> ptr \<Rightarrow> int + nat) \<Rightarrow> thread_sys \<Rightarrow>
   int \<times> 'a osa_hsm_active_scheme option \<times> thread_sys" where
  "osa_hsm_active_start hsm stack_size priority msgq_size run_fn self calloc_t pthread_create sys =
    (case hsm of
       None \<Rightarrow> (-1, None, sys)
     | Some h \<Rightarrow>
         let h1 = h\<lparr>msg_q_size := msgq_size\<rparr>;
             param = \<lparr>tp_name = hsm_name h1, tp_stack_size = stack_size, tp_priority = priority,
                      tp_stack_buf = NULL\<rparr>
         in case osa_thread_create sys True (Some param) run_fn self calloc_t pthread_create of
              (ret, t, sys') \<Rightarrow>
                if ret \<noteq> 0 then (-1, Some h1, sys')
                else (0, Some (h1\<lparr>task_ref := the t\<rparr>), sys'))"

definition osa_hsm_active_event_post ::
  "'a osa_hsm_active_scheme option \<Rightarrow> (nat \<Rightarrow> byte) \<Rightarrow> hsm_event option \<Rightarrow> uint32 \<Rightarrow> timespec \<Rightarrow>
   (int \<times> 'a osa_hsm_active_scheme option) call" where
  "osa_hsm_active_event_post hsm pad event timeout now =
    (case (hsm, event) of
       (Some h, Some e) \<Rightarrow>
         if msg_q h \<noteq> None
         then map_call (\<lambda>(ret, q). (ret, Some (h\<lparr>msg_q := q\<rparr>)))
                (osa_queue_send (msg_q h) (Some (event_bytes pad e)) sizeof_hsm_event (sint timeout) now)
         else Return (-1, hsm)
     | _ \<Rightarrow> Return (-1, hsm))"

text \<open>A post without timeout never sleeps: \<open>post_now\<close> is its result.\<close>

definition post_now ::
  "(nat \<Rightarrow> byte) \<Rightarrow> hsm_event \<Rightarrow> timespec \<Rightarrow> 'a osa_hsm_active_scheme option \<Rightarrow>
   int \<times> 'a osa_hsm_active_scheme option" where
  "post_now pad e now hsm =
    (case osa_hsm_active_event_post hsm pad (Some e) 0 now of Return r \<Rightarrow> r | Park _ \<Rightarrow> (-1, hsm))"

definition oas_hsm_timer_handler ::
  "(nat \<Rightarrow> byte) \<Rightarrow> timespec \<Rightarrow> 'a osa_hsm_active_scheme option \<Rightarrow> 'a osa_hsm_active_scheme option" where
  "oas_hsm_timer_handler pad now hsm =
    (if hsm \<noteq> None then snd (post_now pad (sig_event HSM_SIG_PERIOD) now hsm) else hsm)"

type_synonym 't timer_create_op = "'t \<Rightarrow> uint32 \<Rightarrow> bool \<Rightarrow> ptr \<Rightarrow> ptr \<Rightarrow> int \<times> ptr option \<times> 't"
type_synonym 't timer_stop_op = "'t \<Rightarrow> ptr \<Rightarrow> (int \<times> 't) option"

definition osa_hsm_active_period ::
  "'t timer_create_op \<Rightarrow> 't timer_stop_op \<Rightarrow> ptr \<Rightarrow> ptr \<Rightarrow> 'a osa_hsm_active_scheme option \<Rightarrow> uint32 \<Rightarrow> 't \<Rightarrow>
   (int \<times> 'a osa_hsm_active_scheme option \<times> 't) option" where
  "osa_hsm_active_period timer_create timer_stop handler_fn self hsm period sys =
    (case hsm of
       None \<Rightarrow> Some (-1, None, sys)
     | Some h \<Rightarrow>
         if period \<noteq> 0
         then (case timer_create sys period True handler_fn self of
                 (ret, t, sys') \<Rightarrow>
                   Some (ret,
                     Some (h\<lparr>timer_id := (case t of Some tid \<Rightarrow> tid | None \<Rightarrow> timer_id h),
                             tick_period := sint period\<rparr>), sys'))
         else (case timer_stop sys (timer_id h) of
                 None \<Rightarrow> None
               | Some (ret, sys') \<Rightarrow> Some (ret, Some (h\<lparr>tick_period := 0\<rparr>), sys')))"

section \<open>Posting\<close>

text \<open>A running machine: its queue is open, well formed and holds events.\<close>

definition hsm_running :: "'a osa_hsm_active_scheme \<Rightarrow> bool" where
  "hsm_running hsm \<longleftrightarrow>
    (case msg_q hsm of None \<Rightarrow> False | Some q \<Rightarrow> open_inv q \<and> q_msg_size q = sizeof_hsm_event)"

definition hsm_pending :: "'a osa_hsm_active_scheme \<Rightarrow> byte list list" where
  "hsm_pending hsm = (case msg_q hsm of None \<Rightarrow> [] | Some q \<Rightarrow> queue_contents q)"

definition hsm_queue_cap :: "'a osa_hsm_active_scheme \<Rightarrow> nat" where
  "hsm_queue_cap hsm = (case msg_q hsm of None \<Rightarrow> 0 | Some q \<Rightarrow> queue_cap q)"

definition queue_room :: "'a osa_hsm_active_scheme \<Rightarrow> bool" where
  "queue_room hsm \<longleftrightarrow> length (hsm_pending hsm) < hsm_queue_cap hsm"

lemma post_now_try_send:
  assumes "msg_q hsm = Some q" and "open_inv q" and "q_msg_size q = sizeof_hsm_event"
  shows "post_now pad e now (Some hsm) =
    (fst (try_send now q (event_bytes pad e)),
     Some (hsm\<lparr>msg_q := Some (snd (try_send now q (event_bytes pad e)))\<rparr>))"
  using assms
  by (cases "send_finish q (event_bytes pad e)")
    (simp add: post_now_def osa_hsm_active_event_post_def osa_queue_send_def try_send_def
      queue_send_cases open_inv_def)

lemma try_send_msg_size: "q_msg_size (snd (try_send now q m)) = q_msg_size q"
  by (auto simp: try_send_def queue_send_cases send_finish_def)

text \<open>
  A post to a running machine with room in its queue appends the event; to a full queue it fails and
  changes nothing.
\<close>

lemma post_now_room:
  assumes "hsm_running hsm" and "length (hsm_pending hsm) < hsm_queue_cap hsm"
  obtains q where "post_now pad e now (Some hsm) = (0, Some (hsm\<lparr>msg_q := Some q\<rparr>))"
    "hsm_running (hsm\<lparr>msg_q := Some q\<rparr>)"
    "hsm_pending (hsm\<lparr>msg_q := Some q\<rparr>) = hsm_pending hsm @ [event_bytes pad e]"
    "hsm_queue_cap (hsm\<lparr>msg_q := Some q\<rparr>) = hsm_queue_cap hsm"
proof -
  obtain q0 where q0: "msg_q hsm = Some q0" "open_inv q0" "q_msg_size q0 = sizeof_hsm_event"
    using assms(1) by (auto simp: hsm_running_def split: option.splits)
  have f: "fits q0 (event_bytes pad e)"
    using q0 by (simp add: fits_def)
  have "length (queue_contents q0) < queue_cap q0"
    using assms(2) q0 by (simp add: hsm_pending_def hsm_queue_cap_def)
  from ring.put_space [OF q0(2) f this, of now] ring.put_inv [OF q0(2) f, of now]
    ring.cap_put [OF q0(2) f, of now]
  show ?thesis
    using q0 try_send_msg_size [of now q0 "event_bytes pad e"]
    by (intro that [of "snd (try_send now q0 (event_bytes pad e))"])
      (simp_all add: post_now_try_send [OF q0] hsm_running_def hsm_pending_def hsm_queue_cap_def)
qed

lemma post_now_full:
  assumes "msg_q hsm = Some q" and "queue_full q" and "\<not> q_closed q" and "q_msg_size q = sizeof_hsm_event"
  shows "post_now pad e now (Some hsm) = (- EAGAIN, Some hsm)"
  using assms
  by (simp add: post_now_def osa_hsm_active_event_post_def osa_queue_send_def queue_send_cases)

lemma post_now_no_room:
  assumes "hsm_running hsm" and "\<not> length (hsm_pending hsm) < hsm_queue_cap hsm"
  shows "post_now pad e now (Some hsm) = (- EAGAIN, Some hsm)"
proof -
  obtain q where q: "msg_q hsm = Some q" "open_inv q" "q_msg_size q = sizeof_hsm_event"
    using assms(1) by (auto simp: hsm_running_def split: option.splits)
  then have "queue_full q" and "\<not> q_closed q"
    using assms(2) ring.bounded [OF q(2)] queue_full_iff
    by (auto simp: hsm_pending_def hsm_queue_cap_def open_inv_def)
  then show ?thesis
    using post_now_full q by blast
qed

text \<open>With room in the queue no post sleeps, whatever its timeout.\<close>

lemma post_room_timeout:
  assumes "hsm_running hsm" and "length (hsm_pending hsm) < hsm_queue_cap hsm"
  shows "osa_hsm_active_event_post (Some hsm) pad (Some e) timeout now = Return (post_now pad e now (Some hsm))"
proof -
  obtain q where q: "msg_q hsm = Some q" "open_inv q" "q_msg_size q = sizeof_hsm_event"
    using assms(1) by (auto simp: hsm_running_def split: option.splits)
  then have "\<not> queue_full q"
    using assms(2) queue_full_iff by (auto simp: hsm_pending_def hsm_queue_cap_def open_inv_def)
  then show ?thesis
    using q by (simp add: post_now_def osa_hsm_active_event_post_def osa_queue_send_def queue_send_cases open_inv_def)
qed

text \<open>What a post does to the queue, also seen through the active object alone.\<close>

lemma truncate_queue [simp]:
  "msg_q (osa_hsm_active.truncate ex) = msg_q ex" "hsm_running (osa_hsm_active.truncate ex) = hsm_running ex"
  "hsm_pending (osa_hsm_active.truncate ex) = hsm_pending ex" "hsm_queue_cap (osa_hsm_active.truncate ex) = hsm_queue_cap ex"
  by (simp_all add: osa_hsm_active.truncate_def hsm_running_def hsm_pending_def hsm_queue_cap_def)

lemma post_queue:
  assumes "hsm_running hsm" and "valid_event e"
  obtains r h where "post_now pad e now (Some hsm) = (r, Some h)" "h = hsm\<lparr>msg_q := msg_q h\<rparr>" "hsm_running h"
    "map bytes_event (hsm_pending h) = map bytes_event (hsm_pending hsm) @ (if queue_room hsm then [e] else [])"
proof (cases "queue_room hsm")
  case True
  then have "length (hsm_pending hsm) < hsm_queue_cap hsm"
    by (simp add: queue_room_def)
  from post_now_room [OF assms(1) this, of pad e now]
  obtain q where "post_now pad e now (Some hsm) = (0, Some (hsm\<lparr>msg_q := Some q\<rparr>))"
    "hsm_running (hsm\<lparr>msg_q := Some q\<rparr>)"
    "hsm_pending (hsm\<lparr>msg_q := Some q\<rparr>) = hsm_pending hsm @ [event_bytes pad e]"
    by metis
  with True bytes_event_bytes [OF assms(2)] show ?thesis
    by (intro that [of 0 "hsm\<lparr>msg_q := Some q\<rparr>"]) simp_all
next
  case False
  then have "post_now pad e now (Some hsm) = (- EAGAIN, Some hsm)"
    by (intro post_now_no_room [OF assms(1)]) (simp add: queue_room_def)
  with False assms(1) show ?thesis
    by (intro that [of "- EAGAIN" hsm]) simp_all
qed

section \<open>Dispatching\<close>

lemma receive_next:
  assumes "hsm_running hsm" and "hsm_pending hsm = m # ms"
  obtains q where "osa_queue_receive (msg_q hsm) True sizeof_hsm_event (-1) now = Return (0, Some m, Some q)"
    "hsm_running (hsm\<lparr>msg_q := Some q\<rparr>)" "hsm_pending (hsm\<lparr>msg_q := Some q\<rparr>) = ms"
    "hsm_queue_cap (hsm\<lparr>msg_q := Some q\<rparr>) = hsm_queue_cap hsm"
proof -
  obtain q0 where q0: "msg_q hsm = Some q0" "queue_inv q0" "\<not> q_closed q0" "q_msg_size q0 = sizeof_hsm_event"
    using assms(1) by (auto simp: hsm_running_def open_inv_def split: option.splits)
  have c: "queue_contents q0 = m # ms"
    using assms(2) q0(1) by (simp add: hsm_pending_def)
  then have "q_count q0 \<noteq> 0"
    using queue_empty_iff [OF q0(2)] by simp
  from recv_finish_ok [OF q0(2) this] obtain msg q1 where q1:
    "recv_finish q0 = (0, Some msg, q1)" "queue_inv q1" "queue_contents q0 = msg # queue_contents q1"
    "q_msg_size q1 = q_msg_size q0" "q_closed q1 = q_closed q0" "q_max_msgs q1 = q_max_msgs q0" by metis
  show ?thesis
    using q0 c q1 \<open>q_count q0 \<noteq> 0\<close>
    by (intro that [of q1])
      (simp_all add: osa_queue_receive_def queue_receive_cases Let_def hsm_running_def
        hsm_pending_def hsm_queue_cap_def queue_cap_def open_inv_def)
qed

lemma receive_sleeps:
  assumes "hsm_running hsm" and "hsm_pending hsm = []"
  shows "osa_queue_receive (msg_q hsm) True sizeof_hsm_event (-1) now = Park Forever"
  using assms queue_empty_iff
  by (auto simp: osa_queue_receive_def queue_receive_cases hsm_running_def hsm_pending_def open_inv_def split: option.splits)

lemma run_iter_dispatch:
  assumes "hsm_running hsm" and "hsm_pending hsm = m # ms"
  obtains q where
    "run_iter states code n now hsm =
      Return (Some (hsm_current hsm, bytes_event m),
        map_option snd (STATE_DISPATCH states (hsm_call code n) (hsm_current hsm) (bytes_event m)
          (hsm\<lparr>msg_q := Some q\<rparr>)))"
    "hsm_running (hsm\<lparr>msg_q := Some q\<rparr>)" "hsm_pending (hsm\<lparr>msg_q := Some q\<rparr>) = ms"
    "hsm_queue_cap (hsm\<lparr>msg_q := Some q\<rparr>) = hsm_queue_cap hsm"
proof -
  from receive_next [OF assms] obtain q where "osa_queue_receive (msg_q hsm) True sizeof_hsm_event (-1) now = Return (0, Some m, Some q)"
    "hsm_running (hsm\<lparr>msg_q := Some q\<rparr>)" "hsm_pending (hsm\<lparr>msg_q := Some q\<rparr>) = ms"
    "hsm_queue_cap (hsm\<lparr>msg_q := Some q\<rparr>) = hsm_queue_cap hsm"
    by metis
  then show ?thesis
    by (intro that [of q]) (simp_all add: run_iter_def Let_def)
qed

lemma run_iter_empty:
  assumes "hsm_running hsm" and "hsm_pending hsm = []"
  shows "run_iter states code n now hsm = Park Forever"
  using receive_sleeps [OF assms] by (simp add: run_iter_def)

text \<open>
  The contract between the dispatcher and the handlers of an application: on the states \<open>I\<close> of the
  application every dispatch returns, stays in \<open>I\<close> and leaves the machine's own queue alone.
\<close>

locale hsm_handlers =
  fixes states :: state_table
    and code :: "ptr \<rightharpoonup> 'a osa_hsm_active_scheme handler"
    and n :: nat
    and I :: "'a osa_hsm_active_scheme \<Rightarrow> bool"
  assumes I_queue: "I (s\<lparr>msg_q := q\<rparr>) = I s"
    and dispatch: "I s \<Longrightarrow> \<exists>r s'. STATE_DISPATCH states (hsm_call code n) (hsm_current s) e s = Some (r, s') \<and>
      I s' \<and> msg_q s' = msg_q s"
begin

lemma drain_all:
  assumes "I s" and "hsm_running s" and "hsm_pending s = ms"
  shows "\<exists>tr s'. hsm_drain states code n now (length ms) s = (tr, Some s') \<and>
    map snd tr = map bytes_event ms \<and> I s' \<and> hsm_running s' \<and> hsm_pending s' = []"
  using assms
proof (induction ms arbitrary: s)
  case Nil
  then show ?case by (simp add: run_iter_empty)
next
  case (Cons m ms)
  obtain q where q: "run_iter states code n now s =
      Return (Some (hsm_current s, bytes_event m),
        map_option snd (STATE_DISPATCH states (hsm_call code n) (hsm_current s) (bytes_event m)
          (s\<lparr>msg_q := Some q\<rparr>)))"
    "hsm_running (s\<lparr>msg_q := Some q\<rparr>)" "hsm_pending (s\<lparr>msg_q := Some q\<rparr>) = ms"
    by (rule run_iter_dispatch [OF Cons.prems(2,3)])
  have "I (s\<lparr>msg_q := Some q\<rparr>)"
    using Cons.prems(1) by (simp add: I_queue)
  from dispatch [OF this, of "bytes_event m"] obtain r s1 where s1:
    "STATE_DISPATCH states (hsm_call code n) (hsm_current s) (bytes_event m) (s\<lparr>msg_q := Some q\<rparr>) = Some (r, s1)"
    "I s1" "msg_q s1 = Some q"
    by auto
  have "hsm_running s1" "hsm_pending s1 = ms"
    using q(2,3) s1(3) by (simp_all add: hsm_running_def hsm_pending_def)
  from Cons.IH [OF s1(2) this] show ?case
    using q(1) s1(1) by auto
qed

end

section \<open>The periodic timer on Linux\<close>

text \<open>The timer operations of \<^verbatim>\<open>Osa_Timer\<close>, given where \<^verbatim>\<open>calloc\<close> puts an object and the kernel's timer.\<close>

definition linux_timer_create ::
  "ptr \<Rightarrow> nat \<Rightarrow> timer_sys \<Rightarrow> uint32 \<Rightarrow> bool \<Rightarrow> ptr \<Rightarrow> ptr \<Rightarrow> int \<times> ptr option \<times> timer_sys" where
  "linux_timer_create h kid sys period_ms cycle callback arg =
    osa_timer_create sys True period_ms cycle callback arg h (Inr kid) 0"

definition linux_timer_stop :: "timer_sys \<Rightarrow> ptr \<Rightarrow> (int \<times> timer_sys) option" where
  "linux_timer_stop sys timer = osa_timer_stop sys timer 0"

lemma period_start:
  assumes "period \<noteq> 0" and "fn \<noteq> NULL" and "h \<noteq> NULL"
  obtains sys' where
    "osa_hsm_active_period (linux_timer_create h kid) linux_timer_stop fn self (Some hsm) period sys =
      Some (0, Some (hsm\<lparr>timer_id := h, tick_period := sint period\<rparr>), sys')"
    "armed sys' kid" "posix_timer_callback sys' h = Some (fn, self)"
    "tm_heap sys' h = Some \<lparr>tm_timer_id = kid, tm_callback = fn, tm_arg = self, tm_active = True\<rparr>"
    "\<And>k. k \<noteq> kid \<Longrightarrow> armed sys' k = armed sys k"
proof -
  obtain sys' where sys': "osa_timer_create sys True period True fn self h (Inr kid) 0 = (0, Some h, sys')"
    "armed sys' kid" "posix_timer_callback sys' h = Some (fn, self)"
    "\<And>k. k \<noteq> kid \<Longrightarrow> armed sys' k = armed sys k"
    using osa_timer_create_ok [OF assms, of sys True self kid] by blast
  moreover have "tm_heap sys' h = Some \<lparr>tm_timer_id = kid, tm_callback = fn, tm_arg = self, tm_active = True\<rparr>"
    using sys'(1) assms by (auto simp: osa_timer_create_def Let_def)
  ultimately show ?thesis
    using assms(1)
    by (intro that [of sys']) (simp_all add: osa_hsm_active_period_def linux_timer_create_def)
qed

lemma period_stop:
  assumes "timer_id hsm \<noteq> NULL" and "tm_heap sys (timer_id hsm) = Some t"
  obtains sys' where
    "osa_hsm_active_period tc linux_timer_stop fn self (Some hsm) 0 sys =
      Some (0, Some (hsm\<lparr>tick_period := 0\<rparr>), sys')"
    "\<not> armed sys' (tm_timer_id t)" "\<And>k. k \<noteq> tm_timer_id t \<Longrightarrow> armed sys' k = armed sys k"
proof -
  obtain sys' where "osa_timer_stop sys (timer_id hsm) 0 = Some (0, sys')"
    "\<not> armed sys' (tm_timer_id t)" "\<And>k. k \<noteq> tm_timer_id t \<Longrightarrow> armed sys' k = armed sys k"
    using osa_timer_stop_ok [OF assms] by blast
  then show ?thesis
    by (intro that [of sys']) (simp_all add: osa_hsm_active_period_def linux_timer_stop_def)
qed

section \<open>Properties\<close>



text \<open>
  Posting without a timeout to a running machine. With room in the queue the post returns 0 and
  the event becomes the last pending one, so the periodic tick of the timer adds exactly one
  \<^verbatim>\<open>HSM_SIG_PERIOD\<close> event; on a full queue the post returns \<open>- EAGAIN\<close> and the tick is dropped; before
  the dispatcher thread has created the queue it returns -1.
\<close>

theorem hsm_post_spec:
  fixes hsm :: "'a osa_hsm_active_scheme"
  assumes "hsm_running hsm" and "valid_event e"
  shows "(if length (hsm_pending hsm) < hsm_queue_cap hsm
      then \<exists>hsm'. post_now pad e now (Some hsm) = (0, Some hsm') \<and> hsm_running hsm' \<and>
        map bytes_event (hsm_pending hsm') = map bytes_event (hsm_pending hsm) @ [e] \<and>
        (e = sig_event HSM_SIG_PERIOD \<longrightarrow> oas_hsm_timer_handler pad now (Some hsm) = Some hsm')
      else post_now pad e now (Some hsm) = (- EAGAIN, Some hsm) \<and>
        oas_hsm_timer_handler pad now (Some hsm) = Some hsm) \<and>
    post_now pad e now (Some (hsm\<lparr>msg_q := None\<rparr>)) = (-1, Some (hsm\<lparr>msg_q := None\<rparr>))"
proof -
  have none: "post_now pad e now (Some (hsm\<lparr>msg_q := None\<rparr>)) = (-1, Some (hsm\<lparr>msg_q := None\<rparr>))"
    by (simp add: post_now_def osa_hsm_active_event_post_def)
  show ?thesis
  proof (cases "length (hsm_pending hsm) < hsm_queue_cap hsm")
    case True
    obtain q where "post_now pad e now (Some hsm) = (0, Some (hsm\<lparr>msg_q := Some q\<rparr>))"
      "hsm_running (hsm\<lparr>msg_q := Some q\<rparr>)"
      "hsm_pending (hsm\<lparr>msg_q := Some q\<rparr>) = hsm_pending hsm @ [event_bytes pad e]"
      by (rule post_now_room [OF assms(1) True])
    with True none show ?thesis
      using bytes_event_bytes [OF assms(2)] by (auto simp: oas_hsm_timer_handler_def)
  next
    case False
    then have "post_now pad e' now (Some hsm) = (- EAGAIN, Some hsm)" for e'
      by (rule post_now_no_room [OF assms(1)])
    with False none show ?thesis
      by (simp add: oas_hsm_timer_handler_def)
  qed
qed

text \<open>A machine that has just created its queue of capacity 1.\<close>

definition sample_hsm :: osa_hsm_active where
  "sample_hsm = \<lparr>hsm_error = 0, hsm_current = 1, hsm_histroy = 1, hsm_name = Some ''m'', task_ref = 1,
     msg_q = snd (osa_queue_create True (Some ''hsm_m_q'') sizeof_hsm_event 1 True True),
     msg_q_size = 1, timer_id = 0, tick_period = 0\<rparr>"

lemma sample_hsm_running:
  "hsm_running sample_hsm" "hsm_pending sample_hsm = []" "hsm_queue_cap sample_hsm = 1"
  by (simp_all add: sample_hsm_def hsm_running_def hsm_pending_def hsm_queue_cap_def osa_queue_create_def
      open_inv_def queue_inv_def queue_contents_def queue_cap_def sizeof_hsm_event_def)

theorem hsm_post_spec_witness:
  "\<exists>hsm'. post_now (\<lambda>_. 0) (sig_event 4) \<lparr>tv_sec = 0, tv_nsec = 0\<rparr> (Some sample_hsm) = (0, Some hsm') \<and>
    map bytes_event (hsm_pending hsm') = [sig_event 4]"
proof -
  have "valid_event (sig_event 4)"
    by (simp add: valid_event_def sig_event_def c_int_def)
  from hsm_post_spec [OF sample_hsm_running(1) this, of "\<lambda>_. 0" "\<lparr>tv_sec = 0, tv_nsec = 0\<rparr>"]
  show ?thesis
    using sample_hsm_running(2,3) by auto
qed

text \<open>
  The dispatcher thread before its loop: the entry action of the initial state runs while the
  queue does not exist yet, and the thread reaches its loop with an open, empty queue of the capacity
  given at the start exactly when that capacity is positive and memory is available.
\<close>

theorem run_init_spec:
  assumes "STATE_INIT states (hsm_call code n) hsm = Some (r, hsm1)"
  shows "\<exists>go hsm2. osa_hsm_active_run_init states code n pid calloc_q calloc_buf hsm = Some (go, hsm2) \<and>
    (go \<longleftrightarrow> 0 < msg_q_size hsm1 \<and> calloc_q \<and> calloc_buf) \<and>
    (if go then hsm_running hsm2 \<and> hsm_pending hsm2 = [] \<and> hsm_queue_cap hsm2 = nat (msg_q_size hsm1) \<and>
       hsm_current hsm2 = hsm_current hsm1 else hsm2 = hsm1)"
  using assms
  by (auto simp: osa_hsm_active_run_init_def osa_queue_create_def hsm_running_def hsm_pending_def
      hsm_queue_cap_def open_inv_def queue_inv_def queue_contents_def queue_cap_def sizeof_hsm_event_def
      c_consts)

theorem run_init_spec_witness:
  "\<exists>hsm2. osa_hsm_active_run_init sample_states [11 \<mapsto> (\<lambda>call e s. Some (0, s))] 1 ''42'' True True
      (sample_hsm\<lparr>msg_q := None\<rparr>) = Some (True, hsm2) \<and> hsm_running hsm2"
proof -
  have "STATE_INIT sample_states (hsm_call [11 \<mapsto> (\<lambda>call e s. Some (0, s))] 1) (sample_hsm\<lparr>msg_q := None\<rparr>) =
      Some (0, sample_hsm\<lparr>msg_q := None\<rparr>)"
    by (simp add: STATE_INIT_def sample_hsm_def sample_states_def)
  from run_init_spec [OF this, of "''42''" True True] show ?thesis
    by (auto simp: sample_hsm_def)
qed

text \<open>
  Setting a new period without stopping the old one: the machine forgets the first timer, which
  stays armed and keeps calling the tick handler even after the machine's timer is stopped.
\<close>

theorem hsm_period_leaks_timer:
  fixes hsm :: "'a osa_hsm_active_scheme"
  assumes "p1 \<noteq> 0" and "p2 \<noteq> 0" and "fn \<noteq> NULL" and "h1 \<noteq> NULL" and "h2 \<noteq> NULL"
    and "h1 \<noteq> h2" and "k1 \<noteq> k2"
  shows "\<exists>hsm1 hsm2 hsm3 sys1 sys2 sys3.
    osa_hsm_active_period (linux_timer_create h1 k1) linux_timer_stop fn self (Some hsm) p1 sys =
      Some (0, Some hsm1, sys1) \<and>
    osa_hsm_active_period (linux_timer_create h2 k2) linux_timer_stop fn self (Some hsm1) p2 sys1 =
      Some (0, Some hsm2, sys2) \<and>
    osa_hsm_active_period (linux_timer_create h2 k2) linux_timer_stop fn self (Some hsm2) 0 sys2 =
      Some (0, Some hsm3, sys3) \<and>
    timer_id hsm2 = h2 \<and> \<not> armed sys3 k2 \<and> armed sys3 k1"
proof -
  obtain sys1 where s1: "osa_hsm_active_period (linux_timer_create h1 k1) linux_timer_stop fn self (Some hsm) p1 sys =
      Some (0, Some (hsm\<lparr>timer_id := h1, tick_period := sint p1\<rparr>), sys1)" "armed sys1 k1"
    by (rule period_start [OF assms(1,3,4)])
  let ?hsm1 = "hsm\<lparr>timer_id := h1, tick_period := sint p1\<rparr>"
  obtain sys2 where s2: "osa_hsm_active_period (linux_timer_create h2 k2) linux_timer_stop fn self (Some ?hsm1) p2 sys1 =
      Some (0, Some (?hsm1\<lparr>timer_id := h2, tick_period := sint p2\<rparr>), sys2)"
    "tm_heap sys2 h2 = Some \<lparr>tm_timer_id = k2, tm_callback = fn, tm_arg = self, tm_active = True\<rparr>"
    "\<And>k. k \<noteq> k2 \<Longrightarrow> armed sys2 k = armed sys1 k"
    by (rule period_start [OF assms(2,3,5)]) (rule that)
  let ?hsm2 = "?hsm1\<lparr>timer_id := h2, tick_period := sint p2\<rparr>"
  obtain sys3 where s3: "osa_hsm_active_period (linux_timer_create h2 k2) linux_timer_stop fn self (Some ?hsm2) 0 sys2 =
      Some (0, Some (?hsm2\<lparr>tick_period := 0\<rparr>), sys3)" "\<not> armed sys3 k2" "\<And>k. k \<noteq> k2 \<Longrightarrow> armed sys3 k = armed sys2 k"
  proof -
    let ?t = "\<lparr>tm_timer_id = k2, tm_callback = fn, tm_arg = self, tm_active = True\<rparr> :: osa_timer_impl"
    have "timer_id ?hsm2 \<noteq> NULL" and "tm_heap sys2 (timer_id ?hsm2) = Some ?t"
      using assms(5) s2(2) by simp_all
    then show thesis
    proof (rule period_stop [where tc = "linux_timer_create h2 k2" and fn = fn and self = self])
      fix sys'
      assume "osa_hsm_active_period (linux_timer_create h2 k2) linux_timer_stop fn self (Some ?hsm2) 0 sys2 =
          Some (0, Some (?hsm2\<lparr>tick_period := 0\<rparr>), sys')" "\<not> armed sys' (tm_timer_id ?t)"
        "\<And>k. k \<noteq> tm_timer_id ?t \<Longrightarrow> armed sys' k = armed sys2 k"
      then show thesis by (intro that [of sys']) simp_all
    qed
  qed
  show ?thesis
    using s1 s2 s3 assms(7)
    by (intro exI [of _ ?hsm1] exI [of _ ?hsm2] exI [of _ "?hsm2\<lparr>tick_period := 0\<rparr>"]
        exI [of _ sys1] exI [of _ sys2] exI [of _ sys3]) simp
qed

theorem hsm_period_leaks_timer_witness:
  "\<exists>hsm1 hsm2 hsm3 sys1 sys2 sys3.
    osa_hsm_active_period (linux_timer_create 100 1) linux_timer_stop 50 60 (Some sample_hsm) 500
      \<lparr>tm_heap = Map.empty, tm_kernel = Map.empty\<rparr> = Some (0, Some hsm1, sys1) \<and>
    osa_hsm_active_period (linux_timer_create 200 2) linux_timer_stop 50 60 (Some hsm1) 1000 sys1 =
      Some (0, Some hsm2, sys2) \<and>
    osa_hsm_active_period (linux_timer_create 200 2) linux_timer_stop 50 60 (Some hsm2) 0 sys2 =
      Some (0, Some hsm3, sys3) \<and>
    timer_id hsm2 = 200 \<and> \<not> armed sys3 2 \<and> armed sys3 1"
  by (rule hsm_period_leaks_timer) simp_all

text \<open>
  The name of a signal: the four built-in signals have the names of the table, every user signal
  is "unknown", and a negative signal reads outside the table.
\<close>

theorem oas_hsm_sig_str_spec:
  "oas_hsm_sig_str HSM_SIG_INIT = Some ''init'' \<and> oas_hsm_sig_str HSM_SIG_ENTRY = Some ''entry'' \<and>
   oas_hsm_sig_str HSM_SIG_EXIT = Some ''exit'' \<and> oas_hsm_sig_str HSM_SIG_PERIOD = Some ''period'' \<and>
   oas_hsm_sig_str (HSM_USER_SIG + int k) = Some ''unknown'' \<and> oas_hsm_sig_str (- 1 - int k) = None"
  by (simp add: oas_hsm_sig_str_def hsm_sig_str_def c_consts)

end
