(* ===== verification/Led_Example.thy ===== *)
theory Led_Example
  imports Osa_Hsm
begin

text \<open>
  The LED state machine of \<^verbatim>\<open>examples/esp32/main/hsm_esp32_example.c\<close>: three states \<open>led_off\<close>,
  \<open>led_on\<close> and \<open>led_blinking\<close> with their handlers, as an application of the framework. The object
  extends \<open>osa_hsm_active\<close> by the LED flag, the level of the LED's GPIO pin, and the timers of the
  platform. The timer operations of the platform are arguments, as is the function pointer of the
  timer handler and the address of the object. Logging is left out.

  The theory interprets the two contracts of an application: \<open>hsm_app\<close> for every platform, and
  \<open>hsm_handlers\<close> on the timers of \<^verbatim>\<open>Osa_Timer\<close>.
\<close>

definition HSM_SIG_BUTTON_PRESS :: int where [c_consts]: "HSM_SIG_BUTTON_PRESS = HSM_USER_SIG"
definition HSM_SIG_TOGGLE_LED :: int where [c_consts]: "HSM_SIG_TOGGLE_LED = HSM_USER_SIG + 4"

record 't led_hsm = osa_hsm_active +
  led_state :: bool
  led_gpio :: int
  led_timers :: 't

section \<open>States\<close>

definition led_off :: ptr where "led_off = 1"
definition led_on :: ptr where "led_on = 2"
definition led_blinking :: ptr where "led_blinking = 3"

definition led_states :: state_table where
  "led_states =
    [led_off \<mapsto> \<lparr>st_handler = 11, st_parent = NULL, st_name = ''LED_OFF''\<rparr>,
     led_on \<mapsto> \<lparr>st_handler = 12, st_parent = NULL, st_name = ''LED_ON''\<rparr>,
     led_blinking \<mapsto> \<lparr>st_handler = 13, st_parent = NULL, st_name = ''LED_BLINKING''\<rparr>]"

section \<open>Handlers\<close>

definition led_off_state :: "('t, 'a) led_hsm_scheme handler" where
  "led_off_state call event hsm =
    (if ev_signal event = HSM_SIG_ENTRY then Some (0, hsm\<lparr>led_gpio := 0, led_state := False\<rparr>)
     else if ev_signal event = HSM_SIG_EXIT then Some (0, hsm)
     else if ev_signal event = HSM_SIG_BUTTON_PRESS
     then map_option (Pair 0) (STATE_TRANSIT led_states call led_on hsm)
     else if ev_signal event = HSM_SIG_TOGGLE_LED
     then map_option (Pair 0) (STATE_TRANSIT led_states call led_on hsm)
     else map_option (Pair 0) (STATE_SUPER led_states call event hsm))"

definition led_on_state :: "('t, 'a) led_hsm_scheme handler" where
  "led_on_state call event hsm =
    (if ev_signal event = HSM_SIG_ENTRY then Some (0, hsm\<lparr>led_gpio := 1, led_state := True\<rparr>)
     else if ev_signal event = HSM_SIG_EXIT then Some (0, hsm)
     else if ev_signal event = HSM_SIG_BUTTON_PRESS
     then map_option (Pair 0) (STATE_TRANSIT led_states call led_blinking hsm)
     else if ev_signal event = HSM_SIG_TOGGLE_LED
     then map_option (Pair 0) (STATE_TRANSIT led_states call led_off hsm)
     else map_option (Pair 0) (STATE_SUPER led_states call event hsm))"

text \<open>The call of \<^verbatim>\<open>osa_hsm_active_period\<close> on the machine itself, its result ignored.\<close>

definition led_period ::
  "'t timer_create_op \<Rightarrow> 't timer_stop_op \<Rightarrow> ptr \<Rightarrow> ptr \<Rightarrow> uint32 \<Rightarrow> ('t, 'a) led_hsm_scheme \<Rightarrow>
   ('t, 'a) led_hsm_scheme option" where
  "led_period tc ts fn self period hsm =
    (case osa_hsm_active_period tc ts fn self (Some hsm) period (led_timers hsm) of
       Some (_, Some hsm', sys) \<Rightarrow> Some (hsm'\<lparr>led_timers := sys\<rparr>)
     | _ \<Rightarrow> None)"

definition led_blinking_state ::
  "'t timer_create_op \<Rightarrow> 't timer_stop_op \<Rightarrow> ptr \<Rightarrow> ptr \<Rightarrow> ('t, 'a) led_hsm_scheme handler" where
  "led_blinking_state tc ts fn self call event hsm =
    (if ev_signal event = HSM_SIG_ENTRY then map_option (Pair 0) (led_period tc ts fn self 500 hsm)
     else if ev_signal event = HSM_SIG_EXIT then map_option (Pair 0) (led_period tc ts fn self 0 hsm)
     else if ev_signal event = HSM_SIG_PERIOD
     then let hsm1 = hsm\<lparr>led_state := \<not> led_state hsm\<rparr>
          in Some (0, hsm1\<lparr>led_gpio := (if led_state hsm1 then 1 else 0)\<rparr>)
     else if ev_signal event = HSM_SIG_BUTTON_PRESS
     then map_option (Pair 0) (STATE_TRANSIT led_states call led_off hsm)
     else map_option (Pair 0) (STATE_SUPER led_states call event hsm))"

definition led_code ::
  "'t timer_create_op \<Rightarrow> 't timer_stop_op \<Rightarrow> ptr \<Rightarrow> ptr \<Rightarrow> ptr \<rightharpoonup> ('t, 'a) led_hsm_scheme handler" where
  "led_code tc ts fn self =
    [11 \<mapsto> led_off_state, 12 \<mapsto> led_on_state, 13 \<mapsto> led_blinking_state tc ts fn self]"

section \<open>The application keeps the contracts\<close>

lemmas led_handler_defs = led_off_state_def led_on_state_def led_blinking_state_def

interpretation led: hsm_app "led_code tc ts fn self" for tc ts fn self
proof
  fix f h
  assume "led_code tc ts fn self f = Some h"
  then consider "h = led_off_state" | "h = led_on_state" | "h = led_blinking_state tc ts fn self"
    by (auto simp: led_code_def split: if_splits)
  then show "handler_mono h"
    by cases (auto simp: handler_mono_def led_handler_defs Let_def split: if_splits intro: mono_intros)
qed

text \<open>
  On Linux timers, with any choice of addresses for their objects, the handle the machine remembers
  stays valid, so every dispatch returns; two nested handler calls are enough.
\<close>

definition led_inv :: "(timer_sys, 'a) led_hsm_scheme \<Rightarrow> bool" where
  "led_inv hsm \<longleftrightarrow>
    hsm_current hsm \<in> {led_off, led_on, led_blinking} \<and>
    (timer_id hsm = NULL \<or> tm_heap (led_timers hsm) (timer_id hsm) \<noteq> None)"

definition led_tc :: "(timer_sys \<Rightarrow> ptr) \<Rightarrow> (timer_sys \<Rightarrow> nat) \<Rightarrow> timer_sys timer_create_op" where
  "led_tc addr kid sys = linux_timer_create (addr sys) (kid sys) sys"

lemma led_period_ok:
  assumes "led_inv hsm"
  shows "\<exists>hsm'. led_period (led_tc addr kid) linux_timer_stop fn self period hsm = Some hsm' \<and>
    led_inv hsm' \<and> msg_q hsm' = msg_q hsm \<and> hsm_current hsm' = hsm_current hsm"
  using assms
  by (auto simp: led_period_def osa_hsm_active_period_def led_tc_def linux_timer_create_def
      linux_timer_stop_def osa_timer_create_def osa_timer_stop_def led_inv_def Let_def
      split: option.splits)

lemmas led_addr_defs = led_off_def led_on_def led_blinking_def

lemma led_states_simps [simp]:
  "led_states led_off = Some \<lparr>st_handler = 11, st_parent = NULL, st_name = ''LED_OFF''\<rparr>"
  "led_states led_on = Some \<lparr>st_handler = 12, st_parent = NULL, st_name = ''LED_ON''\<rparr>"
  "led_states led_blinking = Some \<lparr>st_handler = 13, st_parent = NULL, st_name = ''LED_BLINKING''\<rparr>"
  by (simp_all add: led_states_def led_addr_defs)

lemma led_code_simps [simp]:
  "led_code tc ts fn self 11 = Some led_off_state"
  "led_code tc ts fn self 12 = Some led_on_state"
  "led_code tc ts fn self 13 = Some (led_blinking_state tc ts fn self)"
  by (simp_all add: led_code_def)

text \<open>What a step of the application may do to the machine.\<close>

definition led_step_ok :: "(timer_sys, 'a) led_hsm_scheme \<Rightarrow> (timer_sys, 'a) led_hsm_scheme option \<Rightarrow> bool" where
  "led_step_ok s r \<longleftrightarrow> (\<exists>s'. r = Some s' \<and> led_inv s' \<and> msg_q s' = msg_q s)"

lemma led_step_simps [simp]:
  "led_inv (s\<lparr>led_gpio := g, led_state := b\<rparr>) = led_inv s"
  "led_inv (s\<lparr>led_state := b, led_gpio := g\<rparr>) = led_inv s"
  "led_inv (s\<lparr>hsm_error := x\<rparr>) = led_inv s"
  by (simp_all add: led_inv_def)

lemma led_super_ok: "led_inv s \<Longrightarrow> STATE_SUPER led_states call e s = Some s"
  by (auto simp: led_inv_def intro: STATE_SUPER_top)

lemma led_transit_ok:
  assumes "led_inv s" and "t \<in> {led_off, led_on, led_blinking}"
  shows "led_step_ok s (STATE_TRANSIT led_states
    (hsm_call (led_code (led_tc addr kid) linux_timer_stop fn self) (Suc n)) t s)"
proof -
  let ?s = "s\<lparr>hsm_histroy := hsm_current s, hsm_current := t\<rparr>"
  have inv: "led_inv ?s"
    using assms by (simp add: led_inv_def)
  obtain s5 where "led_period (led_tc addr kid) linux_timer_stop fn self 500 ?s = Some s5"
    "led_inv s5" "msg_q s5 = msg_q s"
    using led_period_ok [OF inv, of addr kid fn self 500] by auto
  with inv assms(2) show ?thesis
    by (auto simp: led_step_ok_def STATE_TRANSIT_def STATE_INIT_def led_handler_defs sig_event_def)
qed

interpretation led_dispatch: hsm_handlers led_states "led_code (led_tc addr kid) linux_timer_stop fn self"
  "Suc (Suc n)" led_inv
  for addr kid fn self n
proof (unfold_locales, goal_cases)
  case (1 s q)
  then show ?case by (simp add: led_inv_def)
next
  case (2 s e)
  let ?call = "hsm_call (led_code (led_tc addr kid) linux_timer_stop fn self) (Suc n)"
  have tr: "led_step_ok s (STATE_TRANSIT led_states ?call led_off s)"
    "led_step_ok s (STATE_TRANSIT led_states ?call led_on s)"
    "led_step_ok s (STATE_TRANSIT led_states ?call led_blinking s)"
    by (rule led_transit_ok [OF 2]; simp)+
  have per: "led_step_ok s (led_period (led_tc addr kid) linux_timer_stop fn self p s)" for p
    using led_period_ok [OF 2] by (fastforce simp: led_step_ok_def)
  have step: "\<exists>r s'. map_option (Pair 0) x = Some (r, s') \<and> led_inv s' \<and> msg_q s' = msg_q s"
    if "led_step_ok s x" for x
    using that by (auto simp: led_step_ok_def)
  have "hsm_current s \<in> {led_off, led_on, led_blinking}"
    using 2 by (simp add: led_inv_def)
  then show ?case
    using 2 step [OF tr(1)] step [OF tr(2)] step [OF tr(3)] step [OF per [of 500]] step [OF per [of 0]]
    by (auto simp: STATE_DISPATCH_def led_handler_defs led_super_ok Let_def simp del: hsm_call.simps(2)
        simp: hsm_call.simps(2) [of _ "Suc n"])
qed

interpretation led_macro: macro_app "led_code tc ts fn self :: ptr \<rightharpoonup> ('t, 'a) led_hsm_scheme handler"
  for tc ts fn self
proof
  fix f and h :: "('t, 'a) led_hsm_scheme handler"
  assume "led_code tc ts fn self f = Some h"
  then consider "h = led_off_state" | "h = led_on_state" | "h = led_blinking_state tc ts fn self"
    by (auto simp: led_code_def split: if_splits)
  note cases = this
  show "exit_free h"
  proof (rule exit_freeI)
    fix c c' :: "('t, 'a) led_hsm_scheme caller" and e :: hsm_event and s
    assume e: "ev_signal e \<noteq> HSM_SIG_EXIT"
      and eq: "\<forall>f e' s'. ev_signal e' \<noteq> HSM_SIG_EXIT \<longrightarrow> c f e' s' = c' f e' s'"
    have tr: "STATE_TRANSIT led_states c t s = STATE_TRANSIT led_states c' t s" for t
      by (rule STATE_TRANSIT_exit_free [OF eq])
    have su: "STATE_SUPER led_states c e s = STATE_SUPER led_states c' e s"
      by (rule STATE_SUPER_exit_free [OF e eq])
    from cases show "h c e s = h c' e s"
      by cases (simp_all add: led_handler_defs tr su)
  qed
qed

section \<open>Properties\<close>


definition sample_led :: "timer_sys led_hsm" where
  "sample_led = \<lparr>hsm_error = 0, hsm_current = led_off, hsm_histroy = led_off, hsm_name = Some ''LED_HSM'',
     task_ref = 1, msg_q = snd (osa_queue_create True (Some ''q'') sizeof_hsm_event 10 True True),
     msg_q_size = 10, timer_id = 0, tick_period = 0, led_state = False, led_gpio = 0,
     led_timers = \<lparr>tm_heap = Map.empty, tm_kernel = Map.empty\<rparr>\<rparr>"


text \<open>
  C22. The framework never runs an exit action: whatever the handlers of the LED machine do on
  \<^verbatim>\<open>HSM_SIG_EXIT\<close>, no dispatch of any other event changes, although they leave states by transitions.
\<close>

theorem led_exit_never_runs:
  assumes "ev_signal e \<noteq> HSM_SIG_EXIT"
  shows "hsm_call (\<lambda>f. map_option (with_exit x) (led_code tc ts fn self f)) n f e s =
    hsm_call (led_code tc ts fn self) n f e s"
  by (rule led_macro.exit_irrelevant [OF assms])

theorem led_exit_never_runs_witness:
  "hsm_call (\<lambda>f. map_option (with_exit (\<lambda>_ _ _. None)) (led_code (led_tc (\<lambda>_. 7) (\<lambda>_. 8)) linux_timer_stop 1 2 f))
      2 11 (sig_event HSM_SIG_BUTTON_PRESS) sample_led =
    hsm_call (led_code (led_tc (\<lambda>_. 7) (\<lambda>_. 8)) linux_timer_stop 1 2) 2 11 (sig_event HSM_SIG_BUTTON_PRESS) sample_led"
  by (rule led_exit_never_runs) (simp add: sig_event_def c_consts)

text \<open>
  C23. A button press moves the LED machine round the cycle off, on, blinking, off, remembers the old
  state as history and drives the pin to the level of the new one; but the blink timer, started on
  entry to the blinking state, is left as it is when that state is left, so it goes on ticking.
\<close>

theorem led_button_cycle:
  assumes "led_inv s"
  shows "\<exists>s'. STATE_DISPATCH led_states
      (hsm_call (led_code (led_tc addr kid) linux_timer_stop fn self) (Suc (Suc n)))
      (hsm_current s) (sig_event HSM_SIG_BUTTON_PRESS) s = Some (0, s') \<and>
    hsm_histroy s' = hsm_current s \<and>
    (if hsm_current s = led_off then hsm_current s' = led_on \<and> led_gpio s' = 1 \<and> led_timers s' = led_timers s
     else if hsm_current s = led_on
     then hsm_current s' = led_blinking \<and>
       (fn \<noteq> NULL \<and> addr (led_timers s) \<noteq> NULL \<longrightarrow>
         timer_id s' = addr (led_timers s) \<and> armed (led_timers s') (kid (led_timers s)))
     else hsm_current s' = led_off \<and> led_gpio s' = 0 \<and> led_timers s' = led_timers s)"
proof -
  note defs = STATE_DISPATCH_def STATE_TRANSIT_def STATE_INIT_def led_handler_defs sig_event_def c_consts
  have 500: "(500 :: uint32) \<noteq> 0" "uint (500 :: uint32) \<noteq> 0"
    by simp_all
  consider "hsm_current s = led_off" | "hsm_current s = led_on" | "hsm_current s = led_blinking"
    using assms by (auto simp: led_inv_def)
  then show ?thesis
  proof cases
    case 1
    then show ?thesis by (simp add: defs)
  next
    case 2
    then have "led_on \<noteq> led_off" by (simp add: led_addr_defs)
    with 2 show ?thesis
      by (simp add: defs led_period_def osa_hsm_active_period_def led_tc_def linux_timer_create_def
          osa_timer_create_def armed_def period_timespec_exact 500 Let_def)
  next
    case 3
    then have "led_blinking \<noteq> led_off" "led_blinking \<noteq> led_on" by (simp_all add: led_addr_defs)
    with 3 show ?thesis by (simp add: defs)
  qed
qed

theorem led_button_cycle_witness:
  "\<exists>s'. STATE_DISPATCH led_states (hsm_call (led_code (led_tc (\<lambda>_. 7) (\<lambda>_. 8)) linux_timer_stop 1 2) (Suc (Suc 0)))
      (hsm_current (sample_led\<lparr>hsm_current := led_on\<rparr>)) (sig_event HSM_SIG_BUTTON_PRESS)
      (sample_led\<lparr>hsm_current := led_on\<rparr>) = Some (0, s') \<and>
    hsm_current s' = led_blinking \<and> armed (led_timers s') 8"
proof -
  have "led_inv (sample_led\<lparr>hsm_current := led_on\<rparr>)"
    by (simp add: led_inv_def sample_led_def)
  from led_button_cycle [OF this, of "\<lambda>_. 7" "\<lambda>_. 8" 1 2 0] show ?thesis
    by (auto simp: led_addr_defs)
qed

end
