(* ===== verification/Slot_Pool.thy ===== *)
theory Slot_Pool
  imports Osa_Prelude
begin

text \<open>
  The contract of a fixed pool of slots searched from the front, as the static pools of the sources
  provide it: the job pool of \<^verbatim>\<open>core/osa_worker.c\<close> and the pools of mutexes, semaphores, queues,
  timers and tasks of \<^verbatim>\<open>platform/esp32\<close>. \<open>first_free\<close> is their search loop. The consequences for a
  client that allocates and releases are proved here once.
\<close>

section \<open>The search loop\<close>

fun first_free :: "(nat \<Rightarrow> bool) \<Rightarrow> nat \<Rightarrow> nat \<Rightarrow> nat option" where
  "first_free free i 0 = None"
| "first_free free i (Suc n) = (if free i then Some i else first_free free (Suc i) n)"

lemma first_free_None: "first_free free i n = None \<longleftrightarrow> (\<forall>j. i \<le> j \<and> j < i + n \<longrightarrow> \<not> free j)"
proof (induction n arbitrary: i)
  case (Suc n)
  show ?case
  proof (cases "free i")
    case True
    then show ?thesis by auto
  next
    case False
    moreover have "(\<forall>j. i \<le> j \<and> j < i + Suc n \<longrightarrow> \<not> free j) \<longleftrightarrow>
        (\<forall>j. Suc i \<le> j \<and> j < Suc i + n \<longrightarrow> \<not> free j)"
      using False by (metis Suc_leD Suc_leI add_Suc_right add_Suc_shift le_neq_implies_less)
    ultimately show ?thesis using Suc.IH by simp
  qed
qed auto

lemma first_free_Some:
  "first_free free i n = Some k \<Longrightarrow> i \<le> k \<and> k < i + n \<and> free k \<and> (\<forall>j. i \<le> j \<and> j < k \<longrightarrow> \<not> free j)"
proof (induction n arbitrary: i)
  case (Suc n)
  show ?case
  proof (cases "free i")
    case True
    then show ?thesis using Suc.prems by auto
  next
    case False
    then have "Suc i \<le> k \<and> k < Suc i + n \<and> free k \<and> (\<forall>j. Suc i \<le> j \<and> j < k \<longrightarrow> \<not> free j)"
      using Suc.IH [of "Suc i"] Suc.prems by simp
    then show ?thesis
      using False by (metis Suc_leI add_Suc_right add_Suc_shift le_neq_implies_less Suc_leD)
  qed
qed simp

section \<open>The contract\<close>

text \<open>\<open>used s i\<close>: slot \<open>i\<close> is taken. An allocation takes the first free slot or fails when there is none.\<close>

locale slot_pool =
  fixes size :: nat
    and inv :: "'s \<Rightarrow> bool"
    and used :: "'s \<Rightarrow> nat \<Rightarrow> bool"
    and alloc :: "'s \<Rightarrow> nat option \<times> 's"
    and release :: "'s \<Rightarrow> nat \<Rightarrow> 's"
  assumes alloc_first: "inv s \<Longrightarrow> fst (alloc s) = first_free (\<lambda>i. \<not> used s i) 0 size"
    and alloc_inv: "inv s \<Longrightarrow> inv (snd (alloc s))"
    and alloc_used: "inv s \<Longrightarrow> alloc s = (Some i, s') \<Longrightarrow> used s' = (used s)(i := True)"
    and alloc_fail: "inv s \<Longrightarrow> alloc s = (None, s') \<Longrightarrow> used s' = used s"
    and release_inv: "inv s \<Longrightarrow> i < size \<Longrightarrow> inv (release s i)"
    and release_used: "inv s \<Longrightarrow> i < size \<Longrightarrow> used (release s i) = (used s)(i := False)"
begin

definition free_slots :: "'s \<Rightarrow> nat set" where
  "free_slots s = {i. i < size \<and> \<not> used s i}"

lemma finite_free_slots [simp]: "finite (free_slots s)"
  by (simp add: free_slots_def)

lemma alloc_cases:
  assumes "inv s"
  obtains i s' where "alloc s = (Some i, s')" "i \<in> free_slots s" "free_slots s' = free_slots s - {i}" "inv s'"
  | s' where "alloc s = (None, s')" "free_slots s = {}" "free_slots s' = {}" "inv s'"
proof (cases "alloc s")
  case (Pair r s')
  have inv': "inv s'"
    using alloc_inv [OF assms] Pair by simp
  show ?thesis
  proof (cases r)
    case None
    then have "free_slots s = {}"
      using alloc_first [OF assms] Pair first_free_None [of "\<lambda>i. \<not> used s i" 0 size]
      by (auto simp: free_slots_def)
    moreover have "free_slots s' = free_slots s"
      using alloc_fail [OF assms] None Pair by (simp add: free_slots_def)
    ultimately show ?thesis
      using that(2) None Pair inv' by simp
  next
    case (Some i)
    then have "first_free (\<lambda>i. \<not> used s i) 0 size = Some i"
      using alloc_first [OF assms] Pair by simp
    from first_free_Some [OF this] have "i \<in> free_slots s"
      by (simp add: free_slots_def)
    moreover have "used s' = (used s)(i := True)"
      by (rule alloc_used [OF assms]) (simp add: Pair Some)
    then have "free_slots s' = free_slots s - {i}"
      by (auto simp: free_slots_def)
    ultimately show ?thesis
      using that(1) Some Pair inv' by simp
  qed
qed

lemma alloc_succeeds_iff: "inv s \<Longrightarrow> fst (alloc s) \<noteq> None \<longleftrightarrow> free_slots s \<noteq> {}"
  by (cases s rule: alloc_cases) auto

lemma release_free: "inv s \<Longrightarrow> i < size \<Longrightarrow> free_slots (release s i) = insert i (free_slots s)"
  by (auto simp: free_slots_def release_used)

text \<open>\<open>alloc_n\<close> allocates \<open>n\<close> times in a row and collects what it got.\<close>

fun alloc_n :: "nat \<Rightarrow> 's \<Rightarrow> nat list \<times> 's" where
  "alloc_n 0 s = ([], s)"
| "alloc_n (Suc n) s =
    (case alloc s of
       (None, s') \<Rightarrow> alloc_n n s'
     | (Some i, s') \<Rightarrow> (case alloc_n n s' of (is, s'') \<Rightarrow> (i # is, s'')))"

lemma alloc_n_distinct:
  assumes "inv s" and "alloc_n n s = (is, s')"
  shows "inv s' \<and> distinct is \<and> set is \<subseteq> free_slots s \<and> length is = min n (card (free_slots s)) \<and>
    free_slots s' = free_slots s - set is"
  using assms
proof (induction n arbitrary: s "is")
  case (Suc n)
  show ?case
  proof (cases rule: alloc_cases [OF Suc.prems(1)])
    case (1 i s1)
    obtain js where js: "alloc_n n s1 = (js, s')" "is = i # js"
      using Suc.prems(2) 1(1) by (auto split: prod.splits)
    have IH: "inv s' \<and> distinct js \<and> set js \<subseteq> free_slots s1 \<and> length js = min n (card (free_slots s1)) \<and>
        free_slots s' = free_slots s1 - set js"
      by (rule Suc.IH [OF 1(4) js(1)])
    have card: "card (free_slots s) = Suc (card (free_slots s1))"
      using card_Suc_Diff1 [OF finite_free_slots 1(2)] 1(3) by simp
    have "length is = min (Suc n) (card (free_slots s))"
      using IH by (simp add: js(2) card)
    moreover have "distinct is" and "set is \<subseteq> free_slots s" and "free_slots s' = free_slots s - set is"
      using IH 1(2) unfolding js(2) 1(3) by auto
    ultimately show ?thesis
      using IH by simp
  next
    case (2 s1)
    then have "alloc_n n s1 = (is, s')"
      using Suc.prems(2) by simp
    from Suc.IH [OF 2(4) this] 2 show ?thesis by auto
  qed
qed simp

end

end
