(* ===== verification/Job_Pool.thy ===== *)
theory Job_Pool
  imports Slot_Pool
begin

text \<open>
  Jobs and the static job pool of \<^verbatim>\<open>core/osa_worker.c\<close>. The file's statics and all job objects are
  the record \<open>job_store\<close>: \<open>jobs\<close> is the heap of job objects (the slots of \<^verbatim>\<open>g_job_pool\<close> and the
  objects clients own; addresses count in units of the struct, so slot \<open>i\<close> is \<open>g_job_pool + i\<close>), the id
  counter and the flag of the lazy initialisation. Function pointers and contexts are addresses.

  The lemmas: an allocation zeroes the first slot that is completed or cancelled and gives it the
  next id, leaves every other job alone, and fails exactly when all 32 slots are busy; the pool
  provides the contract \<open>slot_pool\<close>.
\<close>

section \<open>Jobs\<close>

datatype osa_worker_job_state =
  OSA_JOB_PENDING | OSA_JOB_RUNNING | OSA_JOB_COMPLETED | OSA_JOB_CANCELLED | OSA_JOB_ERROR

record osa_worker_job =
  job_id :: uint32
  job_state :: osa_worker_job_state
  job_func :: ptr
  job_ctx :: ptr
  complete_cb :: ptr
  complete_ctx :: ptr
  target_hsm :: ptr
  completion_signal :: int
  job_result :: int
  job_next :: ptr
  job_prev :: ptr

text \<open>The object after \<^verbatim>\<open>memset(job, 0, sizeof(struct osa_worker_job))\<close>.\<close>

definition zero_job :: osa_worker_job where
  "zero_job = \<lparr>job_id = 0, job_state = OSA_JOB_PENDING, job_func = NULL, job_ctx = NULL,
     complete_cb = NULL, complete_ctx = NULL, target_hsm = NULL, completion_signal = 0,
     job_result = 0, job_next = NULL, job_prev = NULL\<rparr>"

record job_store =
  jobs :: "ptr \<Rightarrow> osa_worker_job"
  g_job_id_counter :: uint32
  g_job_pool_initialized :: bool

definition upd_job :: "ptr \<Rightarrow> (osa_worker_job \<Rightarrow> osa_worker_job) \<Rightarrow> job_store \<Rightarrow> job_store" where
  "upd_job p f st = st\<lparr>jobs := (jobs st)(p := f (jobs st p))\<rparr>"

definition OSA_JOB_POOL_SIZE :: nat where "OSA_JOB_POOL_SIZE = 32"
definition g_job_pool :: ptr where "g_job_pool = 1"

section \<open>Operations\<close>

definition get_next_job_id :: "job_store \<Rightarrow> uint32 \<times> job_store" where
  "get_next_job_id st =
    (let st' = st\<lparr>g_job_id_counter := g_job_id_counter st + 1\<rparr> in (g_job_id_counter st', st'))"

definition init_job_pool :: "job_store \<Rightarrow> job_store" where
  "init_job_pool st =
    (if g_job_pool_initialized st then st
     else (fold (\<lambda>i. upd_job (g_job_pool + i) (\<lambda>_. zero_job\<lparr>job_id := 0, job_state := OSA_JOB_COMPLETED\<rparr>))
             [0..<OSA_JOB_POOL_SIZE] st)\<lparr>g_job_pool_initialized := True\<rparr>)"

definition slot_free :: "job_store \<Rightarrow> nat \<Rightarrow> bool" where
  "slot_free st i \<longleftrightarrow>
    job_state (jobs st (g_job_pool + i)) = OSA_JOB_COMPLETED \<or>
    job_state (jobs st (g_job_pool + i)) = OSA_JOB_CANCELLED"

definition job_pool_alloc :: "job_store \<Rightarrow> ptr \<times> job_store" where
  "job_pool_alloc st =
    (let st1 = (if \<not> g_job_pool_initialized st then init_job_pool st else st)
     in case first_free (slot_free st1) 0 OSA_JOB_POOL_SIZE of
          None \<Rightarrow> (NULL, st1)
        | Some i \<Rightarrow>
            let st2 = upd_job (g_job_pool + i) (\<lambda>_. zero_job) st1;
                (id, st3) = get_next_job_id st2;
                st4 = upd_job (g_job_pool + i) (\<lambda>j. j\<lparr>job_id := id\<rparr>) st3;
                st5 = upd_job (g_job_pool + i) (\<lambda>j. j\<lparr>job_state := OSA_JOB_PENDING\<rparr>) st4
            in (g_job_pool + i, st5))"

definition in_job_pool :: "ptr \<Rightarrow> bool" where
  "in_job_pool job \<longleftrightarrow> job \<ge> g_job_pool \<and> job < g_job_pool + OSA_JOB_POOL_SIZE"

definition job_pool_free :: "job_store \<Rightarrow> ptr \<Rightarrow> job_store" where
  "job_pool_free st job =
    (if job \<ge> g_job_pool \<and> job < g_job_pool + OSA_JOB_POOL_SIZE
     then upd_job job (\<lambda>j. j\<lparr>job_state := OSA_JOB_COMPLETED\<rparr>) st else st)"

definition osa_worker_job_alloc :: "job_store \<Rightarrow> ptr \<times> job_store" where
  "osa_worker_job_alloc st = job_pool_alloc st"

definition osa_worker_job_free :: "job_store \<Rightarrow> ptr \<Rightarrow> job_store" where
  "osa_worker_job_free st job = job_pool_free st job"

definition osa_worker_job_init ::
  "job_store \<Rightarrow> ptr \<Rightarrow> ptr \<Rightarrow> ptr \<Rightarrow> ptr \<Rightarrow> ptr \<Rightarrow> job_store" where
  "osa_worker_job_init st job func ctx cb cb_ctx =
    (if job = NULL then st
     else let st1 = upd_job job (\<lambda>_. zero_job) st;
              (id, st2) = get_next_job_id st1
          in upd_job job (\<lambda>j. j\<lparr>job_id := id, job_state := OSA_JOB_PENDING, job_func := func,
               job_ctx := ctx, complete_cb := cb, complete_ctx := cb_ctx, target_hsm := NULL,
               completion_signal := 0, job_result := 0, job_next := NULL, job_prev := NULL\<rparr>) st2)"

section \<open>Lemmas\<close>

lemma jobs_upd_job [simp]:
  "jobs (upd_job p f st) = (jobs st)(p := f (jobs st p))"
  "g_job_id_counter (upd_job p f st) = g_job_id_counter st"
  "g_job_pool_initialized (upd_job p f st) = g_job_pool_initialized st"
  by (simp_all add: upd_job_def)

lemma get_next_job_id_simp [simp]:
  "get_next_job_id st = (g_job_id_counter st + 1, st\<lparr>g_job_id_counter := g_job_id_counter st + 1\<rparr>)"
  by (simp add: get_next_job_id_def Let_def)

lemma jobs_fold_upd:
  "jobs (fold (\<lambda>i. upd_job (b + i) (\<lambda>_. v)) is st) = (\<lambda>p. if p \<in> (\<lambda>i. b + i) ` set is then v else jobs st p)"
  by (induction "is" arbitrary: st) (auto simp: fun_eq_iff)

lemma fold_upd_rest:
  "g_job_id_counter (fold (\<lambda>i. upd_job (b + i) (\<lambda>_. v)) is st) = g_job_id_counter st"
  "g_job_pool_initialized (fold (\<lambda>i. upd_job (b + i) (\<lambda>_. v)) is st) = g_job_pool_initialized st"
  by (induction "is" arbitrary: st) auto

lemma init_job_pool_jobs:
  "\<not> g_job_pool_initialized st \<Longrightarrow>
   jobs (init_job_pool st) = (\<lambda>p. if in_job_pool p then zero_job\<lparr>job_id := 0, job_state := OSA_JOB_COMPLETED\<rparr> else jobs st p)"
proof -
  have "p \<in> (\<lambda>i. g_job_pool + i) ` {0..<OSA_JOB_POOL_SIZE} \<longleftrightarrow> in_job_pool p" for p
    by (auto simp: in_job_pool_def image_iff intro!: bexI [of _ "p - g_job_pool"])
  then show "\<not> g_job_pool_initialized st \<Longrightarrow> ?thesis"
    by (simp add: init_job_pool_def jobs_fold_upd)
qed

lemma init_job_pool_rest [simp]:
  "g_job_id_counter (init_job_pool st) = g_job_id_counter st"
  "g_job_pool_initialized (init_job_pool st)"
  by (simp_all add: init_job_pool_def fold_upd_rest)

lemma pool_addr [simp]:
  "in_job_pool (g_job_pool + i) \<longleftrightarrow> i < OSA_JOB_POOL_SIZE"
  "g_job_pool + i \<noteq> NULL" "in_job_pool p \<Longrightarrow> p \<noteq> NULL" "0 < g_job_pool" "g_job_pool \<noteq> NULL"
  by (auto simp: in_job_pool_def g_job_pool_def)

text \<open>The two ways an allocation from an initialised pool ends.\<close>

lemma job_pool_alloc_cases:
  assumes "g_job_pool_initialized st"
  obtains i where "first_free (slot_free st) 0 OSA_JOB_POOL_SIZE = Some i" "i < OSA_JOB_POOL_SIZE"
    "slot_free st i" "fst (job_pool_alloc st) = g_job_pool + i"
    "jobs (snd (job_pool_alloc st)) =
      (jobs st)(g_job_pool + i := zero_job\<lparr>job_id := g_job_id_counter st + 1\<rparr>)"
    "g_job_id_counter (snd (job_pool_alloc st)) = g_job_id_counter st + 1"
    "g_job_pool_initialized (snd (job_pool_alloc st))"
  | "first_free (slot_free st) 0 OSA_JOB_POOL_SIZE = None" "\<forall>i < OSA_JOB_POOL_SIZE. \<not> slot_free st i"
    "job_pool_alloc st = (NULL, st)"
proof (cases "first_free (slot_free st) 0 OSA_JOB_POOL_SIZE")
  case None
  then show ?thesis
    using that(2) assms first_free_None [of "slot_free st" 0 OSA_JOB_POOL_SIZE]
    by (auto simp: job_pool_alloc_def)
next
  case (Some i)
  then show ?thesis
    using that(1) [of i] assms first_free_Some [OF Some]
    by (simp add: job_pool_alloc_def Let_def zero_job_def)
qed

text \<open>The pool as a \<open>slot_pool\<close>: a slot is used while its job is pending, running or in error.\<close>

definition job_slot_used :: "job_store \<Rightarrow> nat \<Rightarrow> bool" where
  "job_slot_used st i \<longleftrightarrow> \<not> slot_free st i"

definition job_slot_alloc :: "job_store \<Rightarrow> nat option \<times> job_store" where
  "job_slot_alloc st =
    (case job_pool_alloc st of (p, st') \<Rightarrow> (if p = NULL then None else Some (p - g_job_pool), st'))"

definition job_slot_release :: "job_store \<Rightarrow> nat \<Rightarrow> job_store" where
  "job_slot_release st i = job_pool_free st (g_job_pool + i)"

interpretation job_slots: slot_pool OSA_JOB_POOL_SIZE g_job_pool_initialized job_slot_used
  job_slot_alloc job_slot_release
proof (unfold_locales, goal_cases)
  case (1 s)
  then show ?case
    by (cases rule: job_pool_alloc_cases)
      (auto simp: job_slot_alloc_def job_slot_used_def split: prod.splits)
next
  case (2 s)
  then show ?case
    by (cases rule: job_pool_alloc_cases [OF 2]) (auto simp: job_slot_alloc_def split: prod.splits)
next
  case (3 s i s')
  from 3(1) show ?case
  proof (cases rule: job_pool_alloc_cases)
    case (1 k)
    then have "i = k" and "jobs s' = (jobs s)(g_job_pool + k := zero_job\<lparr>job_id := g_job_id_counter s + 1\<rparr>)"
      using 3(2) by (auto simp: job_slot_alloc_def split: prod.splits if_splits)
    then show ?thesis
      by (auto simp: job_slot_used_def slot_free_def fun_eq_iff zero_job_def)
  next
    case 2
    then show ?thesis using 3(2) by (simp add: job_slot_alloc_def)
  qed
next
  case (4 s s')
  from 4(1) show ?case
    using 4(2) by (cases rule: job_pool_alloc_cases) (auto simp: job_slot_alloc_def split: prod.splits)
next
  case (5 s i)
  then show ?case by (simp add: job_slot_release_def job_pool_free_def)
next
  case (6 s i)
  then show ?case
    by (auto simp: job_slot_release_def job_pool_free_def job_slot_used_def slot_free_def fun_eq_iff)
qed

section \<open>Properties\<close>

text \<open>
  \<^verbatim>\<open>osa_worker_job_alloc\<close> on every state of the pool, the first call included: it returns NULL and
  changes no job when every slot is pending, running or in error; otherwise it returns a slot of
  the pool that was completed or cancelled (or the pool was not yet initialised), zeroed, pending
  and with the next id, and every other job that the initialisation does not reset is untouched.
\<close>

theorem osa_worker_job_alloc_spec:
  assumes "osa_worker_job_alloc st = (p, st')"
  shows "(p = NULL \<longleftrightarrow> g_job_pool_initialized st \<and> (\<forall>i < OSA_JOB_POOL_SIZE. \<not> slot_free st i)) \<and>
    (p = NULL \<longrightarrow> st' = st) \<and>
    (p \<noteq> NULL \<longrightarrow> in_job_pool p \<and> (g_job_pool_initialized st \<longrightarrow> slot_free st (p - g_job_pool)) \<and>
      jobs st' p = zero_job\<lparr>job_id := g_job_id_counter st + 1\<rparr> \<and>
      g_job_id_counter st' = g_job_id_counter st + 1 \<and>
      (\<forall>q. q \<noteq> p \<and> (g_job_pool_initialized st \<or> \<not> in_job_pool q) \<longrightarrow> jobs st' q = jobs st q))"
proof (cases "g_job_pool_initialized st")
  case True
  then show ?thesis
    using assms unfolding osa_worker_job_alloc_def
    by (cases rule: job_pool_alloc_cases [OF True]) auto
next
  case False
  let ?st = "init_job_pool st"
  have free: "slot_free ?st i" if "i < OSA_JOB_POOL_SIZE" for i
    using that False by (simp add: slot_free_def init_job_pool_jobs)
  have pos: "0 < OSA_JOB_POOL_SIZE"
    by (simp add: OSA_JOB_POOL_SIZE_def)
  have eq: "job_pool_alloc st = job_pool_alloc ?st"
    using False by (simp add: job_pool_alloc_def)
  show ?thesis
  proof (cases rule: job_pool_alloc_cases [OF init_job_pool_rest(2), of st])
    case (1 i)
    then show ?thesis
      using assms False init_job_pool_jobs [OF False] unfolding osa_worker_job_alloc_def eq by auto
  next
    case 2
    then show ?thesis using free pos by blast
  qed
qed

theorem osa_worker_job_alloc_spec_witness:
  "\<exists>st'. osa_worker_job_alloc \<lparr>jobs = (\<lambda>_. zero_job), g_job_id_counter = 7, g_job_pool_initialized = False\<rparr> =
      (g_job_pool, st') \<and> job_id (jobs st' g_job_pool) = 8"
proof -
  let ?st = "\<lparr>jobs = (\<lambda>_. zero_job), g_job_id_counter = 7, g_job_pool_initialized = False\<rparr>"
  have "slot_free (init_job_pool ?st) 0"
    using init_job_pool_jobs [of ?st]
    by (simp add: slot_free_def in_job_pool_def OSA_JOB_POOL_SIZE_def)
  then have "fst (osa_worker_job_alloc ?st) = g_job_pool"
    by (simp add: osa_worker_job_alloc_def job_pool_alloc_def Let_def OSA_JOB_POOL_SIZE_def
        numeral_eq_Suc)
  then obtain st' where st': "osa_worker_job_alloc ?st = (g_job_pool, st')"
    by (metis prod.collapse)
  from osa_worker_job_alloc_spec [OF st'] st' show ?thesis
    by (simp add: zero_job_def)
qed

text \<open>
  No slot is handed out twice: any number \<open>n\<close> of allocations in a row from an initialised pool
  yields pairwise different slots, all of them free before, and exactly as many as were free (or
  \<open>n\<close>); after that the pool fails until a job is freed.
\<close>

theorem job_pool_alloc_distinct:
  assumes "g_job_pool_initialized st" and "job_slots.alloc_n n st = (is, st')"
  shows "distinct is \<and> (\<forall>i \<in> set is. i < OSA_JOB_POOL_SIZE \<and> slot_free st i) \<and>
    length is = min n (card {i. i < OSA_JOB_POOL_SIZE \<and> slot_free st i}) \<and>
    (length is < n \<longrightarrow> fst (osa_worker_job_alloc st') = NULL)"
proof -
  have set: "job_slots.free_slots st = {i. i < OSA_JOB_POOL_SIZE \<and> slot_free st i}" for st
    by (simp add: job_slots.free_slots_def job_slot_used_def)
  have n: "g_job_pool_initialized st'" "distinct is" "set is \<subseteq> job_slots.free_slots st"
    "length is = min n (card (job_slots.free_slots st))"
    "job_slots.free_slots st' = job_slots.free_slots st - set is"
    using job_slots.alloc_n_distinct [OF assms] by auto
  have "fst (osa_worker_job_alloc st') = NULL" if "length is < n"
  proof -
    have "card (job_slots.free_slots st) = card (set is)"
      using that n(4) distinct_card [OF n(2)] by simp
    then have "set is = job_slots.free_slots st"
      by (intro card_subset_eq [OF _ n(3)]) simp_all
    then have "job_slots.free_slots st' = {}"
      using n(5) by simp
    with n(1) show ?thesis
      unfolding set osa_worker_job_alloc_def by (cases rule: job_pool_alloc_cases) auto
  qed
  then show ?thesis
    using n unfolding set by auto
qed

theorem job_pool_alloc_distinct_witness:
  "\<exists>is st'. job_slots.alloc_n 33 \<lparr>jobs = (\<lambda>_. zero_job\<lparr>job_state := OSA_JOB_COMPLETED\<rparr>),
      g_job_id_counter = 0, g_job_pool_initialized = True\<rparr> = (is, st') \<and>
    length is = 32 \<and> distinct is \<and> fst (osa_worker_job_alloc st') = NULL"
proof -
  let ?st = "\<lparr>jobs = (\<lambda>_. zero_job\<lparr>job_state := OSA_JOB_COMPLETED\<rparr>),
      g_job_id_counter = 0, g_job_pool_initialized = True\<rparr>"
  obtain "is" st' where run: "job_slots.alloc_n 33 ?st = (is, st')"
    by fastforce
  have "{i. i < OSA_JOB_POOL_SIZE \<and> slot_free ?st i} = {..<32}"
    by (auto simp: slot_free_def OSA_JOB_POOL_SIZE_def)
  with job_pool_alloc_distinct [OF _ run] run show ?thesis
    by auto
qed

end
