(* ===== verification/Osa_Sync.thy ===== *)
theory Osa_Sync
  imports Osa_Clock
begin

text \<open>
  Mutexes and counting semaphores of the Linux platform layer, \<^verbatim>\<open>platform/linux/osa_sync.c\<close>, with
  the POSIX objects they wrap: a default mutex is its owner, a semaphore its value. A handle is an
  optional object, \<open>None\<close> for NULL; the outcomes of \<^verbatim>\<open>calloc\<close>, \<^verbatim>\<open>pthread_mutex_init\<close> and
  \<^verbatim>\<open>clock_gettime\<close> are arguments. A wait that cannot proceed parks; \<open>sem_wake\<close> is its continuation.

  The lemmas give the exclusion contract \<open>mutex\<close> of the lock and the accounting of the semaphore
  as a pool of tokens, on every branch.
\<close>

section \<open>Mutex\<close>

record osa_mutex_internal =
  m_owner :: "nat option"

definition osa_mutex_create :: "bool \<Rightarrow> bool \<Rightarrow> int \<Rightarrow> int \<times> osa_mutex_internal option" where
  "osa_mutex_create mutex calloc_ok init_ret =
    (if \<not> mutex then (- EINVAL, None)
     else if \<not> calloc_ok then (- ENOMEM, None)
     else if init_ret \<noteq> 0 then (- init_ret, None)
     else (0, Some \<lparr>m_owner = None\<rparr>))"

definition osa_mutex_destroy :: "osa_mutex_internal option \<Rightarrow> osa_mutex_internal option" where
  "osa_mutex_destroy mutex = None"

text \<open>Thread \<open>t\<close> locks: a default mutex blocks its own owner too.\<close>

definition osa_mutex_lock :: "nat \<Rightarrow> osa_mutex_internal option \<Rightarrow> osa_mutex_internal option call" where
  "osa_mutex_lock t mutex =
    (case mutex of
       None \<Rightarrow> Return None
     | Some m \<Rightarrow> if m_owner m = None then Return (Some (m\<lparr>m_owner := Some t\<rparr>)) else Park Forever)"

definition osa_mutex_unlock :: "osa_mutex_internal option \<Rightarrow> osa_mutex_internal option" where
  "osa_mutex_unlock mutex = map_option (\<lambda>m. m\<lparr>m_owner := None\<rparr>) mutex"

definition osa_mutex_trylock ::
  "nat \<Rightarrow> osa_mutex_internal option \<Rightarrow> int \<times> osa_mutex_internal option" where
  "osa_mutex_trylock t mutex =
    (case mutex of
       None \<Rightarrow> (- EINVAL, None)
     | Some m \<Rightarrow> if m_owner m = None then (0, Some (m\<lparr>m_owner := Some t\<rparr>)) else (-1, Some m))"

section \<open>Semaphore\<close>

definition SEM_VALUE_MAX :: nat where
  "SEM_VALUE_MAX = 2147483647"

record osa_sem_internal =
  sem_value :: nat
  sem_max_count :: int

text \<open>\<^verbatim>\<open>sem_init\<close> takes the count as an unsigned int and refuses one above \<open>SEM_VALUE_MAX\<close>.\<close>

definition osa_sem_create :: "bool \<Rightarrow> int \<Rightarrow> int \<Rightarrow> bool \<Rightarrow> int \<times> osa_sem_internal option" where
  "osa_sem_create sem initial_count max_count calloc_ok =
    (if \<not> sem then (- EINVAL, None)
     else if \<not> calloc_ok then (- ENOMEM, None)
     else if SEM_VALUE_MAX < nat (initial_count mod 2 ^ 32) then (- EINVAL, None)
     else (0, Some \<lparr>sem_value = nat (initial_count mod 2 ^ 32), sem_max_count = max_count\<rparr>))"

definition osa_sem_destroy :: "osa_sem_internal option \<Rightarrow> osa_sem_internal option" where
  "osa_sem_destroy sem = None"

text \<open>The absolute deadline of the timed wait.\<close>

definition sem_deadline :: "timespec \<Rightarrow> int \<Rightarrow> timespec" where
  "sem_deadline ts timeout_ms =
    (let abs_timeout = \<lparr>tv_sec = tv_sec ts + timeout_ms sdiv 1000,
                        tv_nsec = tv_nsec ts + (timeout_ms smod 1000) * 1000000\<rparr>
     in if tv_nsec abs_timeout \<ge> 1000000000
        then abs_timeout\<lparr>tv_sec := tv_sec abs_timeout + 1,
                         tv_nsec := tv_nsec abs_timeout - 1000000000\<rparr>
        else abs_timeout)"

definition sem_take :: "osa_sem_internal \<Rightarrow> osa_sem_internal" where
  "sem_take s = s\<lparr>sem_value := sem_value s - 1\<rparr>"

definition osa_sem_wait ::
  "osa_sem_internal option \<Rightarrow> int \<Rightarrow> int + timespec \<Rightarrow> (int \<times> osa_sem_internal option) call" where
  "osa_sem_wait sem timeout_ms clock =
    (case sem of
       None \<Rightarrow> Return (- EINVAL, None)
     | Some s \<Rightarrow>
         if timeout_ms < 0 then
           (if 0 < sem_value s then Return (0, Some (sem_take s)) else Park Forever)
         else if timeout_ms = 0 then
           (if 0 < sem_value s then Return (0, Some (sem_take s)) else Return (- EAGAIN, sem))
         else
           (case clock of
              Inl e \<Rightarrow> Return (- e, sem)
            | Inr ts \<Rightarrow>
                if 0 < sem_value s then Return (0, Some (sem_take s))
                else Park (Until (sem_deadline ts timeout_ms))))"

text \<open>
  The end of a sleep: \<open>errno\<close> is 0 when the semaphore was posted, \<open>ETIMEDOUT\<close> at the deadline,
  \<open>EINTR\<close> when a signal handler interrupted the wait.
\<close>

definition sem_wake ::
  "wait_kind \<Rightarrow> int \<Rightarrow> osa_sem_internal \<Rightarrow> (int \<times> osa_sem_internal option) call" where
  "sem_wake k errno s =
    (if errno \<noteq> 0 then Return (- errno, Some s)
     else if 0 < sem_value s then Return (0, Some (sem_take s))
     else Park k)"

text \<open>The result of \<^verbatim>\<open>sem_post\<close>, which fails at \<open>SEM_VALUE_MAX\<close>, is ignored.\<close>

definition osa_sem_post :: "osa_sem_internal option \<Rightarrow> osa_sem_internal option" where
  "osa_sem_post sem =
    map_option (\<lambda>s. if sem_value s < SEM_VALUE_MAX then s\<lparr>sem_value := sem_value s + 1\<rparr> else s) sem"

definition osa_sem_get_count :: "osa_sem_internal option \<Rightarrow> int" where
  "osa_sem_get_count sem = (case sem of None \<Rightarrow> - EINVAL | Some s \<Rightarrow> int (sem_value s))"

section \<open>Lemmas\<close>

lemma sem_deadline_calc_timeout: "sem_deadline ts timeout_ms = calc_timeout ts timeout_ms"
  by (simp add: sem_deadline_def calc_timeout_def Let_def)

text \<open>The exclusion contract of a lock: who holds it, and that nobody else gets it meanwhile.\<close>

locale mutex =
  fixes holder :: "'m \<Rightarrow> nat option"
    and lock :: "nat \<Rightarrow> 'm \<Rightarrow> 'm call"
    and unlock :: "'m \<Rightarrow> 'm"
  assumes lock_free: "holder m = None \<Longrightarrow> \<exists>m'. lock t m = Return m' \<and> holder m' = Some t"
    and lock_held: "holder m = Some u \<Longrightarrow> lock t m = Park Forever"
    and unlock_free: "holder (unlock m) = None"
begin

lemma exclusion: "lock t m = Return m' \<Longrightarrow> lock u m' = Park Forever"
  using lock_free lock_held by (metis call.distinct(1) call.inject(1) option.exhaust)

lemma self_deadlock: "holder m = Some t \<Longrightarrow> lock t m = Park Forever"
  by (rule lock_held)

lemma handover: "\<exists>m'. lock u (unlock m) = Return m' \<and> holder m' = Some u"
  by (rule lock_free [OF unlock_free])

end

interpretation osa_mutex: mutex m_owner
  "\<lambda>t m. map_call the (osa_mutex_lock t (Some m))" "\<lambda>m. the (osa_mutex_unlock (Some m))"
  by unfold_locales (auto simp: osa_mutex_lock_def osa_mutex_unlock_def)

text \<open>A semaphore is a pool of tokens: posting adds one, a wait that returns 0 takes one.\<close>

lemma osa_sem_post_value:
  "sem_value s < SEM_VALUE_MAX \<Longrightarrow>
   osa_sem_post (Some s) = Some (s\<lparr>sem_value := sem_value s + 1\<rparr>)"
  by (simp add: osa_sem_post_def)

lemma osa_sem_wait_Return:
  "osa_sem_wait (Some s) timeout_ms clock = Return (r, s') \<Longrightarrow>
   (r = 0 \<and> 0 < sem_value s \<and> s' = Some (sem_take s)) \<or>
   (s' = Some s \<and> ((timeout_ms = 0 \<and> r = - EAGAIN \<and> sem_value s = 0) \<or> (\<exists>e. clock = Inl e \<and> 0 < timeout_ms \<and> r = - e)))"
  by (auto simp: osa_sem_wait_def split: if_splits sum.splits)

lemma osa_sem_wait_Park:
  "osa_sem_wait (Some s) timeout_ms clock = Park k \<Longrightarrow>
   sem_value s = 0 \<and> (k = Forever \<longleftrightarrow> timeout_ms < 0)"
  by (auto simp: osa_sem_wait_def split: if_splits sum.splits)

section \<open>Properties\<close>



text \<open>
  A semaphore counts tokens: a wait that returns 0 takes one and leaves the rest, any other
  return leaves the semaphore alone, a wait sleeps only when there is no token, and a post makes a
  sleeper's next turn succeed. (A failing \<^verbatim>\<open>clock_gettime\<close> has a non-zero error number.)
\<close>

theorem osa_sem_tokens:
  assumes "clock \<noteq> Inl 0"
  shows "(case osa_sem_wait (Some s) timeout_ms clock of
      Return (r, s') \<Rightarrow>
        (if r = 0 \<and> 0 < sem_value s then s' = Some (s\<lparr>sem_value := sem_value s - 1\<rparr>) else s' = Some s) \<and>
        (sem_value s = 0 \<longrightarrow> timeout_ms = 0 \<and> r = - EAGAIN \<or> (\<exists>e. clock = Inl e \<and> r = - e))
    | Park k \<Rightarrow> sem_value s = 0 \<and> timeout_ms \<noteq> 0 \<and> (k = Forever \<longleftrightarrow> timeout_ms < 0)) \<and>
   (sem_value s < SEM_VALUE_MAX \<longrightarrow>
     (\<exists>s1. osa_sem_post (Some s) = Some s1 \<and> sem_wake k 0 s1 = Return (0, Some s)))"
  using assms
  by (auto simp: osa_sem_wait_def sem_take_def sem_wake_def osa_sem_post_def c_consts
      split: sum.splits if_splits)

theorem osa_sem_tokens_witness:
  "\<exists>s1. osa_sem_post (Some \<lparr>sem_value = 0, sem_max_count = 4\<rparr>) = Some s1 \<and>
    sem_wake Forever 0 s1 = Return (0, Some \<lparr>sem_value = 0, sem_max_count = 4\<rparr>)"
  using osa_sem_tokens [of "Inl 1" "\<lparr>sem_value = 0, sem_max_count = 4\<rparr>" 0 Forever]
  by (simp add: SEM_VALUE_MAX_def)

text \<open>
  The maximum of a semaphore is stored and never looked at: posts go on beyond it.
\<close>

theorem osa_sem_max_ignored:
  "\<exists>s. osa_sem_create True 1 1 True = (0, Some s) \<and> sem_max_count s = 1 \<and>
    osa_sem_get_count (osa_sem_post (osa_sem_post (Some s))) = 3"
  by (simp add: osa_sem_create_def osa_sem_post_def osa_sem_get_count_def SEM_VALUE_MAX_def)

end
