(* ===== verification/Osa_Worker.thy ===== *)
theory Osa_Worker
  imports Job_Pool Osa_Sync Osa_Hsm
begin

text \<open>
  The worker pool, \<^verbatim>\<open>core/osa_worker.c\<close>: a queue of jobs, doubly linked through the job objects, a
  mutex, a semaphore of work and one of completions, and worker threads.

  \<open>worker_state\<close> holds the pool object and the jobs (\<^verbatim>\<open>Job_Pool\<close>). A section of the code between
  \<^verbatim>\<open>osa_mutex_lock(pool->lock)\<close> and its unlock is a body (\<open>submit_body\<close>, \<open>fetch_body\<close>, \<open>complete_body\<close>,
  \<open>cancel_body\<close>), run by \<open>with_lock\<close>, which parks when the lock is taken. The worker thread is split
  at its blocking points: the wait for work is \<^verbatim>\<open>osa_sem_wait\<close>, then \<open>worker_fetch\<close>, then the job
  function, whose result \<open>job_executed\<close> stores, then \<open>worker_complete\<close>. Job functions and completion
  callbacks are code of the application: a job function is seen by its result, a callback as a
  transformation of the jobs and the target machines. The walk of \<^verbatim>\<open>osa_worker_pool_cancel\<close> along
  the queue is a \<open>partial_function\<close>: \<open>None\<close> is a walk that never ends. A destroyed handle is \<open>None\<close>.
\<close>

section \<open>Data\<close>

definition OSA_WORKER_POOL_DEFAULT_WORKERS :: uint32 where [c_consts]: "OSA_WORKER_POOL_DEFAULT_WORKERS = 4"
definition OSA_WORKER_POOL_MAX_WORKERS :: uint32 where [c_consts]: "OSA_WORKER_POOL_MAX_WORKERS = 16"
definition OSA_WORKER_POOL_QUEUE_SIZE :: uint32 where [c_consts]: "OSA_WORKER_POOL_QUEUE_SIZE = 64"
definition OSA_WORKER_POOL_STACK_SIZE :: int where [c_consts]: "OSA_WORKER_POOL_STACK_SIZE = 1024 * 8"
definition OSA_WORKER_POOL_PRIORITY :: int where [c_consts]: "OSA_WORKER_POOL_PRIORITY = 5"

record osa_worker_pool_stats =
  total_submitted :: uint32
  total_completed :: uint32
  total_cancelled :: uint32
  total_errors :: uint32
  queue_depth :: uint32
  active_workers :: uint32

text \<open>The array of worker handles: \<open>None\<close> for NULL, an entry \<open>None\<close> while it is uninitialised.\<close>

record osa_worker_pool =
  wp_name :: "string option"
  wp_workers :: "ptr option list option"
  wp_completion_thread :: ptr
  wp_lock :: "osa_mutex_internal option"
  wp_work_sem :: "osa_sem_internal option"
  wp_complete_sem :: "osa_sem_internal option"
  job_queue_head :: ptr
  job_queue_tail :: ptr
  free_list :: ptr
  num_workers :: uint32
  queue_size :: uint32
  shutdown :: bool
  stats :: osa_worker_pool_stats

record worker_state =
  ws_pool :: osa_worker_pool
  ws_store :: job_store

abbreviation upd_pool :: "(osa_worker_pool \<Rightarrow> osa_worker_pool) \<Rightarrow> worker_state \<Rightarrow> worker_state" where
  "upd_pool f ws \<equiv> ws\<lparr>ws_pool := f (ws_pool ws)\<rparr>"

abbreviation upd_stats ::
  "(osa_worker_pool_stats \<Rightarrow> osa_worker_pool_stats) \<Rightarrow> osa_worker_pool \<Rightarrow> osa_worker_pool" where
  "upd_stats f pool \<equiv> pool\<lparr>stats := f (stats pool)\<rparr>"

definition zero_stats :: osa_worker_pool_stats where
  "zero_stats = \<lparr>total_submitted = 0, total_completed = 0, total_cancelled = 0, total_errors = 0,
     queue_depth = 0, active_workers = 0\<rparr>"

definition zero_pool :: osa_worker_pool where
  "zero_pool = \<lparr>wp_name = None, wp_workers = None, wp_completion_thread = NULL, wp_lock = None,
     wp_work_sem = None, wp_complete_sem = None, job_queue_head = NULL, job_queue_tail = NULL,
     free_list = NULL, num_workers = 0, queue_size = 0, shutdown = False, stats = zero_stats\<rparr>"

section \<open>The lock\<close>

definition acquire :: "nat \<Rightarrow> worker_state \<Rightarrow> worker_state call" where
  "acquire t ws = map_call (\<lambda>l. upd_pool (\<lambda>p. p\<lparr>wp_lock := l\<rparr>) ws) (osa_mutex_lock t (wp_lock (ws_pool ws)))"

definition release :: "worker_state \<Rightarrow> worker_state" where
  "release ws = upd_pool (\<lambda>p. p\<lparr>wp_lock := osa_mutex_unlock (wp_lock p)\<rparr>) ws"

definition with_lock ::
  "nat \<Rightarrow> (worker_state \<Rightarrow> 'r \<times> worker_state) \<Rightarrow> worker_state \<Rightarrow> ('r \<times> worker_state) call" where
  "with_lock t body ws =
    (case acquire t ws of
       Park k \<Rightarrow> Park k
     | Return ws1 \<Rightarrow> (case body ws1 of (r, ws2) \<Rightarrow> Return (r, release ws2)))"

section \<open>Initialisation and start\<close>

text \<open>
  The outcomes of the allocations are arguments: \<open>dup\<close> of \<^verbatim>\<open>strdup\<close>, \<open>mtx\<close> and \<open>mtx_init\<close> of the mutex,
  \<open>sem1\<close> and \<open>sem2\<close> of the two semaphores, \<open>arr\<close> of the array.
\<close>

definition osa_worker_pool_init ::
  "bool \<Rightarrow> osa_worker_pool \<Rightarrow> string option \<Rightarrow> uint32 \<Rightarrow> uint32 \<Rightarrow>
   bool \<Rightarrow> bool \<Rightarrow> int \<Rightarrow> bool \<Rightarrow> bool \<Rightarrow> bool \<Rightarrow> int \<times> osa_worker_pool" where
  "osa_worker_pool_init pool_ok pool name n_workers q_size dup mtx mtx_init sem1 sem2 arr =
    (if \<not> pool_ok then (-1, pool)
     else
       let p0 = zero_pool;
           p1 = p0\<lparr>num_workers := (if n_workers = 0 then OSA_WORKER_POOL_DEFAULT_WORKERS else n_workers)\<rparr>;
           p2 = p1\<lparr>queue_size := (if q_size = 0 then OSA_WORKER_POOL_QUEUE_SIZE else q_size)\<rparr>;
           p3 = (if num_workers p2 > OSA_WORKER_POOL_MAX_WORKERS
                 then p2\<lparr>num_workers := OSA_WORKER_POOL_MAX_WORKERS\<rparr> else p2);
           p4 = p3\<lparr>wp_name := (if dup then Some (case name of Some nm \<Rightarrow> nm | None \<Rightarrow> ''wp'') else None)\<rparr>;
           (r1, l) = osa_mutex_create True mtx mtx_init
       in if r1 \<noteq> 0 then (-1, p4)
          else
            let p5 = p4\<lparr>wp_lock := l\<rparr>;
                (r2, s1) = osa_sem_create True 0 (sint (queue_size p5)) sem1
            in if r2 \<noteq> 0 then (-1, p5\<lparr>wp_lock := osa_mutex_destroy (wp_lock p5)\<rparr>)
               else
                 let p6 = p5\<lparr>wp_work_sem := s1\<rparr>;
                     (r3, s2) = osa_sem_create True 0 (sint (queue_size p6)) sem2
                 in if r3 \<noteq> 0
                    then (-1, p6\<lparr>wp_work_sem := osa_sem_destroy (wp_work_sem p6),
                                 wp_lock := osa_mutex_destroy (wp_lock p6)\<rparr>)
                    else
                      let p7 = p6\<lparr>wp_complete_sem := s2\<rparr>
                      in if \<not> arr
                         then (-1, p7\<lparr>wp_complete_sem := osa_sem_destroy (wp_complete_sem p7),
                                      wp_work_sem := osa_sem_destroy (wp_work_sem p7),
                                      wp_lock := osa_mutex_destroy (wp_lock p7)\<rparr>)
                         else (0, p7\<lparr>wp_workers := Some (replicate (unat (num_workers p7)) None),
                                     shutdown := False\<rparr>))"

text \<open>
  The loop that creates the workers, from index \<open>i\<close> for \<open>k\<close> more: \<open>calloc_t i\<close> and \<open>pc i\<close> are the
  outcomes of the \<open>i\<close>-th creation, \<open>fn\<close> and \<open>self\<close> the addresses of the thread function and the pool.
\<close>

fun start_workers ::
  "osa_thread_param \<Rightarrow> ptr \<Rightarrow> ptr \<Rightarrow> (nat \<Rightarrow> ptr) \<Rightarrow> (nat \<Rightarrow> thread_attr \<Rightarrow> ptr \<Rightarrow> ptr \<Rightarrow> int + nat) \<Rightarrow>
   nat \<Rightarrow> nat \<Rightarrow> ptr option list \<Rightarrow> thread_sys \<Rightarrow> int \<times> ptr option list \<times> thread_sys" where
  "start_workers param fn self calloc_t pc i 0 ws sys = (0, ws, sys)"
| "start_workers param fn self calloc_t pc i (Suc k) ws sys =
    (case osa_thread_create sys True (Some param) fn self (calloc_t i) (pc i) of
       (ret, t, sys') \<Rightarrow>
         if ret \<noteq> 0 then (-1, ws, sys')
         else start_workers param fn self calloc_t pc (Suc i) k (ws[i := t]) sys')"

definition osa_worker_pool_start ::
  "bool \<Rightarrow> ptr \<Rightarrow> ptr \<Rightarrow> ptr \<Rightarrow> (nat \<Rightarrow> ptr) \<Rightarrow> (nat \<Rightarrow> thread_attr \<Rightarrow> ptr \<Rightarrow> ptr \<Rightarrow> int + nat) \<Rightarrow>
   osa_worker_pool \<Rightarrow> thread_sys \<Rightarrow> int \<times> osa_worker_pool \<times> thread_sys" where
  "osa_worker_pool_start pool_ok worker_fn completion_fn self calloc_t pc pool sys =
    (if \<not> pool_ok then (-1, pool, sys)
     else case wp_workers pool of
       None \<Rightarrow> (-1, pool, sys)
     | Some ws \<Rightarrow>
         let param = \<lparr>tp_name = wp_name pool, tp_stack_size = OSA_WORKER_POOL_STACK_SIZE,
                      tp_priority = OSA_WORKER_POOL_PRIORITY, tp_stack_buf = NULL\<rparr>;
             n = unat (num_workers pool)
         in case start_workers param worker_fn self calloc_t pc 0 n ws sys of
              (ret, ws', sys') \<Rightarrow>
                let pool' = pool\<lparr>wp_workers := Some ws'\<rparr>
                in if ret \<noteq> 0 then (-1, pool', sys')
                   else (case osa_thread_create sys' True (Some param) completion_fn self (calloc_t n) (pc n) of
                           (ret2, t, sys'') \<Rightarrow>
                             (0, (case t of Some h \<Rightarrow> pool'\<lparr>wp_completion_thread := h\<rparr> | None \<Rightarrow> pool'), sys'')))"

section \<open>Submitting\<close>

definition submit_body :: "ptr \<Rightarrow> worker_state \<Rightarrow> int \<times> worker_state" where
  "submit_body job ws =
    (let pool = ws_pool ws; st = ws_store ws
     in if queue_depth (stats pool) \<ge> queue_size pool then (-1, ws)
        else
          let st1 = (if job_id (jobs st job) = 0
                     then (case get_next_job_id st of (n, st') \<Rightarrow> upd_job job (\<lambda>j. j\<lparr>job_id := n\<rparr>) st')
                     else st);
              st2 = upd_job job (\<lambda>j. j\<lparr>job_state := OSA_JOB_PENDING, job_next := NULL, job_prev := NULL\<rparr>) st1;
              (pool1, st3) =
                (if job_queue_tail pool = NULL
                 then (pool\<lparr>job_queue_head := job, job_queue_tail := job\<rparr>, st2)
                 else (pool\<lparr>job_queue_tail := job\<rparr>,
                       upd_job job (\<lambda>j. j\<lparr>job_prev := job_queue_tail pool\<rparr>)
                         (upd_job (job_queue_tail pool) (\<lambda>j. j\<lparr>job_next := job\<rparr>) st2)));
              pool2 = upd_stats (\<lambda>s. s\<lparr>queue_depth := queue_depth s + 1,
                                       total_submitted := total_submitted s + 1\<rparr>) pool1;
              pool3 = pool2\<lparr>wp_work_sem := osa_sem_post (wp_work_sem pool2)\<rparr>
          in (0, \<lparr>ws_pool = pool3, ws_store = st3\<rparr>))"

definition osa_worker_pool_submit ::
  "nat \<Rightarrow> bool \<Rightarrow> ptr \<Rightarrow> worker_state \<Rightarrow> (int \<times> worker_state) call" where
  "osa_worker_pool_submit t pool_ok job ws =
    (if \<not> pool_ok \<or> job = NULL then Return (-1, ws) else with_lock t (submit_body job) ws)"

definition osa_worker_pool_submit_to_hsm ::
  "nat \<Rightarrow> bool \<Rightarrow> ptr \<Rightarrow> ptr \<Rightarrow> int \<Rightarrow> worker_state \<Rightarrow> (int \<times> worker_state) call" where
  "osa_worker_pool_submit_to_hsm t pool_ok job hsm signal ws =
    (if job = NULL then Return (-1, ws)
     else osa_worker_pool_submit t pool_ok job
       (ws\<lparr>ws_store := upd_job job (\<lambda>j. j\<lparr>target_hsm := hsm, completion_signal := signal\<rparr>) (ws_store ws)\<rparr>))"

section \<open>The worker thread\<close>

datatype fetch_result = Fetch_exit | Fetch_none | Fetch_job ptr

definition fetch_body :: "worker_state \<Rightarrow> fetch_result \<times> worker_state" where
  "fetch_body ws =
    (let pool = ws_pool ws; st = ws_store ws
     in if shutdown pool then (Fetch_exit, ws)
        else
          let job = job_queue_head pool
          in if job \<noteq> NULL
             then
               let pool1 = pool\<lparr>job_queue_head := job_next (jobs st job)\<rparr>;
                   pool2 = (if job_queue_head pool1 = NULL then pool1\<lparr>job_queue_tail := NULL\<rparr> else pool1);
                   st1 = upd_job job (\<lambda>j. j\<lparr>job_next := NULL, job_prev := NULL, job_state := OSA_JOB_RUNNING\<rparr>) st;
                   pool3 = upd_stats (\<lambda>s. s\<lparr>active_workers := active_workers s + 1,
                                            queue_depth := queue_depth s - 1\<rparr>) pool2
               in (Fetch_job job, \<lparr>ws_pool = pool3, ws_store = st1\<rparr>)
             else (Fetch_none, ws))"

definition worker_fetch :: "nat \<Rightarrow> worker_state \<Rightarrow> (fetch_result \<times> worker_state) call" where
  "worker_fetch t ws = with_lock t fetch_body ws"

text \<open>The job function returned \<open>ret\<close>; a job without a function has the result -1.\<close>

definition job_executed :: "ptr \<Rightarrow> int \<Rightarrow> worker_state \<Rightarrow> worker_state" where
  "job_executed job ret ws =
    ws\<lparr>ws_store := upd_job job (\<lambda>j. j\<lparr>job_result := (if job_func j \<noteq> NULL then ret else -1)\<rparr>) (ws_store ws)\<rparr>"

type_synonym hsm_table = "ptr \<Rightarrow> osa_hsm_active"
type_synonym callback = "ptr \<Rightarrow> ptr \<Rightarrow> int \<Rightarrow> ptr \<Rightarrow> job_store \<times> hsm_table \<Rightarrow> job_store \<times> hsm_table"

definition sizeof_osa_worker_job :: int where
  "sizeof_osa_worker_job = 72"

definition completion_event :: "ptr \<Rightarrow> osa_worker_job \<Rightarrow> hsm_event" where
  "completion_event job j =
    \<lparr>ev_signal = completion_signal j, ev_data = job, ev_size = sizeof_osa_worker_job\<rparr>"

definition complete_body ::
  "callback \<Rightarrow> (nat \<Rightarrow> byte) \<Rightarrow> timespec \<Rightarrow> ptr \<Rightarrow> hsm_table \<Rightarrow> worker_state \<Rightarrow> hsm_table \<times> worker_state" where
  "complete_body cb pad now job hsms ws =
    (let st1 = upd_job job (\<lambda>j. j\<lparr>job_state := (if job_result j < 0 then OSA_JOB_ERROR else OSA_JOB_COMPLETED)\<rparr>)
                 (ws_store ws);
         pool1 = upd_stats (\<lambda>s. s\<lparr>active_workers := active_workers s - 1\<rparr>) (ws_pool ws);
         pool2 = (if job_state (jobs st1 job) = OSA_JOB_ERROR
                  then upd_stats (\<lambda>s. s\<lparr>total_errors := total_errors s + 1\<rparr>) pool1
                  else upd_stats (\<lambda>s. s\<lparr>total_completed := total_completed s + 1\<rparr>) pool1);
         j1 = jobs st1 job;
         (st2, hsms2) = (if complete_cb j1 \<noteq> NULL
                         then cb (complete_cb j1) job (job_result j1) (complete_ctx j1) (st1, hsms)
                         else (st1, hsms));
         j2 = jobs st2 job;
         hsms3 = (if target_hsm j2 \<noteq> NULL
                  then (case post_now pad (completion_event job j2) now (Some (hsms2 (target_hsm j2))) of
                          (_, Some h) \<Rightarrow> hsms2(target_hsm j2 := h)
                        | (_, None) \<Rightarrow> hsms2)
                  else hsms2);
         pool3 = pool2\<lparr>wp_complete_sem := osa_sem_post (wp_complete_sem pool2)\<rparr>
     in (hsms3, \<lparr>ws_pool = pool3, ws_store = st2\<rparr>))"

definition worker_complete ::
  "nat \<Rightarrow> callback \<Rightarrow> (nat \<Rightarrow> byte) \<Rightarrow> timespec \<Rightarrow> ptr \<Rightarrow> hsm_table \<Rightarrow> worker_state \<Rightarrow>
   (hsm_table \<times> worker_state) call" where
  "worker_complete t cb pad now job hsms ws = with_lock t (complete_body cb pad now job hsms) ws"

text \<open>The test of the loop of the completion thread, which otherwise only sleeps.\<close>

definition osa_worker_completion_thread :: "worker_state \<Rightarrow> bool" where
  "osa_worker_completion_thread ws \<longleftrightarrow> \<not> shutdown (ws_pool ws)"

section \<open>Cancelling\<close>

partial_function (option) find_job :: "job_store \<Rightarrow> uint32 \<Rightarrow> ptr \<Rightarrow> ptr option" where
  "find_job st n job =
    (if job = NULL then Some NULL
     else if job_id (jobs st job) = n then Some job
     else find_job st n (job_next (jobs st job)))"

definition unlink_job :: "ptr \<Rightarrow> worker_state \<Rightarrow> worker_state" where
  "unlink_job job ws =
    (let pool = ws_pool ws; st = ws_store ws; j = jobs st job;
         (pool1, st1) = (if job_prev j \<noteq> NULL
                         then (pool, upd_job (job_prev j) (\<lambda>k. k\<lparr>job_next := job_next j\<rparr>) st)
                         else (pool\<lparr>job_queue_head := job_next j\<rparr>, st));
         j1 = jobs st1 job;
         (pool2, st2) = (if job_next j1 \<noteq> NULL
                         then (pool1, upd_job (job_next j1) (\<lambda>k. k\<lparr>job_prev := job_prev j1\<rparr>) st1)
                         else (pool1\<lparr>job_queue_tail := job_prev j1\<rparr>, st1));
         st3 = upd_job job (\<lambda>k. k\<lparr>job_state := OSA_JOB_CANCELLED\<rparr>) st2;
         pool3 = upd_stats (\<lambda>s. s\<lparr>queue_depth := queue_depth s - 1,
                                  total_cancelled := total_cancelled s + 1\<rparr>) pool2
     in \<lparr>ws_pool = pool3, ws_store = st3\<rparr>)"

definition cancel_body :: "uint32 \<Rightarrow> worker_state \<Rightarrow> (int \<times> worker_state) option" where
  "cancel_body n ws =
    (case find_job (ws_store ws) n (job_queue_head (ws_pool ws)) of
       None \<Rightarrow> None
     | Some job \<Rightarrow> if job \<noteq> NULL then Some (0, unlink_job job ws) else Some (-1, ws))"

definition osa_worker_pool_cancel ::
  "nat \<Rightarrow> bool \<Rightarrow> uint32 \<Rightarrow> worker_state \<Rightarrow> (int \<times> worker_state) call option" where
  "osa_worker_pool_cancel t pool_ok n ws =
    (if \<not> pool_ok then Some (Return (-1, ws))
     else case acquire t ws of
       Park k \<Rightarrow> Some (Park k)
     | Return ws1 \<Rightarrow>
         (case cancel_body n ws1 of
            None \<Rightarrow> None
          | Some (r, ws2) \<Rightarrow> Some (Return (r, release ws2))))"

section \<open>Statistics and waiting\<close>

definition osa_worker_pool_get_stats ::
  "nat \<Rightarrow> bool \<Rightarrow> bool \<Rightarrow> worker_state \<Rightarrow> ((int \<times> osa_worker_pool_stats option) \<times> worker_state) call" where
  "osa_worker_pool_get_stats t pool_ok stats_ok ws =
    (if \<not> pool_ok \<or> \<not> stats_ok then Return ((-1, None), ws)
     else with_lock t (\<lambda>ws. ((0, Some (stats (ws_pool ws))), ws)) ws)"

text \<open>The result of the wait on \<^verbatim>\<open>complete_sem\<close>, as the call reports it.\<close>

definition wait_result_of :: "int \<Rightarrow> int \<Rightarrow> int" where
  "wait_result_of timeout_ms ret =
    (if timeout_ms < 0 then (if ret \<noteq> 0 then -1 else ret)
     else (if ret = - ETIMEDOUT then -1 else ret))"

definition osa_worker_pool_wait ::
  "nat \<Rightarrow> bool \<Rightarrow> ptr \<Rightarrow> int \<Rightarrow> int + timespec \<Rightarrow> worker_state \<Rightarrow> (int \<times> worker_state) call" where
  "osa_worker_pool_wait t pool_ok job timeout_ms clock ws =
    (if \<not> pool_ok \<or> job = NULL then Return (-1, ws)
     else if timeout_ms = 0
     then with_lock t (\<lambda>ws.
            (if job_state (jobs (ws_store ws) job) \<noteq> OSA_JOB_COMPLETED \<and>
                job_state (jobs (ws_store ws) job) \<noteq> OSA_JOB_CANCELLED then -1 else 0, ws)) ws
     else (case with_lock t (\<lambda>ws. ((), ws)) ws of
             Park k \<Rightarrow> Park k
           | Return (_, ws1) \<Rightarrow>
               (case osa_sem_wait (wp_complete_sem (ws_pool ws1)) timeout_ms clock of
                  Park k \<Rightarrow> Park k
                | Return (ret, s) \<Rightarrow>
                    Return (wait_result_of timeout_ms ret,
                      upd_pool (\<lambda>p. p\<lparr>wp_complete_sem := s\<rparr>) ws1))))"

section \<open>Stopping\<close>

definition stop_signal :: "nat \<Rightarrow> worker_state \<Rightarrow> worker_state call" where
  "stop_signal t ws =
    map_call snd (with_lock t (\<lambda>ws. ((), upd_pool (\<lambda>p. p\<lparr>shutdown := True\<rparr>) ws)) ws)"

definition stop_post :: "worker_state \<Rightarrow> worker_state" where
  "stop_post ws = upd_pool (\<lambda>p. p\<lparr>wp_work_sem := osa_sem_post (wp_work_sem p)\<rparr>) ws"

text \<open>The joins in order; \<open>None\<close> is a join of an uninitialised or dead handle.\<close>

fun join_all :: "ptr option list \<Rightarrow> thread_sys \<Rightarrow> thread_sys call option" where
  "join_all [] sys = Some (Return sys)"
| "join_all (None # hs) sys = None"
| "join_all (Some h # hs) sys =
    (case osa_thread_join sys h of
       None \<Rightarrow> None
     | Some (Park k) \<Rightarrow> Some (Park k)
     | Some (Return (_, sys')) \<Rightarrow> join_all hs sys')"

definition stop_join :: "worker_state \<Rightarrow> thread_sys \<Rightarrow> (worker_state \<times> thread_sys) call option" where
  "stop_join ws sys =
    (let pool = ws_pool ws
     in case (case wp_workers pool of
                None \<Rightarrow> if num_workers pool = 0 then Some [] else None
              | Some hs \<Rightarrow> Some (take (unat (num_workers pool)) hs)) of
          None \<Rightarrow> None
        | Some hs \<Rightarrow>
            (case join_all (hs @ [Some (wp_completion_thread pool)]) sys of
               None \<Rightarrow> None
             | Some (Park k) \<Rightarrow> Some (Park k)
             | Some (Return sys') \<Rightarrow>
                 Some (Return (upd_pool (\<lambda>p. p\<lparr>wp_workers := None,
                     wp_complete_sem := osa_sem_destroy (wp_complete_sem p),
                     wp_work_sem := osa_sem_destroy (wp_work_sem p),
                     wp_lock := osa_mutex_destroy (wp_lock p), wp_name := None\<rparr>) ws, sys'))))"

text \<open>
  The whole call; when it parks in a join the shutdown flag is set and the posts are done (the
  interleaving with the workers is the subject of \<^verbatim>\<open>Worker_Threads\<close>, step by step).
\<close>

definition osa_worker_pool_stop ::
  "nat \<Rightarrow> bool \<Rightarrow> worker_state \<Rightarrow> thread_sys \<Rightarrow> (int \<times> worker_state \<times> thread_sys) call option" where
  "osa_worker_pool_stop t pool_ok ws sys =
    (if \<not> pool_ok then Some (Return (-1, ws, sys))
     else case stop_signal t ws of
       Park k \<Rightarrow> Some (Park k)
     | Return ws1 \<Rightarrow>
         map_option (map_call (\<lambda>(ws2, sys'). (0, ws2, sys')))
           (stop_join ((stop_post ^^ unat (num_workers (ws_pool ws1))) ws1) sys))"

section \<open>Properties\<close>

text \<open>
  Initialisation of a pool: it returns 0 exactly when every primitive could be created and -1
  otherwise; then the pool has between 1 and 16 workers (4 by default), a non-zero queue size (64 by
  default), an empty queue, a free lock, no token in either semaphore and zero statistics. After a
  failure there is no worker array, so a start is refused.
\<close>

theorem osa_worker_pool_init_spec:
  assumes "osa_worker_pool_init pool_ok p0 name n q dup mtx mi sem1 sem2 arr = (r, pool)"
  shows "(r = 0 \<longleftrightarrow> pool_ok \<and> mtx \<and> mi = 0 \<and> sem1 \<and> sem2 \<and> arr) \<and> (r \<noteq> 0 \<longrightarrow> r = -1) \<and>
    (r \<noteq> 0 \<and> pool_ok \<longrightarrow> fst (osa_worker_pool_start True wfn cfn self ct pc pool sys) = -1) \<and>
    (r = 0 \<longrightarrow> num_workers pool = (if n = 0 then 4 else if n > 16 then 16 else n) \<and>
       1 \<le> unat (num_workers pool) \<and> unat (num_workers pool) \<le> 16 \<and>
       queue_size pool = (if q = 0 then 64 else q) \<and> queue_size pool \<noteq> 0 \<and>
       job_queue_head pool = NULL \<and> job_queue_tail pool = NULL \<and> stats pool = zero_stats \<and>
       \<not> shutdown pool \<and> wp_lock pool = Some \<lparr>m_owner = None\<rparr> \<and>
       map_option sem_value (wp_work_sem pool) = Some 0 \<and> map_option sem_value (wp_complete_sem pool) = Some 0 \<and>
       wp_workers pool = Some (replicate (unat (num_workers pool)) None))"
proof -
  have pos: "1 \<le> unat n" if "n \<noteq> 0"
    using that by (simp add: unat_eq_zero Suc_le_eq unat_gt_0)
  have le: "unat n \<le> 16" if "\<not> 16 < n"
    using that by (simp add: word_less_nat_alt)
  show ?thesis
    using assms pos le
    by (auto simp: osa_worker_pool_init_def Let_def osa_mutex_create_def osa_sem_create_def zero_pool_def
        osa_worker_pool_start_def osa_mutex_destroy_def osa_sem_destroy_def c_consts SEM_VALUE_MAX_def
        split: if_splits)
qed

theorem osa_worker_pool_init_spec_witness:
  "\<exists>pool. osa_worker_pool_init True zero_pool None 100 0 True True 0 True True True = (0, pool) \<and>
    num_workers pool = 16 \<and> queue_size pool = 64"
proof -
  obtain r pool where p: "osa_worker_pool_init True zero_pool None 100 0 True True 0 True True True = (r, pool)"
    by fastforce
  from osa_worker_pool_init_spec [OF p, of 1 1 1 "\<lambda>_. 1" "\<lambda>_ _ _ _. Inr 0" "\<lparr>th_handles = Map.empty, th_terminated = (\<lambda>_. False)\<rparr>"]
  have "r = 0" and "num_workers pool = 16 \<and> queue_size pool = 64"
    by simp_all
  with p show ?thesis by simp
qed

text \<open>The event that a completion without a callback posts to its target machine.\<close>

lemma complete_body_posts:
  assumes "complete_cb (jobs (ws_store ws) job) = NULL"
    and "complete_body cb pad now job hsms ws = (hsms', ws')"
  defines "j \<equiv> jobs (ws_store ws) job"
  defines "e \<equiv> \<lparr>ev_signal = completion_signal j, ev_data = job, ev_size = sizeof_osa_worker_job\<rparr>"
  shows "hsms' = (if target_hsm j \<noteq> NULL
      then (case post_now pad e now (Some (hsms (target_hsm j))) of
              (_, Some h) \<Rightarrow> hsms(target_hsm j := h) | (_, None) \<Rightarrow> hsms) else hsms)"
  using assms by (auto simp: complete_body_def completion_event_def Let_def)

lemma complete_body_delivers:
  assumes "complete_cb (jobs (ws_store ws) job) = NULL"
    and "complete_body cb pad now job hsms ws = (hsms', ws')"
  defines "j \<equiv> jobs (ws_store ws) job"
  assumes "target_hsm j \<noteq> NULL" and run: "hsm_running (hsms (target_hsm j))"
    and "c_int (completion_signal j)" and "job < 2 ^ 64"
    and room: "length (hsm_pending (hsms (target_hsm j))) < hsm_queue_cap (hsms (target_hsm j))"
  obtains q where "hsms' = hsms(target_hsm j := (hsms (target_hsm j))\<lparr>msg_q := Some q\<rparr>)"
    "hsm_running (hsms' (target_hsm j))"
    "map bytes_event (hsm_pending (hsms' (target_hsm j))) =
      map bytes_event (hsm_pending (hsms (target_hsm j))) @
      [\<lparr>ev_signal = completion_signal j, ev_data = job, ev_size = sizeof_osa_worker_job\<rparr>]"
proof -
  let ?e = "\<lparr>ev_signal = completion_signal j, ev_data = job, ev_size = sizeof_osa_worker_job\<rparr>"
  have "valid_event ?e"
    using assms(6,7) by (simp add: valid_event_def sizeof_osa_worker_job_def c_int_def)
  note r = bytes_event_bytes [OF this]
  obtain q where "post_now pad ?e now (Some (hsms (target_hsm j))) = (0, Some ((hsms (target_hsm j))\<lparr>msg_q := Some q\<rparr>))"
    "hsm_running ((hsms (target_hsm j))\<lparr>msg_q := Some q\<rparr>)"
    "hsm_pending ((hsms (target_hsm j))\<lparr>msg_q := Some q\<rparr>) = hsm_pending (hsms (target_hsm j)) @ [event_bytes pad ?e]"
    by (rule post_now_room [OF run room])
  then show ?thesis
    using complete_body_posts [OF assms(1,2)] assms(4) r unfolding j_def [symmetric]
    by (intro that [of q]) simp_all
qed

text \<open>
  C32. What the completion of a job does, without a callback: a negative result makes the job an error
  and any other a completion, with exactly the matching counter advanced and one worker less active;
  one token goes to the completion semaphore; and the target machine, if its queue has room, gets the
  completion signal with the job as data as its last pending event.
\<close>

theorem worker_completion:
  assumes "complete_cb (jobs (ws_store ws) job) = NULL"
    and "complete_body cb pad now job hsms ws = (hsms', ws')"
    and "wp_complete_sem (ws_pool ws) = Some sem" and "sem_value sem < SEM_VALUE_MAX"
  defines "j \<equiv> jobs (ws_store ws) job"
  shows "job_state (jobs (ws_store ws') job) = (if job_result j < 0 then OSA_JOB_ERROR else OSA_JOB_COMPLETED) \<and>
    total_errors (stats (ws_pool ws')) = total_errors (stats (ws_pool ws)) + (if job_result j < 0 then 1 else 0) \<and>
    total_completed (stats (ws_pool ws')) = total_completed (stats (ws_pool ws)) + (if job_result j < 0 then 0 else 1) \<and>
    active_workers (stats (ws_pool ws')) = active_workers (stats (ws_pool ws)) - 1 \<and>
    wp_complete_sem (ws_pool ws') = Some (sem\<lparr>sem_value := sem_value sem + 1\<rparr>) \<and>
    (target_hsm j \<noteq> NULL \<and> hsm_running (hsms (target_hsm j)) \<and> c_int (completion_signal j) \<and> job < 2 ^ 64 \<and>
       length (hsm_pending (hsms (target_hsm j))) < hsm_queue_cap (hsms (target_hsm j)) \<longrightarrow>
     map bytes_event (hsm_pending (hsms' (target_hsm j))) =
       map bytes_event (hsm_pending (hsms (target_hsm j))) @
       [\<lparr>ev_signal = completion_signal j, ev_data = job, ev_size = sizeof_osa_worker_job\<rparr>]) \<and>
    (\<forall>p. p \<noteq> target_hsm j \<longrightarrow> hsms' p = hsms p)"
proof -
  have "\<forall>p. p \<noteq> target_hsm j \<longrightarrow> hsms' p = hsms p"
    using complete_body_posts [OF assms(1,2)] unfolding j_def [symmetric]
    by (auto split: option.splits prod.splits if_splits)
  moreover have "job_state (jobs (ws_store ws') job) = (if job_result j < 0 then OSA_JOB_ERROR else OSA_JOB_COMPLETED)"
    "total_errors (stats (ws_pool ws')) = total_errors (stats (ws_pool ws)) + (if job_result j < 0 then 1 else 0)"
    "total_completed (stats (ws_pool ws')) = total_completed (stats (ws_pool ws)) + (if job_result j < 0 then 0 else 1)"
    "active_workers (stats (ws_pool ws')) = active_workers (stats (ws_pool ws)) - 1"
    "wp_complete_sem (ws_pool ws') = Some (sem\<lparr>sem_value := sem_value sem + 1\<rparr>)"
    using assms by (auto simp: complete_body_def Let_def osa_sem_post_def)
  ultimately show ?thesis
    using complete_body_delivers [OF assms(1,2)] unfolding j_def [symmetric] by metis
qed

text \<open>A pool of one worker and a job with id 7 that reports to the machine at address 9.\<close>

definition sample_ws :: worker_state where
  "sample_ws = \<lparr>ws_pool = zero_pool\<lparr>num_workers := 1, queue_size := 4, wp_lock := Some \<lparr>m_owner = None\<rparr>,
       wp_work_sem := Some \<lparr>sem_value = 0, sem_max_count = 4\<rparr>,
       wp_complete_sem := Some \<lparr>sem_value = 0, sem_max_count = 4\<rparr>,
       wp_workers := Some [None]\<rparr>,
     ws_store = \<lparr>jobs = (\<lambda>_. zero_job\<lparr>job_id := 7, target_hsm := 9, completion_signal := 5, job_result := -3\<rparr>),
       g_job_id_counter = 7, g_job_pool_initialized = True\<rparr>\<rparr>"

theorem worker_completion_witness:
  "\<exists>hsms' ws'. complete_body (\<lambda>_ _ _ _ x. x) (\<lambda>_. 0) \<lparr>tv_sec = 0, tv_nsec = 0\<rparr> 40 (\<lambda>_. sample_hsm) sample_ws = (hsms', ws') \<and>
    job_state (jobs (ws_store ws') 40) = OSA_JOB_ERROR \<and> total_errors (stats (ws_pool ws')) = 1 \<and>
    map bytes_event (hsm_pending (hsms' 9)) = [\<lparr>ev_signal = 5, ev_data = 40, ev_size = 72\<rparr>]"
proof -
  obtain hsms' ws' where c: "complete_body (\<lambda>_ _ _ _ x. x) (\<lambda>_. 0) \<lparr>tv_sec = 0, tv_nsec = 0\<rparr> 40 (\<lambda>_. sample_hsm) sample_ws = (hsms', ws')"
    by fastforce
  have "complete_cb (jobs (ws_store sample_ws) 40) = NULL"
    "wp_complete_sem (ws_pool sample_ws) = Some \<lparr>sem_value = 0, sem_max_count = 4\<rparr>"
    "sem_value \<lparr>sem_value = 0, sem_max_count = 4\<rparr> < SEM_VALUE_MAX"
    by (simp_all add: sample_ws_def zero_job_def SEM_VALUE_MAX_def)
  from worker_completion [OF this(1) c this(2,3)] show ?thesis
    using c sample_hsm_running
    by (simp add: sample_ws_def zero_job_def zero_pool_def zero_stats_def c_int_def sizeof_osa_worker_job_def)
qed

text \<open>
  \<^verbatim>\<open>osa_worker_pool_wait\<close> does not look at its job when it waits: with a token from the completion of
  some other job it returns 0 at once although its own job has not even started; and with a timeout
  of 0 it reports a job that ended in an error as unfinished.
\<close>

theorem worker_wait_any_completion:
  assumes "wp_lock (ws_pool ws) = Some \<lparr>m_owner = None\<rparr>" and "job \<noteq> NULL"
    and "wp_complete_sem (ws_pool ws) = Some sem" and "0 < sem_value sem"
  shows "(\<exists>ws'. osa_worker_pool_wait t True job (-1) clock ws = Return (0, ws') \<and>
      jobs (ws_store ws') = jobs (ws_store ws)) \<and>
    (job_state (jobs (ws_store ws) job) = OSA_JOB_ERROR \<longrightarrow>
      (\<exists>ws'. osa_worker_pool_wait t True job 0 clock ws = Return (-1, ws')))"
  using assms
  by (simp add: osa_worker_pool_wait_def with_lock_def acquire_def release_def osa_mutex_lock_def
      osa_mutex_unlock_def osa_sem_wait_def wait_result_of_def)

theorem worker_wait_any_completion_witness:
  "\<exists>ws'. osa_worker_pool_wait 1 True 40 (-1) (Inl 1)
      (upd_pool (\<lambda>p. p\<lparr>wp_complete_sem := Some \<lparr>sem_value = 1, sem_max_count = 4\<rparr>\<rparr>) sample_ws) = Return (0, ws') \<and>
    job_state (jobs (ws_store ws') 40) = OSA_JOB_PENDING"
proof -
  let ?ws = "upd_pool (\<lambda>p. p\<lparr>wp_complete_sem := Some \<lparr>sem_value = 1, sem_max_count = 4\<rparr>\<rparr>) sample_ws"
  have "wp_lock (ws_pool ?ws) = Some \<lparr>m_owner = None\<rparr>" "(40 :: ptr) \<noteq> NULL"
    "wp_complete_sem (ws_pool ?ws) = Some \<lparr>sem_value = 1, sem_max_count = 4\<rparr>"
    "0 < sem_value \<lparr>sem_value = 1, sem_max_count = 4\<rparr>"
    by (simp_all add: sample_ws_def)
  from worker_wait_any_completion [OF this, of 1 "Inl 1"] show ?thesis
    by (auto simp: sample_ws_def zero_job_def)
qed

text \<open>
  The interface is not reentrant: a thread that holds the pool's lock, as a worker does while it
  runs a completion callback, blocks for ever when it submits, cancels, reads the statistics, polls a
  job or stops the pool.
\<close>

theorem worker_callback_deadlock:
  assumes "wp_lock (ws_pool ws) = Some \<lparr>m_owner = Some t\<rparr>" and "job \<noteq> NULL"
  shows "osa_worker_pool_submit t True job ws = Park Forever \<and>
    osa_worker_pool_submit_to_hsm t True job h sig ws = Park Forever \<and>
    osa_worker_pool_cancel t True n ws = Some (Park Forever) \<and>
    osa_worker_pool_get_stats t True True ws = Park Forever \<and>
    osa_worker_pool_wait t True job timeout_ms clock ws = Park Forever \<and>
    osa_worker_pool_stop t True ws sys = Some (Park Forever)"
  using assms
  by (simp add: osa_worker_pool_submit_def osa_worker_pool_submit_to_hsm_def osa_worker_pool_cancel_def
      osa_worker_pool_get_stats_def osa_worker_pool_wait_def osa_worker_pool_stop_def stop_signal_def
      with_lock_def acquire_def osa_mutex_lock_def)

theorem worker_callback_deadlock_witness:
  "osa_worker_pool_submit 1 True 40 (upd_pool (\<lambda>p. p\<lparr>wp_lock := Some \<lparr>m_owner = Some 1\<rparr>\<rparr>) sample_ws) = Park Forever"
proof -
  let ?ws = "upd_pool (\<lambda>p. p\<lparr>wp_lock := Some \<lparr>m_owner = Some 1\<rparr>\<rparr>) sample_ws"
  have "wp_lock (ws_pool ?ws) = Some \<lparr>m_owner = Some 1\<rparr>" and "(40 :: ptr) \<noteq> NULL"
    by simp_all
  from worker_callback_deadlock [OF this] show ?thesis by blast
qed

section \<open>Starting and stopping\<close>

text \<open>The worker loop of the start, on success: every handle of the range is set and live.\<close>

lemma start_workers_ok:
  assumes "start_workers param fn self ct pc i k ws sys = (0, ws', sys')" and "i + k \<le> length ws"
    and "\<And>a b c n. pc n a b c \<noteq> Inl 0"
  shows "length ws' = length ws \<and> (\<forall>m. m < i \<longrightarrow> ws' ! m = ws ! m) \<and>
    (\<forall>m. i \<le> m \<and> m < i + k \<longrightarrow> ws' ! m = Some (ct m) \<and> ct m \<noteq> NULL)"
  using assms(1,2)
proof (induction k arbitrary: i ws sys)
  case (Suc k)
  obtain ret th sys1 where c: "osa_thread_create sys True (Some param) fn self (ct i) (pc i) = (ret, th, sys1)"
    by (cases "osa_thread_create sys True (Some param) fn self (ct i) (pc i)")
  have ret: "ret = 0" and run: "start_workers param fn self ct pc (Suc i) k (ws[i := th]) sys1 = (0, ws', sys')"
    using Suc.prems(1) c by (auto split: if_splits)
  have th: "th = Some (ct i)" "ct i \<noteq> NULL"
    using c ret assms(3) [of i] by (auto simp: osa_thread_create_def c_consts split: if_splits sum.splits)
  have IH: "length ws' = length ws \<and> (\<forall>m. m < Suc i \<longrightarrow> ws' ! m = ws[i := th] ! m) \<and>
      (\<forall>m. Suc i \<le> m \<and> m < Suc i + k \<longrightarrow> ws' ! m = Some (ct m) \<and> ct m \<noteq> NULL)"
    using Suc.IH [OF run] Suc.prems(2) by simp
  then have "ws' ! i = Some (ct i)"
    using th Suc.prems(2) by simp
  then have "ws' ! m = Some (ct m) \<and> ct m \<noteq> NULL" if "i \<le> m" "m < i + Suc k" for m
    using that IH th(2) by (cases "m = i") auto
  moreover have "ws' ! m = ws ! m" if "m < i" for m
    using that IH by simp
  ultimately show ?case
    using IH by blast
qed simp

text \<open>
  Stopping a pool that was initialised but never started (or whose start failed half way) joins
  handles that were never written: undefined behaviour. After a start that returned 0, every one of
  the worker handles is set.
\<close>

theorem worker_stop_needs_start:
  assumes "osa_worker_pool_init True p0 name n q dup mtx mi sem1 sem2 arr = (0, pool)"
    and "\<And>a b c i. pc i a b c \<noteq> Inl 0"
  shows "osa_worker_pool_stop t True \<lparr>ws_pool = pool, ws_store = st\<rparr> sys = None \<and>
    (\<forall>pool' sys'. osa_worker_pool_start True wfn cfn self ct pc pool sys = (0, pool', sys') \<longrightarrow>
       (\<exists>hs. wp_workers pool' = Some hs \<and> length hs = unat (num_workers pool) \<and>
         (\<forall>m < length hs. hs ! m = Some (ct m) \<and> ct m \<noteq> NULL)))"
proof -
  have init: "num_workers pool \<noteq> 0" "wp_lock pool = Some \<lparr>m_owner = None\<rparr>"
    "wp_workers pool = Some (replicate (unat (num_workers pool)) None)"
    using assms(1)
    by (auto simp: osa_worker_pool_init_def Let_def osa_mutex_create_def osa_sem_create_def zero_pool_def
        c_consts split: if_splits)
  obtain k where k: "unat (num_workers pool) = Suc k"
    using init(1) by (cases "unat (num_workers pool)") (auto simp: unat_eq_zero)
  have post: "wp_workers (ws_pool ((stop_post ^^ m) ws)) = wp_workers (ws_pool ws)"
    "num_workers (ws_pool ((stop_post ^^ m) ws)) = num_workers (ws_pool ws)" for m ws
    by (induction m) (simp_all add: stop_post_def)
  have post1: "wp_workers (ws_pool (stop_post ws)) = wp_workers (ws_pool ws)"
    "num_workers (ws_pool (stop_post ws)) = num_workers (ws_pool ws)" for ws
    by (simp_all add: stop_post_def)
  have "osa_worker_pool_stop t True \<lparr>ws_pool = pool, ws_store = st\<rparr> sys = None"
    using init k
    by (simp add: osa_worker_pool_stop_def stop_signal_def with_lock_def acquire_def release_def
        osa_mutex_lock_def osa_mutex_unlock_def stop_join_def Let_def post post1)
  moreover have "\<exists>hs. wp_workers pool' = Some hs \<and> length hs = unat (num_workers pool) \<and>
      (\<forall>m < length hs. hs ! m = Some (ct m) \<and> ct m \<noteq> NULL)"
    if start: "osa_worker_pool_start True wfn cfn self ct pc pool sys = (0, pool', sys')" for pool' sys'
  proof -
    obtain param ws' sys1 where
      s: "start_workers param wfn self ct pc 0 (unat (num_workers pool)) (replicate (unat (num_workers pool)) None) sys = (0, ws', sys1)"
      and "wp_workers pool' = Some ws'"
      using start init(3) by (auto simp: osa_worker_pool_start_def Let_def split: prod.splits option.splits if_splits)
    with start_workers_ok [OF s _ assms(2)] show ?thesis by simp
  qed
  ultimately show ?thesis by blast
qed

theorem worker_stop_needs_start_witness:
  "osa_worker_pool_stop 1 True
     \<lparr>ws_pool = snd (osa_worker_pool_init True zero_pool None 2 8 True True 0 True True True),
      ws_store = ws_store sample_ws\<rparr> \<lparr>th_handles = Map.empty, th_terminated = (\<lambda>_. False)\<rparr> = None"
proof -
  have "osa_worker_pool_init True zero_pool None 2 8 True True 0 True True True =
      (0, snd (osa_worker_pool_init True zero_pool None 2 8 True True 0 True True True))"
    by (simp add: osa_worker_pool_init_def Let_def osa_mutex_create_def osa_sem_create_def c_consts SEM_VALUE_MAX_def)
  from worker_stop_needs_start [OF this, of "\<lambda>_ _ _ _. Inr 0"] show ?thesis
    by simp
qed

end
