(* ===== verification/Job_Queue.thy ===== *)
theory Job_Queue
  imports Osa_Worker Osa_Fifo
begin

text \<open>
  The linked job queue of the worker pool as a list. \<open>job_queue_rep ws xs\<close> says that the links from
  \<^verbatim>\<open>job_queue_head\<close> to \<^verbatim>\<open>job_queue_tail\<close> visit exactly the jobs \<open>xs\<close>, once each, with matching
  back links inside, and that \<^verbatim>\<open>queue_depth\<close> is their number. The back link of the first job is
  left free: \<open>fetch_body\<close> does not clear it when it removes the job before. The lemmas show
  that submitting appends, fetching removes the first, cancelling removes the job with the id
  unless it is a first job with a stale back link, and that the queue provides \<open>bounded_fifo\<close>.
\<close>

section \<open>Linked segments\<close>

fun seg :: "job_store \<Rightarrow> ptr \<Rightarrow> ptr list \<Rightarrow> ptr \<Rightarrow> bool" where
  "seg st p [] q \<longleftrightarrow> p = q"
| "seg st p (x # xs) q \<longleftrightarrow> p = x \<and> x \<noteq> NULL \<and> seg st (job_next (jobs st x)) xs q"

text \<open>\<open>backs st b xs\<close>: following the list, every job's back link is the job before, \<open>b\<close> for the first.\<close>

fun backs :: "job_store \<Rightarrow> ptr \<Rightarrow> ptr list \<Rightarrow> bool" where
  "backs st b [] \<longleftrightarrow> True"
| "backs st b (x # xs) \<longleftrightarrow> job_prev (jobs st x) = b \<and> backs st x xs"

definition back_links :: "job_store \<Rightarrow> ptr list \<Rightarrow> bool" where
  "back_links st xs \<longleftrightarrow> (case xs of [] \<Rightarrow> True | x # ys \<Rightarrow> backs st x ys)"

lemma back_links_simps [simp]:
  "back_links st []" "back_links st (x # xs) = backs st x xs"
  by (simp_all add: back_links_def)

lemma seg_append: "seg st p (xs @ ys) q \<longleftrightarrow> (\<exists>r. seg st p xs r \<and> seg st r ys q)"
  by (induction xs arbitrary: p) auto

lemma backs_append: "backs st b (xs @ ys) \<longleftrightarrow> backs st b xs \<and> backs st (last (b # xs)) ys"
  by (induction xs arbitrary: b) auto

lemma seg_cong:
  "(\<And>x. x \<in> set xs \<Longrightarrow> job_next (jobs st' x) = job_next (jobs st x)) \<Longrightarrow> seg st' p xs q = seg st p xs q"
  by (induction xs arbitrary: p) auto

lemma backs_cong:
  "(\<And>x. x \<in> set xs \<Longrightarrow> job_prev (jobs st' x) = job_prev (jobs st x)) \<Longrightarrow> backs st' b xs = backs st b xs"
  by (induction xs arbitrary: b) auto

lemma seg_not_null: "seg st p xs q \<Longrightarrow> NULL \<notin> set xs"
  by (induction xs arbitrary: p) auto

lemma seg_head: "seg st p xs NULL \<Longrightarrow> p = NULL \<longleftrightarrow> xs = []"
  by (cases xs) auto

text \<open>The walk along the queue: for \<open>n\<close> jobs, or until it ends.\<close>

fun walk :: "job_store \<Rightarrow> ptr \<Rightarrow> nat \<Rightarrow> ptr list" where
  "walk st p 0 = []"
| "walk st p (Suc n) = (if p = NULL then [] else p # walk st (job_next (jobs st p)) n)"

lemma walk_seg: "seg st p xs q \<Longrightarrow> walk st p (length xs) = xs"
  by (induction xs arbitrary: p) auto

section \<open>The representation\<close>

definition job_queue_rep :: "worker_state \<Rightarrow> ptr list \<Rightarrow> bool" where
  "job_queue_rep ws xs \<longleftrightarrow>
    seg (ws_store ws) (job_queue_head (ws_pool ws)) xs NULL \<and>
    job_queue_tail (ws_pool ws) = (if xs = [] then NULL else last xs) \<and>
    back_links (ws_store ws) xs \<and> distinct xs \<and>
    length xs \<le> unat (queue_size (ws_pool ws)) \<and>
    queue_depth (stats (ws_pool ws)) = of_nat (length xs) \<and>
    (\<forall>x \<in> set xs. job_state (jobs (ws_store ws) x) = OSA_JOB_PENDING)"

definition jq_contents :: "worker_state \<Rightarrow> ptr list" where
  "jq_contents ws =
    walk (ws_store ws) (job_queue_head (ws_pool ws)) (unat (queue_depth (stats (ws_pool ws))))"

lemma rep_length:
  assumes "job_queue_rep ws xs"
  shows "unat (queue_depth (stats (ws_pool ws))) = length xs"
proof -
  have "length xs \<le> unat (queue_size (ws_pool ws))"
    using assms by (simp add: job_queue_rep_def)
  also have "\<dots> < 2 ^ 32"
    using unsigned_less [of "queue_size (ws_pool ws)"] by simp
  finally show ?thesis
    using assms by (simp add: job_queue_rep_def unat_of_nat_uint32)
qed

lemma rep_contents: "job_queue_rep ws xs \<Longrightarrow> jq_contents ws = xs"
  by (simp add: jq_contents_def rep_length) (auto simp: job_queue_rep_def intro: walk_seg)

lemma rep_full: "job_queue_rep ws xs \<Longrightarrow>
  queue_depth (stats (ws_pool ws)) \<ge> queue_size (ws_pool ws) \<longleftrightarrow> length xs = unat (queue_size (ws_pool ws))"
  using rep_length by (auto simp: word_le_nat_alt job_queue_rep_def)

section \<open>Submitting appends\<close>

text \<open>What a successful submission does to the job itself and to the others.\<close>

lemma submit_rep:
  assumes rep: "job_queue_rep ws xs" and job: "job \<noteq> NULL" "job \<notin> set xs"
    and room: "length xs < unat (queue_size (ws_pool ws))"
  obtains ws' where "submit_body job ws = (0, ws')" "job_queue_rep ws' (xs @ [job])"
    "shutdown (ws_pool ws') = shutdown (ws_pool ws)" "queue_size (ws_pool ws') = queue_size (ws_pool ws)"
    "wp_work_sem (ws_pool ws') = osa_sem_post (wp_work_sem (ws_pool ws))"
    "\<And>p. p \<noteq> job \<Longrightarrow> job_state (jobs (ws_store ws') p) = job_state (jobs (ws_store ws) p)"
    "job_state (jobs (ws_store ws') job) = OSA_JOB_PENDING"
proof -
  define ws' where "ws' = snd (submit_body job ws)"
  let ?st = "ws_store ws" and ?st' = "ws_store ws'"
  have nf: "\<not> queue_size (ws_pool ws) \<le> queue_depth (stats (ws_pool ws))"
    using rep_full [OF rep] room by simp
  have t: "job_queue_tail (ws_pool ws) = (if xs = [] then NULL else last xs)"
    and "NULL \<notin> set xs"
    using rep seg_not_null by (auto simp: job_queue_rep_def)
  then have nn: "xs \<noteq> [] \<longrightarrow> last xs \<noteq> NULL \<and> last xs \<noteq> job"
    using job(2) last_in_set by metis
  have res: "submit_body job ws = (0, ws')"
    using nf by (simp add: ws'_def submit_body_def Let_def split: prod.splits)
  have next': "job_next (jobs ?st' x) = (if x = job then NULL else if xs \<noteq> [] \<and> x = last xs then job else job_next (jobs ?st x))"
    for x
    using nf t job nn by (auto simp: ws'_def submit_body_def Let_def split: if_splits)
  have prev': "job_prev (jobs ?st' x) = (if x = job then (if xs = [] then NULL else last xs) else job_prev (jobs ?st x))"
    for x
    using nf t job nn by (auto simp: ws'_def submit_body_def Let_def split: if_splits)
  have state': "job_state (jobs ?st' x) = (if x = job then OSA_JOB_PENDING else job_state (jobs ?st x))" for x
    using nf t job nn by (auto simp: ws'_def submit_body_def Let_def split: if_splits)
  have pool': "job_queue_head (ws_pool ws') = (if xs = [] then job else job_queue_head (ws_pool ws))"
    "job_queue_tail (ws_pool ws') = job" "queue_size (ws_pool ws') = queue_size (ws_pool ws)"
    "queue_depth (stats (ws_pool ws')) = queue_depth (stats (ws_pool ws)) + 1"
    "shutdown (ws_pool ws') = shutdown (ws_pool ws)"
    "wp_work_sem (ws_pool ws') = osa_sem_post (wp_work_sem (ws_pool ws))"
    using nf t nn by (auto simp: ws'_def submit_body_def Let_def split: if_splits)
  have "seg ?st' (job_queue_head (ws_pool ws')) (xs @ [job]) NULL"
  proof (cases xs rule: rev_cases)
    case Nil
    then show ?thesis using job by (simp add: pool' next')
  next
    case (snoc ys y)
    have "seg ?st (job_queue_head (ws_pool ws)) (ys @ [y]) NULL" and "distinct (ys @ [y])"
      using rep snoc by (simp_all add: job_queue_rep_def)
    moreover have "seg ?st' p ys q = seg ?st p ys q" for p q
      using job snoc \<open>distinct (ys @ [y])\<close> by (intro seg_cong) (auto simp: next')
    ultimately show ?thesis
      using job snoc by (auto simp: seg_append pool' next')
  qed
  moreover have "back_links ?st' (xs @ [job])"
  proof (cases xs)
    case (Cons x ys)
    have "backs ?st' x ys = backs ?st x ys"
      using job Cons by (intro backs_cong) (auto simp: prev')
    moreover have "backs ?st x ys"
      using rep Cons by (simp add: job_queue_rep_def)
    ultimately show ?thesis
      using Cons by (simp add: backs_append prev')
  qed simp
  ultimately have "job_queue_rep ws' (xs @ [job])"
    using rep job room by (auto simp: job_queue_rep_def pool' state')
  then show ?thesis
    using res pool' state' by (intro that [of ws']) auto
qed

lemma submit_full:
  "job_queue_rep ws xs \<Longrightarrow> length xs = unat (queue_size (ws_pool ws)) \<Longrightarrow> submit_body job ws = (-1, ws)"
  using rep_full [of ws xs] by (simp add: submit_body_def Let_def)

section \<open>Fetching takes the first\<close>

lemma fetch_rep:
  assumes rep: "job_queue_rep ws (x # xs)" and "\<not> shutdown (ws_pool ws)"
  obtains ws' where "fetch_body ws = (Fetch_job x, ws')" "job_queue_rep ws' xs"
    "queue_size (ws_pool ws') = queue_size (ws_pool ws)" "\<not> shutdown (ws_pool ws')"
    "wp_work_sem (ws_pool ws') = wp_work_sem (ws_pool ws)"
    "\<And>p. p \<noteq> x \<Longrightarrow> jobs (ws_store ws') p = jobs (ws_store ws) p"
    "job_state (jobs (ws_store ws') x) = OSA_JOB_RUNNING"
proof -
  define ws' where "ws' = snd (fetch_body ws)"
  let ?st = "ws_store ws" and ?st' = "ws_store ws'"
  have h: "job_queue_head (ws_pool ws) = x" "x \<noteq> NULL" and s: "seg ?st (job_next (jobs ?st x)) xs NULL"
    and b: "backs ?st x xs" and d: "x \<notin> set xs" "distinct xs"
    and t: "job_queue_tail (ws_pool ws) = last (x # xs)"
    using rep by (auto simp: job_queue_rep_def)
  have res: "fetch_body ws = (Fetch_job x, ws')"
    using h assms(2) by (simp add: ws'_def fetch_body_def Let_def)
  have st': "jobs ?st' p = (if p = x then (jobs ?st x)\<lparr>job_next := NULL, job_prev := NULL, job_state := OSA_JOB_RUNNING\<rparr>
      else jobs ?st p)" for p
    using h assms(2) by (simp add: ws'_def fetch_body_def Let_def)
  have pool': "job_queue_head (ws_pool ws') = job_next (jobs ?st x)"
    "job_queue_tail (ws_pool ws') = (if xs = [] then NULL else last xs)"
    "queue_size (ws_pool ws') = queue_size (ws_pool ws)" "\<not> shutdown (ws_pool ws')"
    "queue_depth (stats (ws_pool ws')) = queue_depth (stats (ws_pool ws)) - 1"
    "wp_work_sem (ws_pool ws') = wp_work_sem (ws_pool ws)"
    using h assms(2) t seg_head [OF s] by (auto simp: ws'_def fetch_body_def Let_def)
  have "seg ?st' (job_next (jobs ?st x)) xs NULL"
    using s d by (subst seg_cong [of _ _ ?st]) (auto simp: st')
  moreover have "back_links ?st' xs"
  proof (cases xs)
    case (Cons y ys)
    then show ?thesis
      using b d by (simp, subst backs_cong [of _ _ ?st]) (auto simp: st')
  qed simp
  ultimately have "job_queue_rep ws' xs"
    using rep d by (auto simp: job_queue_rep_def pool' st')
  then show ?thesis
    using res pool' st' by (intro that [of ws']) auto
qed

lemma fetch_empty:
  "job_queue_rep ws [] \<Longrightarrow> fetch_body ws = (if shutdown (ws_pool ws) then Fetch_exit else Fetch_none, ws)"
  by (simp add: job_queue_rep_def fetch_body_def Let_def)

section \<open>Cancelling removes\<close>

lemma find_job_seg:
  "seg st p xs NULL \<Longrightarrow>
   find_job st n p = Some (case find (\<lambda>x. job_id (jobs st x) = n) xs of None \<Rightarrow> NULL | Some x \<Rightarrow> x)"
  by (induction xs arbitrary: p) (auto simp: find_job.simps)

text \<open>
  A job can be cancelled properly when it is not first in the queue, or its back link is clear.
\<close>

definition cancel_safe :: "worker_state \<Rightarrow> ptr \<Rightarrow> bool" where
  "cancel_safe ws job \<longleftrightarrow>
    job \<noteq> job_queue_head (ws_pool ws) \<or> job_prev (jobs (ws_store ws) job) = NULL"

lemma split_ends:
  assumes "distinct (ys @ job # zs)" and "NULL \<notin> set (ys @ job # zs)"
  shows "ys \<noteq> [] \<longrightarrow> last ys \<noteq> job \<and> last ys \<noteq> NULL \<and> last ys \<notin> set zs"
    and "zs \<noteq> [] \<longrightarrow> hd zs \<noteq> job \<and> hd zs \<noteq> NULL \<and> hd zs \<notin> set ys"
  using assms by (cases ys rule: rev_cases; cases zs; auto)+

text \<open>The links after the unlinking of \<open>job\<close> between \<open>ys\<close> and \<open>zs\<close>.\<close>

lemma unlink_links:
  assumes rep: "job_queue_rep ws (ys @ job # zs)" and safe: "cancel_safe ws job"
  defines "ws' \<equiv> unlink_job job ws"
  shows "job_next (jobs (ws_store ws') x) =
      (if ys \<noteq> [] \<and> x = last ys then (if zs = [] then NULL else hd zs) else job_next (jobs (ws_store ws) x))"
    and "job_prev (jobs (ws_store ws') x) =
      (if zs \<noteq> [] \<and> x = hd zs then (if ys = [] then NULL else last ys) else job_prev (jobs (ws_store ws) x))"
    and "job_state (jobs (ws_store ws') x) =
      (if x = job then OSA_JOB_CANCELLED else job_state (jobs (ws_store ws) x))"
    and "job_queue_head (ws_pool ws') =
      (if ys \<noteq> [] then job_queue_head (ws_pool ws) else if zs = [] then NULL else hd zs)"
    and "job_queue_tail (ws_pool ws') =
      (if zs \<noteq> [] then job_queue_tail (ws_pool ws) else if ys = [] then NULL else last ys)"
proof -
  let ?st = "ws_store ws"
  have s: "seg ?st (job_queue_head (ws_pool ws)) (ys @ job # zs) NULL" and "distinct (ys @ job # zs)"
    and b: "back_links ?st (ys @ job # zs)"
    using rep by (simp_all add: job_queue_rep_def)
  note neq = split_ends [OF this(2) seg_not_null [OF s]]
  have n: "job_next (jobs ?st job) = (if zs = [] then NULL else hd zs)"
    using s by (cases zs) (auto simp: seg_append)
  have hd: "ys = [] \<Longrightarrow> job_queue_head (ws_pool ws) = job"
    using s by simp
  have p: "job_prev (jobs ?st job) = (if ys = [] then NULL else last ys)"
  proof (cases ys)
    case Nil
    then show ?thesis using safe hd by (simp add: cancel_safe_def)
  next
    case (Cons y ys')
    then show ?thesis using b by (simp add: backs_append)
  qed
  note defs = ws'_def unlink_job_def Let_def n p
  show "job_next (jobs (ws_store ws') x) =
      (if ys \<noteq> [] \<and> x = last ys then (if zs = [] then NULL else hd zs) else job_next (jobs (ws_store ws) x))"
    using neq by (auto simp: defs split: if_splits)
  show "job_prev (jobs (ws_store ws') x) =
      (if zs \<noteq> [] \<and> x = hd zs then (if ys = [] then NULL else last ys) else job_prev (jobs (ws_store ws) x))"
    using neq by (auto simp: defs split: if_splits)
  show "job_state (jobs (ws_store ws') x) =
      (if x = job then OSA_JOB_CANCELLED else job_state (jobs (ws_store ws) x))"
    using neq by (auto simp: defs split: if_splits)
  show "job_queue_head (ws_pool ws') =
      (if ys \<noteq> [] then job_queue_head (ws_pool ws) else if zs = [] then NULL else hd zs)"
    using neq by (auto simp: defs split: if_splits)
  show "job_queue_tail (ws_pool ws') =
      (if zs \<noteq> [] then job_queue_tail (ws_pool ws) else if ys = [] then NULL else last ys)"
    using neq by (auto simp: defs split: if_splits)
qed

lemma unlink_rep:
  assumes rep: "job_queue_rep ws xs" and "job \<in> set xs" and safe: "cancel_safe ws job"
  shows "job_queue_rep (unlink_job job ws) (remove1 job xs)"
proof -
  obtain ys zs where xs: "xs = ys @ job # zs" "job \<notin> set ys"
    using split_list_first [OF assms(2)] by blast
  note links = unlink_links [OF rep [unfolded xs(1)] safe]
  let ?st = "ws_store ws" and ?ws = "unlink_job job ws"
  have s: "seg ?st (job_queue_head (ws_pool ws)) (ys @ job # zs) NULL" and d: "distinct (ys @ job # zs)"
    and b: "back_links ?st (ys @ job # zs)"
    and t: "job_queue_tail (ws_pool ws) = last (ys @ job # zs)"
    using rep xs by (simp_all add: job_queue_rep_def)
  have zs: "seg (ws_store ?ws) (if zs = [] then NULL else hd zs) zs NULL"
  proof -
    have "seg ?st (job_next (jobs ?st job)) zs NULL"
      using s by (auto simp: seg_append)
    moreover have "job_next (jobs ?st job) = (if zs = [] then NULL else hd zs)"
      using s by (cases zs) (auto simp: seg_append)
    moreover have "seg (ws_store ?ws) p zs NULL = seg ?st p zs NULL" for p
      using split_ends(1) [OF d seg_not_null [OF s]] by (intro seg_cong) (auto simp: links)
    ultimately show ?thesis by simp
  qed
  have "seg (ws_store ?ws) (job_queue_head (ws_pool ?ws)) (ys @ zs) NULL"
  proof (cases ys rule: rev_cases)
    case Nil
    then show ?thesis using zs by (simp add: links)
  next
    case (snoc us u)
    have "seg (ws_store ?ws) p us q = seg ?st p us q" for p q
      using d snoc by (intro seg_cong) (auto simp: links)
    then show ?thesis
      using s snoc zs by (auto simp: seg_append links)
  qed
  moreover have "back_links (ws_store ?ws) (ys @ zs)"
  proof (cases ys)
    case Nil
    show ?thesis
    proof (cases zs)
      case (Cons z zs')
      have "backs (ws_store ?ws) z zs' = backs ?st z zs'"
        using d Cons by (intro backs_cong) (auto simp: links)
      then show ?thesis using b Nil Cons by simp
    qed (simp add: Nil)
  next
    case (Cons y ys')
    have "backs (ws_store ?ws) y ys' = backs ?st y ys'"
      using d Cons by (intro backs_cong) (auto simp: links)
    moreover have "backs (ws_store ?ws) (last ys) zs"
    proof (cases zs)
      case (Cons z zs')
      have "backs (ws_store ?ws) z zs' = backs ?st z zs'"
        using d Cons by (intro backs_cong) (auto simp: links)
      then show ?thesis
        using b Cons \<open>ys = y # ys'\<close> by (simp add: backs_append links)
    qed simp
    ultimately show ?thesis
      using b Cons by (simp add: backs_append)
  qed
  moreover have "queue_depth (stats (ws_pool ?ws)) = of_nat (length (ys @ zs))"
    using rep xs by (simp add: job_queue_rep_def unlink_job_def Let_def)
  moreover have "queue_size (ws_pool ?ws) = queue_size (ws_pool ws)"
    by (simp add: unlink_job_def Let_def)
  moreover have "job_queue_tail (ws_pool ?ws) = (if ys @ zs = [] then NULL else last (ys @ zs))"
    using t by (simp add: links)
  ultimately have "job_queue_rep ?ws (ys @ zs)"
    using rep xs d by (auto simp: job_queue_rep_def links)
  then show ?thesis
    using xs by (simp add: remove1_append)
qed

lemma unlink_frame:
  "shutdown (ws_pool (unlink_job job ws)) = shutdown (ws_pool ws)"
  "queue_size (ws_pool (unlink_job job ws)) = queue_size (ws_pool ws)"
  "wp_work_sem (ws_pool (unlink_job job ws)) = wp_work_sem (ws_pool ws)"
  by (simp_all add: unlink_job_def Let_def)

text \<open>The whole cancellation: the first job in the queue with the id goes, or -1 is returned.\<close>

lemma cancel_rep:
  assumes rep: "job_queue_rep ws xs"
    and safe: "\<And>job. find (\<lambda>x. job_id (jobs (ws_store ws) x) = n) xs = Some job \<Longrightarrow> cancel_safe ws job"
  shows "case find (\<lambda>x. job_id (jobs (ws_store ws) x) = n) xs of
      None \<Rightarrow> cancel_body n ws = Some (-1, ws)
    | Some job \<Rightarrow> cancel_body n ws = Some (0, unlink_job job ws) \<and> job \<in> set xs \<and>
        job_queue_rep (unlink_job job ws) (remove1 job xs)"
proof -
  have s: "seg (ws_store ws) (job_queue_head (ws_pool ws)) xs NULL"
    using rep by (simp add: job_queue_rep_def)
  show ?thesis
  proof (cases "find (\<lambda>x. job_id (jobs (ws_store ws) x) = n) xs")
    case None
    then show ?thesis using find_job_seg [OF s, of n] by (simp add: cancel_body_def)
  next
    case (Some job)
    then have "job \<in> set xs"
      by (auto simp: find_Some_iff)
    moreover from this have "job \<noteq> NULL"
      using seg_not_null [OF s] by metis
    ultimately show ?thesis
      using Some find_job_seg [OF s, of n] unlink_rep [OF rep _ safe [OF Some]]
      by (simp add: cancel_body_def)
  qed
qed

section \<open>The statistics balance\<close>

text \<open>
  Every job that was ever accepted is in exactly one of the counters, modulo the wrap-around of
  \<^verbatim>\<open>uint32_t\<close>; every body keeps this.
\<close>

definition stats_balance :: "worker_state \<Rightarrow> bool" where
  "stats_balance ws \<longleftrightarrow>
    (let s = stats (ws_pool ws)
     in total_submitted s = total_completed s + total_errors s + total_cancelled s + queue_depth s + active_workers s)"

lemma submit_balance: "stats_balance ws \<Longrightarrow> stats_balance (snd (submit_body job ws))"
  by (simp add: stats_balance_def submit_body_def Let_def)

lemma fetch_balance: "stats_balance ws \<Longrightarrow> stats_balance (snd (fetch_body ws))"
  by (simp add: stats_balance_def fetch_body_def Let_def)

lemma complete_balance: "stats_balance ws \<Longrightarrow> stats_balance (snd (complete_body cb pad now job hsms ws))"
  by (simp add: stats_balance_def complete_body_def Let_def split: prod.splits)

lemma unlink_balance: "stats_balance ws \<Longrightarrow> stats_balance (unlink_job job ws)"
  by (simp add: stats_balance_def unlink_job_def Let_def)

section \<open>The job queue is a bounded FIFO\<close>

definition jq_inv :: "worker_state \<Rightarrow> bool" where
  "jq_inv ws \<longleftrightarrow> job_queue_rep ws (jq_contents ws) \<and> \<not> shutdown (ws_pool ws)"

definition jq_cap :: "worker_state \<Rightarrow> nat" where
  "jq_cap ws = unat (queue_size (ws_pool ws))"

definition jq_accepts :: "worker_state \<Rightarrow> ptr \<Rightarrow> bool" where
  "jq_accepts ws job \<longleftrightarrow> job \<noteq> NULL \<and> job \<notin> set (jq_contents ws)"

definition jq_put :: "worker_state \<Rightarrow> ptr \<Rightarrow> int \<times> worker_state" where
  "jq_put ws job = submit_body job ws"

definition jq_get :: "worker_state \<Rightarrow> ptr option \<times> worker_state" where
  "jq_get ws = (case fetch_body ws of (Fetch_job job, ws') \<Rightarrow> (Some job, ws') | (_, ws') \<Rightarrow> (None, ws'))"

lemma jq_put_room:
  assumes "jq_inv ws" and "jq_accepts ws job" and "length (jq_contents ws) < jq_cap ws"
  obtains ws' where "jq_put ws job = (0, ws')" "jq_inv ws'" "jq_contents ws' = jq_contents ws @ [job]"
    "jq_cap ws' = jq_cap ws"
proof -
  obtain ws' where "submit_body job ws = (0, ws')" "job_queue_rep ws' (jq_contents ws @ [job])"
    "shutdown (ws_pool ws') = shutdown (ws_pool ws)" "queue_size (ws_pool ws') = queue_size (ws_pool ws)"
    using submit_rep [of ws "jq_contents ws" job] assms by (auto simp: jq_inv_def jq_accepts_def jq_cap_def)
  then show ?thesis
    using assms(1) by (intro that [of ws']) (simp_all add: jq_put_def jq_inv_def jq_cap_def rep_contents)
qed

lemma jq_get_first:
  assumes "jq_inv ws" and "jq_contents ws = x # xs"
  obtains ws' where "jq_get ws = (Some x, ws')" "jq_inv ws'" "jq_contents ws' = xs" "jq_cap ws' = jq_cap ws"
proof -
  obtain ws' where "fetch_body ws = (Fetch_job x, ws')" "job_queue_rep ws' xs"
    "\<not> shutdown (ws_pool ws')" "queue_size (ws_pool ws') = queue_size (ws_pool ws)"
    using fetch_rep [of ws x xs] assms by (auto simp: jq_inv_def)
  then show ?thesis
    by (intro that [of ws']) (simp_all add: jq_get_def jq_inv_def jq_cap_def rep_contents)
qed

lemma jq_bounded: "jq_inv ws \<Longrightarrow> length (jq_contents ws) \<le> jq_cap ws"
  by (simp add: jq_inv_def jq_cap_def job_queue_rep_def)

lemma jq_put_full: "jq_inv ws \<Longrightarrow> length (jq_contents ws) = jq_cap ws \<Longrightarrow> jq_put ws job = (-1, ws)"
  by (auto simp: jq_inv_def jq_cap_def jq_put_def intro: submit_full)

lemma jq_get_empty: "jq_inv ws \<Longrightarrow> jq_contents ws = [] \<Longrightarrow> jq_get ws = (None, ws)"
  using fetch_empty [of ws] by (auto simp: jq_inv_def jq_get_def)

interpretation job_fifo: bounded_fifo jq_inv jq_contents jq_cap jq_accepts jq_put jq_get
proof (unfold_locales, goal_cases)
  case (1 s)
  then show ?case by (rule jq_bounded)
next
  case (2 s x)
  then show ?case
    using jq_bounded [of s] jq_put_full [of s x] by (cases "length (jq_contents s) < jq_cap s") (auto elim: jq_put_room)
next
  case (3 s x)
  then show ?case by (metis jq_put_room fst_conv snd_conv)
next
  case (4 s x)
  then show ?case by (simp add: jq_put_full)
next
  case (5 s)
  then show ?case
    by (cases "jq_contents s") (auto simp: jq_get_empty elim: jq_get_first)
next
  case (6 s x xs)
  then show ?case by (metis jq_get_first fst_conv snd_conv)
next
  case (7 s)
  then show ?case by (simp add: jq_get_empty)
next
  case (8 s x)
  then show ?case
    using jq_bounded [of s] jq_put_full [of s x] by (cases "length (jq_contents s) < jq_cap s") (auto elim: jq_put_room)
next
  case (9 s)
  then show ?case
    by (cases "jq_contents s") (auto simp: jq_get_empty elim: jq_get_first)
qed

section \<open>Properties\<close>

text \<open>A pool with room for three jobs, and the state after jobs 40 and 41 were submitted.\<close>

definition sample_pool :: osa_worker_pool where
  "sample_pool = zero_pool\<lparr>num_workers := 1, queue_size := 3,
     wp_lock := Some \<lparr>m_owner = None\<rparr>,
     wp_work_sem := Some \<lparr>sem_value = 0, sem_max_count = 3\<rparr>,
     wp_complete_sem := Some \<lparr>sem_value = 0, sem_max_count = 3\<rparr>\<rparr>"

definition sample_jobs :: worker_state where
  "sample_jobs = \<lparr>ws_pool = sample_pool,
     ws_store = \<lparr>jobs = (\<lambda>p. zero_job\<lparr>job_id := of_nat p\<rparr>), g_job_id_counter = 100, g_job_pool_initialized = False\<rparr>\<rparr>"

lemma sample_jobs_rep: "job_queue_rep sample_jobs []"
  by (simp add: sample_jobs_def sample_pool_def zero_pool_def zero_stats_def job_queue_rep_def)

lemma sample_jobs_inv: "jq_inv sample_jobs" "jq_contents sample_jobs = []" "jq_cap sample_jobs = 3"
proof -
  show c: "jq_contents sample_jobs = []"
    by (rule rep_contents [OF sample_jobs_rep])
  show "jq_inv sample_jobs"
    using sample_jobs_rep c by (simp add: jq_inv_def sample_jobs_def sample_pool_def zero_pool_def)
  show "jq_cap sample_jobs = 3"
    by (simp add: jq_cap_def sample_jobs_def sample_pool_def)
qed

text \<open>The pool after jobs 40 and 41 were submitted.\<close>

definition sample_one :: worker_state where
  "sample_one = snd (submit_body 40 sample_jobs)"

definition sample_two :: worker_state where
  "sample_two = snd (submit_body 41 sample_one)"

lemma submit_rep':
  assumes "job_queue_rep ws xs" and "job \<noteq> NULL" and "job \<notin> set xs"
    and "length xs < unat (queue_size (ws_pool ws))"
  shows "submit_body job ws = (0, snd (submit_body job ws)) \<and> job_queue_rep (snd (submit_body job ws)) (xs @ [job]) \<and>
    queue_size (ws_pool (snd (submit_body job ws))) = queue_size (ws_pool ws)"
  by (rule submit_rep [OF assms]) simp

lemma sample_two_rep:
  "submit_body 40 sample_jobs = (0, sample_one)" "submit_body 41 sample_one = (0, sample_two)"
  "job_queue_rep sample_two [40, 41]" "\<not> shutdown (ws_pool sample_two)"
  "job_id (jobs (ws_store sample_two) 40) = 40" "job_id (jobs (ws_store sample_two) 41) = 41"
proof -
  have q: "queue_size (ws_pool sample_jobs) = 3"
    by (simp add: sample_jobs_def sample_pool_def)
  have s1: "submit_body 40 sample_jobs = (0, sample_one) \<and> job_queue_rep sample_one [40] \<and>
      queue_size (ws_pool sample_one) = 3"
    using submit_rep' [OF sample_jobs_rep, of 40] q unfolding sample_one_def by simp
  have s2: "submit_body 41 sample_one = (0, sample_two) \<and> job_queue_rep sample_two [40, 41]"
    using submit_rep' [of sample_one "[40]" 41] s1 unfolding sample_two_def by simp
  show "submit_body 40 sample_jobs = (0, sample_one)" "submit_body 41 sample_one = (0, sample_two)"
    "job_queue_rep sample_two [40, 41]"
    using s1 s2 by simp_all
  show "\<not> shutdown (ws_pool sample_two)"
    "job_id (jobs (ws_store sample_two) 40) = 40" "job_id (jobs (ws_store sample_two) 41) = 41"
    by (simp_all add: sample_two_def sample_one_def submit_body_def Let_def sample_jobs_def sample_pool_def
        zero_pool_def zero_stats_def)
qed

text \<open>
  C15. The linked job queue is first in, first out: for any sequence of submissions (of jobs not
  already queued) and fetches by workers, the jobs queued before followed by the accepted ones are the
  fetched ones followed by those still queued, and never more than \<^verbatim>\<open>queue_size\<close> are queued.
\<close>

theorem job_queue_fifo:
  assumes "jq_inv ws" and "fifo_ok jq_accepts jq_put jq_get ops ws"
    and "fifo_run jq_put jq_get ops ws = (accepted, fetched, ws')"
  shows "jq_inv ws' \<and> jq_contents ws @ accepted = fetched @ jq_contents ws' \<and>
    length (jq_contents ws') \<le> unat (queue_size (ws_pool ws))"
  using job_fifo.run_history [OF assms] job_fifo.bounded [of ws'] by (simp add: jq_cap_def)

theorem job_queue_fifo_witness:
  "\<exists>ws'. fifo_run jq_put jq_get [Put 40, Put 41, Get] sample_jobs = ([40, 41], [40], ws') \<and>
    jq_contents ws' = [41]"
proof -
  obtain ws1 where w1: "jq_put sample_jobs 40 = (0, ws1)" "jq_inv ws1" "jq_contents ws1 = [40]" "jq_cap ws1 = 3"
    using jq_put_room [of sample_jobs 40] sample_jobs_inv by (auto simp: jq_accepts_def)
  obtain ws2 where w2: "jq_put ws1 41 = (0, ws2)" "jq_inv ws2" "jq_contents ws2 = [40, 41]" "jq_cap ws2 = 3"
    using jq_put_room [of ws1 41] w1 by (auto simp: jq_accepts_def)
  obtain ws3 where w3: "jq_get ws2 = (Some 40, ws3)"
    using jq_get_first [of ws2] w2 by auto
  have run: "fifo_run jq_put jq_get [Put 40, Put 41, Get] sample_jobs = ([40, 41], [40], ws3)"
    using w1(1) w2(1) w3 by simp
  have ok: "fifo_ok jq_accepts jq_put jq_get [Put 40, Put 41, Get] sample_jobs"
    using w1 w2 sample_jobs_inv by (simp add: jq_accepts_def)
  from job_queue_fifo [OF sample_jobs_inv(1) ok run] run sample_jobs_inv(2) show ?thesis
    by auto
qed





end
