(* ===== verification/Worker_Threads.thy ===== *)
theory Worker_Threads
  imports Job_Queue
begin

text \<open>
  The worker pool at work: its worker threads, any number of client threads that submit, cancel and
  wait, and the thread that stops the pool, interleaved at the points where they take the lock or
  wait on a semaphore. A step is one stretch of \<^verbatim>\<open>Osa_Worker\<close>. A state holds the pool with the jobs, where every
  worker is, the machines that receive completion events, and how many wake-up posts the stop has
  done. The clients keep the contract of the interface: they submit only jobs that are not in use,
  change only such jobs, and callbacks do not touch the jobs of others; cancellations are the safe
  ones of \<^verbatim>\<open>Job_Queue\<close>.

  The lemmas: the invariant \<open>pool_inv\<close> of every reachable state, and the refinement of the abstract
  pool \<open>spec_step\<close>, which only knows a list of waiting jobs and what each worker is busy with.
\<close>

section \<open>The system\<close>

datatype worker_pc = W_wait | W_woken | W_run ptr | W_return ptr | W_exit

record pool_sys =
  sy_ws :: worker_state
  sy_pc :: "nat \<Rightarrow> worker_pc"
  sy_hsms :: hsm_table
  sy_posts :: nat

fun busy_with :: "worker_pc \<Rightarrow> ptr option" where
  "busy_with (W_run j) = Some j"
| "busy_with (W_return j) = Some j"
| "busy_with _ = None"

text \<open>A job in use: queued, or in the hands of a worker.\<close>

definition in_use :: "pool_sys \<Rightarrow> ptr \<Rightarrow> bool" where
  "in_use s p \<longleftrightarrow> p \<in> set (jq_contents (sy_ws s)) \<or> (\<exists>t. busy_with (sy_pc s t) = Some p)"

fun after_fetch :: "fetch_result \<Rightarrow> worker_pc" where
  "after_fetch Fetch_exit = W_exit"
| "after_fetch Fetch_none = W_wait"
| "after_fetch (Fetch_job j) = W_run j"

inductive pool_step :: "nat \<Rightarrow> pool_sys \<Rightarrow> pool_sys \<Rightarrow> bool" for N where
  w_submit: "job \<noteq> NULL \<Longrightarrow> \<not> in_use s job \<Longrightarrow>
    osa_worker_pool_submit c True job (sy_ws s) = Return (r, ws) \<Longrightarrow>
    pool_step N s (s\<lparr>sy_ws := ws\<rparr>)"
| w_client: "(\<And>p. in_use s p \<Longrightarrow> jobs st p = jobs (ws_store (sy_ws s)) p) \<Longrightarrow>
    pool_step N s (s\<lparr>sy_ws := (sy_ws s)\<lparr>ws_store := st\<rparr>\<rparr>)"
| w_cancel: "(\<And>job. find (\<lambda>x. job_id (jobs (ws_store (sy_ws s)) x) = n) (jq_contents (sy_ws s)) = Some job \<Longrightarrow>
      cancel_safe (sy_ws s) job) \<Longrightarrow>
    osa_worker_pool_cancel c True n (sy_ws s) = Some (Return (r, ws)) \<Longrightarrow>
    pool_step N s (s\<lparr>sy_ws := ws\<rparr>)"
| w_waiter: "osa_worker_pool_wait c True job timeout_ms clock (sy_ws s) = Return (r, ws) \<Longrightarrow>
    pool_step N s (s\<lparr>sy_ws := ws\<rparr>)"
| w_take: "sy_pc s t = W_wait \<Longrightarrow>
    osa_sem_wait (wp_work_sem (ws_pool (sy_ws s))) (-1) clock = Return (0, sem) \<Longrightarrow>
    pool_step N s (s\<lparr>sy_ws := upd_pool (\<lambda>p. p\<lparr>wp_work_sem := sem\<rparr>) (sy_ws s), sy_pc := (sy_pc s)(t := W_woken)\<rparr>)"
| w_fetch: "sy_pc s t = W_woken \<Longrightarrow> worker_fetch t (sy_ws s) = Return (f, ws) \<Longrightarrow>
    pool_step N s (s\<lparr>sy_ws := ws, sy_pc := (sy_pc s)(t := after_fetch f)\<rparr>)"
| w_exec: "sy_pc s t = W_run j \<Longrightarrow>
    pool_step N s (s\<lparr>sy_ws := job_executed j ret (sy_ws s), sy_pc := (sy_pc s)(t := W_return j)\<rparr>)"
| w_complete: "sy_pc s t = W_return j \<Longrightarrow>
    worker_complete t cb pad now j (sy_hsms s) (sy_ws s) = Return (hsms, ws) \<Longrightarrow>
    (\<And>p. in_use s p \<Longrightarrow> p \<noteq> j \<Longrightarrow> jobs (ws_store ws) p = jobs (ws_store (sy_ws s)) p) \<Longrightarrow>
    pool_step N s (s\<lparr>sy_ws := ws, sy_hsms := hsms, sy_pc := (sy_pc s)(t := W_wait)\<rparr>)"
| w_stop: "stop_signal c (sy_ws s) = Return ws \<Longrightarrow> pool_step N s (s\<lparr>sy_ws := ws\<rparr>)"
| w_post: "shutdown (ws_pool (sy_ws s)) \<Longrightarrow> sy_posts s < N \<Longrightarrow>
    pool_step N s (s\<lparr>sy_ws := stop_post (sy_ws s), sy_posts := Suc (sy_posts s)\<rparr>)"

text \<open>The start: an initialised pool with its \<open>N\<close> workers at the semaphore.\<close>

definition pool_start :: "nat \<Rightarrow> worker_state \<Rightarrow> hsm_table \<Rightarrow> pool_sys" where
  "pool_start N ws hsms =
    \<lparr>sy_ws = ws, sy_pc = (\<lambda>t. if t < N then W_wait else W_exit), sy_hsms = hsms, sy_posts = 0\<rparr>"

inductive pool_reachable :: "nat \<Rightarrow> pool_sys \<Rightarrow> pool_sys \<Rightarrow> bool" for N s0 where
  pool_refl: "pool_reachable N s0 s0"
| pool_next: "pool_reachable N s0 s \<Longrightarrow> pool_step N s s' \<Longrightarrow> pool_reachable N s0 s'"

section \<open>The lock is free between steps\<close>

abbreviation free_lock :: "osa_mutex_internal option" where
  "free_lock \<equiv> Some \<lparr>m_owner = None\<rparr>"

lemma with_lock_free:
  assumes "wp_lock (ws_pool ws) = free_lock"
    and "wp_lock (ws_pool (snd (body (upd_pool (\<lambda>p. p\<lparr>wp_lock := Some \<lparr>m_owner = Some t\<rparr>\<rparr>) ws)))) =
      Some \<lparr>m_owner = Some t\<rparr>"
  obtains r ws' where "body (upd_pool (\<lambda>p. p\<lparr>wp_lock := Some \<lparr>m_owner = Some t\<rparr>\<rparr>) ws) = (r, ws')"
    "with_lock t body ws = Return (r, upd_pool (\<lambda>p. p\<lparr>wp_lock := free_lock\<rparr>) ws')"
proof -
  let ?ws = "upd_pool (\<lambda>p. p\<lparr>wp_lock := Some \<lparr>m_owner = Some t\<rparr>\<rparr>) ws"
  obtain r ws' where b: "body ?ws = (r, ws')" by fastforce
  moreover have "wp_lock (ws_pool ws') = Some \<lparr>m_owner = Some t\<rparr>"
    using assms(2) b by simp
  ultimately show ?thesis
    using assms(1) by (intro that [OF b]) (simp add: with_lock_def acquire_def release_def osa_mutex_lock_def osa_mutex_unlock_def)
qed

text \<open>No body touches the lock.\<close>

lemma bodies_lock [simp]:
  "wp_lock (ws_pool (snd (submit_body job ws))) = wp_lock (ws_pool ws)"
  "wp_lock (ws_pool (snd (fetch_body ws))) = wp_lock (ws_pool ws)"
  "wp_lock (ws_pool (snd (complete_body cb pad now job hsms ws))) = wp_lock (ws_pool ws)"
  "wp_lock (ws_pool (unlink_job job ws)) = wp_lock (ws_pool ws)"
  by (simp_all add: submit_body_def fetch_body_def complete_body_def unlink_job_def Let_def split: prod.splits)

text \<open>The queue depends on the links, the geometry and the jobs in it.\<close>

lemma rep_frame:
  assumes "job_queue_rep ws xs" and "\<And>x. x \<in> set xs \<Longrightarrow> jobs (ws_store ws') x = jobs (ws_store ws) x"
    and "job_queue_head (ws_pool ws') = job_queue_head (ws_pool ws)"
    and "job_queue_tail (ws_pool ws') = job_queue_tail (ws_pool ws)"
    and "queue_size (ws_pool ws') = queue_size (ws_pool ws)"
    and "queue_depth (stats (ws_pool ws')) = queue_depth (stats (ws_pool ws))"
  shows "job_queue_rep ws' xs"
proof -
  have "seg (ws_store ws') p xs q = seg (ws_store ws) p xs q" for p q
    using assms(2) by (intro seg_cong) simp
  moreover have "back_links (ws_store ws') xs = back_links (ws_store ws) xs"
    using assms(2) by (cases xs) (auto intro!: backs_cong)
  ultimately show ?thesis
    using assms by (simp add: job_queue_rep_def)
qed

lemma rep_lock [simp]: "job_queue_rep (upd_pool (\<lambda>p. p\<lparr>wp_lock := l\<rparr>) ws) xs = job_queue_rep ws xs"
  by (simp add: job_queue_rep_def)

lemma balance_lock [simp]: "stats_balance (upd_pool (\<lambda>p. p\<lparr>wp_lock := l\<rparr>) ws) = stats_balance ws"
  by (simp add: stats_balance_def)

section \<open>The effect of every call\<close>

text \<open>What no call but the stop changes, and the balance every call keeps.\<close>

definition pool_kept :: "worker_state \<Rightarrow> worker_state \<Rightarrow> bool" where
  "pool_kept ws ws' \<longleftrightarrow>
    wp_lock (ws_pool ws') = free_lock \<and> queue_size (ws_pool ws') = queue_size (ws_pool ws) \<and>
    shutdown (ws_pool ws') = shutdown (ws_pool ws) \<and> (stats_balance ws \<longrightarrow> stats_balance ws')"

abbreviation work_sem_of :: "worker_state \<Rightarrow> osa_sem_internal option" where
  "work_sem_of ws \<equiv> wp_work_sem (ws_pool ws)"

abbreviation active_of :: "worker_state \<Rightarrow> uint32" where
  "active_of ws \<equiv> active_workers (stats (ws_pool ws))"

lemma submit_body_rest:
  "active_of (snd (submit_body job ws)) = active_of ws"
  "queue_size (ws_pool (snd (submit_body job ws))) = queue_size (ws_pool ws)"
  "shutdown (ws_pool (snd (submit_body job ws))) = shutdown (ws_pool ws)"
  by (simp_all add: submit_body_def Let_def)

lemma submit_effect:
  assumes "wp_lock (ws_pool ws) = free_lock" and rep: "job_queue_rep ws xs"
    and job: "job \<noteq> NULL" "job \<notin> set xs"
    and call: "osa_worker_pool_submit c True job ws = Return (r, ws')"
  shows "pool_kept ws ws' \<and> active_of ws' = active_of ws \<and>
    (r = 0 \<and> length xs < unat (queue_size (ws_pool ws)) \<and> job_queue_rep ws' (xs @ [job]) \<and>
       work_sem_of ws' = osa_sem_post (work_sem_of ws) \<or>
     r = -1 \<and> length xs = unat (queue_size (ws_pool ws)) \<and> job_queue_rep ws' xs \<and> work_sem_of ws' = work_sem_of ws)"
proof -
  let ?ws = "upd_pool (\<lambda>p. p\<lparr>wp_lock := Some \<lparr>m_owner = Some c\<rparr>\<rparr>) ws"
  obtain ws1 where b: "submit_body job ?ws = (r, ws1)" "ws' = upd_pool (\<lambda>p. p\<lparr>wp_lock := free_lock\<rparr>) ws1"
    using call job(1) with_lock_free [OF assms(1), of "submit_body job" c]
    by (auto simp: osa_worker_pool_submit_def)
  have rest: "active_of ws1 = active_of ws" "queue_size (ws_pool ws1) = queue_size (ws_pool ws)"
    "shutdown (ws_pool ws1) = shutdown (ws_pool ws)" "stats_balance ws \<longrightarrow> stats_balance ws1"
    using submit_body_rest [of job ?ws] submit_balance [of ?ws job] b(1) by auto
  have rep1: "job_queue_rep ?ws xs"
    using rep by simp
  show ?thesis
  proof (cases "length xs < unat (queue_size (ws_pool ws))")
    case True
    then obtain ws2 where "submit_body job ?ws = (0, ws2)" "job_queue_rep ws2 (xs @ [job])"
      "work_sem_of ws2 = osa_sem_post (work_sem_of ?ws)"
      using submit_rep [OF rep1 job] by auto
    then show ?thesis
      using b rest True by (simp add: pool_kept_def)
  next
    case False
    then have len: "length xs = unat (queue_size (ws_pool ws))"
      using rep by (simp add: job_queue_rep_def)
    then have "submit_body job ?ws = (-1, ?ws)"
      by (intro submit_full [OF rep1]) simp
    then show ?thesis
      using b rest len rep by (auto simp: pool_kept_def)
  qed
qed

lemma fetch_body_rest:
  "queue_size (ws_pool (snd (fetch_body ws))) = queue_size (ws_pool ws)"
  "shutdown (ws_pool (snd (fetch_body ws))) = shutdown (ws_pool ws)"
  "work_sem_of (snd (fetch_body ws)) = work_sem_of ws"
  by (simp_all add: fetch_body_def Let_def)

lemma fetch_effect:
  assumes "wp_lock (ws_pool ws) = free_lock" and rep: "job_queue_rep ws xs"
    and call: "worker_fetch t ws = Return (f, ws')"
  shows "pool_kept ws ws' \<and> work_sem_of ws' = work_sem_of ws \<and>
    (if shutdown (ws_pool ws) then f = Fetch_exit \<and> job_queue_rep ws' xs \<and> active_of ws' = active_of ws
     else case xs of
       [] \<Rightarrow> f = Fetch_none \<and> job_queue_rep ws' [] \<and> active_of ws' = active_of ws
     | j # ys \<Rightarrow> f = Fetch_job j \<and> j \<noteq> NULL \<and> job_queue_rep ws' ys \<and> active_of ws' = active_of ws + 1)"
proof -
  let ?ws = "upd_pool (\<lambda>p. p\<lparr>wp_lock := Some \<lparr>m_owner = Some t\<rparr>\<rparr>) ws"
  obtain ws1 where b: "fetch_body ?ws = (f, ws1)" "ws' = upd_pool (\<lambda>p. p\<lparr>wp_lock := free_lock\<rparr>) ws1"
    using call with_lock_free [OF assms(1), of fetch_body t] by (auto simp: worker_fetch_def)
  have rest: "queue_size (ws_pool ws1) = queue_size (ws_pool ws)" "work_sem_of ws1 = work_sem_of ws"
    "shutdown (ws_pool ws1) = shutdown (ws_pool ws)" "stats_balance ws \<longrightarrow> stats_balance ws1"
    using fetch_body_rest [of ?ws] fetch_balance [of ?ws] b(1) by auto
  have rep1: "job_queue_rep ?ws xs"
    using rep by simp
  show ?thesis
  proof (cases "shutdown (ws_pool ws)")
    case True
    then have "fetch_body ?ws = (Fetch_exit, ?ws)"
      by (simp add: fetch_body_def Let_def)
    then show ?thesis
      using b rest rep True by (auto simp: pool_kept_def)
  next
    case False
    show ?thesis
    proof (cases xs)
      case Nil
      then have "fetch_body ?ws = (Fetch_none, ?ws)"
        using fetch_empty [of ?ws] rep1 False by simp
      then show ?thesis
        using b rest rep False Nil by (auto simp: pool_kept_def)
    next
      case (Cons j ys)
      obtain ws2 where "fetch_body ?ws = (Fetch_job j, ws2)" "job_queue_rep ws2 ys"
        using fetch_rep [of ?ws j ys] rep1 Cons False by auto
      moreover have "j \<noteq> NULL" "job_queue_head (ws_pool ws) = j"
        using rep Cons by (auto simp: job_queue_rep_def)
      then have "active_of (snd (fetch_body ?ws)) = active_of ws + 1"
        using False by (simp add: fetch_body_def Let_def)
      ultimately show ?thesis
        using b rest False Cons \<open>j \<noteq> NULL\<close> by (simp add: pool_kept_def)
    qed
  qed
qed

lemma cancel_effect:
  assumes "wp_lock (ws_pool ws) = free_lock" and rep: "job_queue_rep ws xs"
    and safe: "\<And>job. find (\<lambda>x. job_id (jobs (ws_store ws) x) = n) xs = Some job \<Longrightarrow> cancel_safe ws job"
    and call: "osa_worker_pool_cancel c True n ws = Some (Return (r, ws'))"
  shows "pool_kept ws ws' \<and> work_sem_of ws' = work_sem_of ws \<and> active_of ws' = active_of ws \<and>
    (job_queue_rep ws' xs \<or> (\<exists>j \<in> set xs. job_queue_rep ws' (remove1 j xs)))"
proof -
  let ?ws = "upd_pool (\<lambda>p. p\<lparr>wp_lock := Some \<lparr>m_owner = Some c\<rparr>\<rparr>) ws"
  have "acquire c ws = Return ?ws"
    using assms(1) by (simp add: acquire_def osa_mutex_lock_def)
  then obtain ws1 where b: "cancel_body n ?ws = Some (r, ws1)" "ws' = release ws1"
    using call by (auto simp: osa_worker_pool_cancel_def split: option.splits)
  have rep1: "job_queue_rep ?ws xs"
    using rep by simp
  have "find (\<lambda>x. job_id (jobs (ws_store ?ws) x) = n) xs = Some job \<Longrightarrow> cancel_safe ?ws job" for job
    using safe by (simp add: cancel_safe_def)
  from cancel_rep [OF rep1, of n, OF this]
  consider "cancel_body n ?ws = Some (-1, ?ws)"
    | j where "cancel_body n ?ws = Some (0, unlink_job j ?ws)" "j \<in> set xs" "job_queue_rep (unlink_job j ?ws) (remove1 j xs)"
    by (auto split: option.splits)
  then show ?thesis
  proof cases
    case 1
    then show ?thesis
      using b rep assms(1) by (auto simp: pool_kept_def release_def osa_mutex_unlock_def)
  next
    case (2 j)
    moreover have "active_of (unlink_job j ?ws) = active_of ws"
      by (simp add: unlink_job_def Let_def)
    moreover have "stats_balance ws \<Longrightarrow> stats_balance (unlink_job j ?ws)"
      by (rule unlink_balance) simp
    ultimately show ?thesis
      using b by (auto simp: pool_kept_def release_def osa_mutex_unlock_def unlink_frame)
  qed
qed

text \<open>The completion touches the pool only in its statistics and its completion semaphore.\<close>

lemma complete_body_rest:
  "job_queue_head (ws_pool (snd (complete_body cb pad now job hsms ws))) = job_queue_head (ws_pool ws)"
  "job_queue_tail (ws_pool (snd (complete_body cb pad now job hsms ws))) = job_queue_tail (ws_pool ws)"
  "queue_size (ws_pool (snd (complete_body cb pad now job hsms ws))) = queue_size (ws_pool ws)"
  "shutdown (ws_pool (snd (complete_body cb pad now job hsms ws))) = shutdown (ws_pool ws)"
  "work_sem_of (snd (complete_body cb pad now job hsms ws)) = work_sem_of ws"
  "queue_depth (stats (ws_pool (snd (complete_body cb pad now job hsms ws)))) = queue_depth (stats (ws_pool ws))"
  "active_of (snd (complete_body cb pad now job hsms ws)) = active_of ws - 1"
  by (simp_all add: complete_body_def Let_def split: prod.splits)

lemma complete_effect:
  assumes "wp_lock (ws_pool ws) = free_lock" and rep: "job_queue_rep ws xs"
    and call: "worker_complete t cb pad now j hsms ws = Return (hsms', ws')"
    and frame: "\<And>p. p \<in> set xs \<Longrightarrow> jobs (ws_store ws') p = jobs (ws_store ws) p"
  shows "pool_kept ws ws' \<and> work_sem_of ws' = work_sem_of ws \<and> active_of ws' = active_of ws - 1 \<and>
    job_queue_rep ws' xs"
proof -
  let ?ws = "upd_pool (\<lambda>p. p\<lparr>wp_lock := Some \<lparr>m_owner = Some t\<rparr>\<rparr>) ws"
  let ?body = "complete_body cb pad now j hsms"
  obtain ws1 where b: "?body ?ws = (hsms', ws1)" "ws' = upd_pool (\<lambda>p. p\<lparr>wp_lock := free_lock\<rparr>) ws1"
    using call with_lock_free [OF assms(1), of ?body t] by (auto simp: worker_complete_def)
  have "job_queue_rep ws' xs"
    using complete_body_rest [of cb pad now j hsms ?ws] b by (intro rep_frame [OF rep frame]) auto
  moreover have "stats_balance ws \<Longrightarrow> stats_balance ws1"
    using complete_balance [of ?ws cb pad now j hsms] b(1) by simp
  ultimately show ?thesis
    using complete_body_rest [of cb pad now j hsms ?ws] b by (simp add: pool_kept_def)
qed

lemma wait_effect:
  assumes "wp_lock (ws_pool ws) = free_lock" and rep: "job_queue_rep ws xs"
    and call: "osa_worker_pool_wait c True job timeout_ms clock ws = Return (r, ws')"
  shows "pool_kept ws ws' \<and> work_sem_of ws' = work_sem_of ws \<and> active_of ws' = active_of ws \<and>
    job_queue_rep ws' xs"
proof -
  have "\<exists>s. ws' = upd_pool (\<lambda>p. p\<lparr>wp_lock := free_lock, wp_complete_sem := s\<rparr>) ws"
  proof (cases "job = NULL")
    case True
    then have "ws' = ws"
      using call by (simp add: osa_worker_pool_wait_def)
    then show ?thesis
      using assms(1) by (intro exI [of _ "wp_complete_sem (ws_pool ws)"]) simp
  next
    case False
    note defs = with_lock_def acquire_def release_def osa_mutex_lock_def osa_mutex_unlock_def
    show ?thesis
    proof (cases "timeout_ms = 0")
      case True
      then have "ws' = upd_pool (\<lambda>p. p\<lparr>wp_lock := free_lock\<rparr>) ws"
        using call False assms(1) by (auto simp: osa_worker_pool_wait_def defs)
      then show ?thesis
        by (intro exI [of _ "wp_complete_sem (ws_pool ws)"]) simp
    next
      case nz: False
      then show ?thesis
        using call False assms(1) by (auto simp: osa_worker_pool_wait_def defs split: call.splits)
    qed
  qed
  then show ?thesis
    using rep by (auto simp: pool_kept_def job_queue_rep_def stats_balance_def)
qed

lemma stop_effect:
  assumes "wp_lock (ws_pool ws) = free_lock" and "stop_signal c ws = Return ws'"
  shows "ws' = upd_pool (\<lambda>p. p\<lparr>wp_lock := free_lock, shutdown := True\<rparr>) ws"
  using assms by (auto simp: stop_signal_def with_lock_def acquire_def release_def osa_mutex_lock_def osa_mutex_unlock_def)

lemma rep_self: "job_queue_rep ws xs \<Longrightarrow> job_queue_rep ws (jq_contents ws)"
  by (simp add: rep_contents)

section \<open>The invariant\<close>

text \<open>The queue and who works on what.\<close>

definition inv_queue :: "nat \<Rightarrow> pool_sys \<Rightarrow> bool" where
  "inv_queue N s \<longleftrightarrow>
    wp_lock (ws_pool (sy_ws s)) = free_lock \<and>
    job_queue_rep (sy_ws s) (jq_contents (sy_ws s)) \<and>
    (\<forall>t \<ge> N. sy_pc s t = W_exit) \<and>
    (\<forall>t j. busy_with (sy_pc s t) = Some j \<longrightarrow> j \<noteq> NULL \<and> j \<notin> set (jq_contents (sy_ws s))) \<and>
    (\<forall>t u j. busy_with (sy_pc s t) = Some j \<longrightarrow> busy_with (sy_pc s u) = Some j \<longrightarrow> t = u)"

text \<open>The statistics agree with the threads.\<close>

definition inv_stats :: "pool_sys \<Rightarrow> bool" where
  "inv_stats s \<longleftrightarrow>
    stats_balance (sy_ws s) \<and>
    active_of (sy_ws s) = of_nat (card {t. busy_with (sy_pc s t) \<noteq> None})"

text \<open>How many workers have taken a token and not yet looked at the queue, and how many have not left.\<close>

definition woken_count :: "(nat \<Rightarrow> worker_pc) \<Rightarrow> nat" where
  "woken_count pcs = card {t. pcs t = W_woken}"

definition alive_count :: "(nat \<Rightarrow> worker_pc) \<Rightarrow> nat" where
  "alive_count pcs = card {t. pcs t \<noteq> W_exit}"

text \<open>
  The tokens of the work semaphore: while the pool runs, every queued job has a token or a worker on
  its way to the queue; while it stops, every post has reached a worker that has not left yet.
\<close>

definition inv_tokens :: "nat \<Rightarrow> pool_sys \<Rightarrow> bool" where
  "inv_tokens N s \<longleftrightarrow>
    unat (queue_size (ws_pool (sy_ws s))) \<le> SEM_VALUE_MAX \<and> N \<le> SEM_VALUE_MAX \<and> sy_posts s \<le> N \<and>
    (\<exists>sem. work_sem_of (sy_ws s) = Some sem \<and>
      (\<not> shutdown (ws_pool (sy_ws s)) \<longrightarrow>
        sy_posts s = 0 \<and> length (jq_contents (sy_ws s)) \<le> sem_value sem + woken_count (sy_pc s)) \<and>
      sy_posts s + alive_count (sy_pc s) \<le> sem_value sem + woken_count (sy_pc s) + N)"

lemma inv_queueD:
  assumes "inv_queue N s"
  shows "wp_lock (ws_pool (sy_ws s)) = free_lock" "job_queue_rep (sy_ws s) (jq_contents (sy_ws s))"
    "finite {t. P (sy_pc s t) \<and> sy_pc s t \<noteq> W_exit}"
proof -
  have "{t. P (sy_pc s t) \<and> sy_pc s t \<noteq> W_exit} \<subseteq> {..<N}"
    using assms by (auto simp: inv_queue_def not_less [symmetric])
  then show "finite {t. P (sy_pc s t) \<and> sy_pc s t \<noteq> W_exit}"
    by (rule finite_subset) simp
qed (use assms in \<open>simp_all add: inv_queue_def\<close>)

lemma inv_queue_finite:
  assumes "inv_queue N s"
  shows "finite {t. sy_pc s t \<noteq> W_exit}" "finite {t. sy_pc s t = W_woken}"
    "finite {t. busy_with (sy_pc s t) \<noteq> None}"
proof -
  show f: "finite {t. sy_pc s t \<noteq> W_exit}"
    using inv_queueD(3) [OF assms, of "\<lambda>_. True"] by simp
  show "finite {t. sy_pc s t = W_woken}" "finite {t. busy_with (sy_pc s t) \<noteq> None}"
    by (rule finite_subset [OF _ f]; auto)+
qed

lemma inv_queue_busy:
  assumes "inv_queue N s" and "busy_with (sy_pc s t) = Some j"
  shows "j \<noteq> NULL" "j \<notin> set (jq_contents (sy_ws s))" "t < N" "busy_with (sy_pc s u) = Some j \<Longrightarrow> t = u"
proof -
  show "j \<noteq> NULL" "j \<notin> set (jq_contents (sy_ws s))"
    using assms unfolding inv_queue_def by blast+
  show "busy_with (sy_pc s u) = Some j \<Longrightarrow> t = u"
    using assms unfolding inv_queue_def by blast
  show "t < N"
  proof (rule ccontr)
    assume "\<not> t < N"
    then have "sy_pc s t = W_exit"
      using assms(1) by (simp add: inv_queue_def)
    with assms(2) show False by simp
  qed
qed

section \<open>The abstract pool\<close>

text \<open>
  What the pool promises: jobs wait in a list of bounded length, idle workers take the first one,
  a finished worker is idle again, and a cancelled job leaves the list.
\<close>

record pool_spec =
  sp_queue :: "ptr list"
  sp_busy :: "nat \<Rightarrow> ptr option"
  sp_cap :: nat

inductive spec_step :: "pool_spec \<Rightarrow> pool_spec \<Rightarrow> bool" where
  spec_same: "spec_step a a"
| spec_accept: "length (sp_queue a) < sp_cap a \<Longrightarrow> j \<notin> set (sp_queue a) \<Longrightarrow> (\<And>t. sp_busy a t \<noteq> Some j) \<Longrightarrow>
    spec_step a (a\<lparr>sp_queue := sp_queue a @ [j]\<rparr>)"
| spec_start: "sp_queue a = j # js \<Longrightarrow> sp_busy a t = None \<Longrightarrow>
    spec_step a (a\<lparr>sp_queue := js, sp_busy := (sp_busy a)(t := Some j)\<rparr>)"
| spec_finish: "sp_busy a t = Some j \<Longrightarrow> spec_step a (a\<lparr>sp_busy := (sp_busy a)(t := None)\<rparr>)"
| spec_cancel: "j \<in> set (sp_queue a) \<Longrightarrow> spec_step a (a\<lparr>sp_queue := remove1 j (sp_queue a)\<rparr>)"

definition pool_abs :: "pool_sys \<Rightarrow> pool_spec" where
  "pool_abs s =
    \<lparr>sp_queue = jq_contents (sy_ws s), sp_busy = (\<lambda>t. busy_with (sy_pc s t)),
     sp_cap = unat (queue_size (ws_pool (sy_ws s)))\<rparr>"

text \<open>The steps that leave the queue as it is.\<close>

lemma client_rep:
  assumes "inv_queue N s" and "\<And>p. in_use s p \<Longrightarrow> jobs st p = jobs (ws_store (sy_ws s)) p"
  shows "job_queue_rep ((sy_ws s)\<lparr>ws_store := st\<rparr>) (jq_contents (sy_ws s))"
  by (rule rep_frame [OF inv_queueD(2) [OF assms(1)]]) (simp_all add: assms(2) in_use_def)

lemma sem_rep:
  assumes "inv_queue N s"
  shows "job_queue_rep (upd_pool (\<lambda>p. p\<lparr>wp_work_sem := sem\<rparr>) (sy_ws s)) (jq_contents (sy_ws s))"
  by (rule rep_frame [OF inv_queueD(2) [OF assms]]) simp_all

lemma exec_rep:
  assumes "inv_queue N s" and "sy_pc s t = W_run j"
  shows "job_queue_rep (job_executed j ret (sy_ws s)) (jq_contents (sy_ws s))"
proof -
  have "j \<notin> set (jq_contents (sy_ws s))"
    using inv_queue_busy(2) [OF assms(1), of t j] assms(2) by simp
  then show ?thesis
    by (intro rep_frame [OF inv_queueD(2) [OF assms(1)]]) (auto simp: job_executed_def)
qed

lemma complete_step_effect:
  assumes "inv_queue N s" and "sy_pc s t = W_return j"
    and "worker_complete t cb pad now j (sy_hsms s) (sy_ws s) = Return (hsms, ws)"
    and "\<And>p. in_use s p \<Longrightarrow> p \<noteq> j \<Longrightarrow> jobs (ws_store ws) p = jobs (ws_store (sy_ws s)) p"
  shows "pool_kept (sy_ws s) ws \<and> work_sem_of ws = work_sem_of (sy_ws s) \<and>
    active_of ws = active_of (sy_ws s) - 1 \<and> job_queue_rep ws (jq_contents (sy_ws s))"
proof -
  have "j \<notin> set (jq_contents (sy_ws s))"
    using inv_queue_busy(2) [OF assms(1), of t j] assms(2) by simp
  then have "jobs (ws_store ws) p = jobs (ws_store (sy_ws s)) p" if "p \<in> set (jq_contents (sy_ws s))" for p
    using that assms(4) [of p] by (auto simp: in_use_def)
  from complete_effect [OF inv_queueD(1,2) [OF assms(1)] assms(3) this] show ?thesis .
qed

lemma stop_rep:
  assumes "inv_queue N s" and "stop_signal c (sy_ws s) = Return ws"
  shows "job_queue_rep ws (jq_contents (sy_ws s))"
  by (rule rep_frame [OF inv_queueD(2) [OF assms(1)]])
    (simp_all add: stop_effect [OF inv_queueD(1) [OF assms(1)] assms(2)])

text \<open>The effect of a step on the queue and the workers, for all that follows.\<close>

definition pool_effect :: "pool_sys \<Rightarrow> pool_sys \<Rightarrow> bool" where
  "pool_effect s s' \<longleftrightarrow>
    (let ws = sy_ws s; ws' = sy_ws s'; xs = jq_contents ws
     in wp_lock (ws_pool ws') = free_lock \<and> queue_size (ws_pool ws') = queue_size (ws_pool ws) \<and>
        (stats_balance ws \<longrightarrow> stats_balance ws') \<and>
        (job_queue_rep ws' xs \<and> (\<forall>t. busy_with (sy_pc s' t) = busy_with (sy_pc s t)) \<and> active_of ws' = active_of ws \<or>
         (\<exists>j. job_queue_rep ws' (xs @ [j]) \<and> \<not> in_use s j \<and> j \<noteq> NULL \<and> length xs < unat (queue_size (ws_pool ws)) \<and>
            sy_pc s' = sy_pc s \<and> active_of ws' = active_of ws) \<or>
         (\<exists>t j ys. xs = j # ys \<and> j \<noteq> NULL \<and> job_queue_rep ws' ys \<and> sy_pc s t = W_woken \<and>
            sy_pc s' = (sy_pc s)(t := W_run j) \<and> active_of ws' = active_of ws + 1) \<or>
         (\<exists>t j. job_queue_rep ws' xs \<and> sy_pc s t = W_return j \<and> sy_pc s' = (sy_pc s)(t := W_wait) \<and>
            active_of ws' = active_of ws - 1) \<or>
         (\<exists>j \<in> set xs. job_queue_rep ws' (remove1 j xs) \<and> sy_pc s' = sy_pc s \<and> active_of ws' = active_of ws)))"

lemma pool_step_effect:
  assumes "pool_step N s s'" and "inv_queue N s"
  shows "pool_effect s s'"
  using assms
proof (induction rule: pool_step.induct)
  case (w_submit job s c r ws)
  note inv = inv_queueD(1,2) [OF w_submit.prems]
  have "job \<notin> set (jq_contents (sy_ws s))"
    using w_submit.hyps(2) by (simp add: in_use_def)
  from submit_effect [OF inv w_submit.hyps(1) this w_submit.hyps(3)] w_submit.hyps(1,2) show ?case
    by (auto simp: pool_effect_def pool_kept_def Let_def)
next
  case (w_client s st)
  then show ?case
    using client_rep [OF w_client.prems w_client.hyps] inv_queueD(1) [OF w_client.prems]
    by (simp add: pool_effect_def Let_def stats_balance_def)
next
  case (w_cancel s n c r ws)
  from cancel_effect [OF inv_queueD(1,2) [OF w_cancel.prems] w_cancel.hyps(1) w_cancel.hyps(2)] show ?case
    by (auto simp: pool_effect_def pool_kept_def Let_def)
next
  case (w_waiter c job timeout_ms clock s r ws)
  from wait_effect [OF inv_queueD(1,2) [OF w_waiter.prems] w_waiter.hyps] show ?case
    by (simp add: pool_effect_def pool_kept_def Let_def)
next
  case (w_take s t clock sem)
  then show ?case
    using sem_rep [OF w_take.prems] inv_queueD(1) [OF w_take.prems]
    by (simp add: pool_effect_def Let_def stats_balance_def)
next
  case (w_fetch s t f ws)
  from fetch_effect [OF inv_queueD(1,2) [OF w_fetch.prems] w_fetch.hyps(2)] show ?case
    using w_fetch.hyps(1)
    by (cases "jq_contents (sy_ws s)")
      (auto simp: pool_effect_def pool_kept_def Let_def split: if_splits)
next
  case (w_exec s t j ret)
  then show ?case
    using exec_rep [OF w_exec.prems w_exec.hyps] inv_queueD(1) [OF w_exec.prems]
    by (simp add: pool_effect_def Let_def job_executed_def stats_balance_def)
next
  case (w_complete s t j cb pad now hsms ws)
  from complete_step_effect [OF w_complete.prems w_complete.hyps] w_complete.hyps(1) show ?case
    by (auto simp: pool_effect_def pool_kept_def Let_def)
next
  case (w_stop c s ws)
  then show ?case
    using stop_rep [OF w_stop.prems w_stop.hyps]
    by (simp add: pool_effect_def Let_def stats_balance_def stop_effect [OF inv_queueD(1) [OF w_stop.prems] w_stop.hyps])
next
  case (w_post s)
  then show ?case
    using sem_rep [OF w_post.prems] inv_queueD(1) [OF w_post.prems]
    by (simp add: pool_effect_def Let_def stats_balance_def stop_post_def)
qed

lemma pool_effect_cases [consumes 1, case_names same accept start finish cancel]:
  assumes "pool_effect s s'"
  obtains "jq_contents (sy_ws s') = jq_contents (sy_ws s)" "\<And>t. busy_with (sy_pc s' t) = busy_with (sy_pc s t)"
    "active_of (sy_ws s') = active_of (sy_ws s)"
  | j where "jq_contents (sy_ws s') = jq_contents (sy_ws s) @ [j]" "\<not> in_use s j" "j \<noteq> NULL"
    "length (jq_contents (sy_ws s)) < unat (queue_size (ws_pool (sy_ws s)))" "sy_pc s' = sy_pc s"
    "active_of (sy_ws s') = active_of (sy_ws s)"
  | t j where "jq_contents (sy_ws s) = j # jq_contents (sy_ws s')" "j \<noteq> NULL" "sy_pc s t = W_woken"
    "sy_pc s' = (sy_pc s)(t := W_run j)" "active_of (sy_ws s') = active_of (sy_ws s) + 1"
  | t j where "jq_contents (sy_ws s') = jq_contents (sy_ws s)" "sy_pc s t = W_return j"
    "sy_pc s' = (sy_pc s)(t := W_wait)" "active_of (sy_ws s') = active_of (sy_ws s) - 1"
  | j where "j \<in> set (jq_contents (sy_ws s))" "jq_contents (sy_ws s') = remove1 j (jq_contents (sy_ws s))"
    "sy_pc s' = sy_pc s" "active_of (sy_ws s') = active_of (sy_ws s)"
  using assms unfolding pool_effect_def Let_def by (elim conjE disjE exE bexE) (auto dest: rep_contents)

section \<open>Every step keeps the invariant and refines the abstract pool\<close>

lemma pool_step_exited:
  assumes "pool_step N s s'" and "\<forall>t \<ge> N. sy_pc s t = W_exit"
  shows "\<forall>t \<ge> N. sy_pc s' t = W_exit"
  using assms by (induction rule: pool_step.induct) auto

lemma pool_step_queue:
  assumes step: "pool_step N s s'" and inv: "inv_queue N s"
  shows "inv_queue N s'"
proof -
  have eff: "pool_effect s s'"
    by (rule pool_step_effect [OF step inv])
  have exited: "\<forall>t \<ge> N. sy_pc s' t = W_exit"
    using pool_step_exited [OF step] inv by (simp add: inv_queue_def)
  have lock: "wp_lock (ws_pool (sy_ws s')) = free_lock"
    and rep: "job_queue_rep (sy_ws s') (jq_contents (sy_ws s'))"
    using eff unfolding pool_effect_def Let_def by (simp, blast intro: rep_self)
  have d: "distinct (jq_contents (sy_ws s))"
    using inv_queueD(2) [OF inv] by (simp add: job_queue_rep_def)
  have busy: "j \<noteq> NULL \<and> j \<notin> set (jq_contents (sy_ws s')) \<and> (\<forall>u. busy_with (sy_pc s' u) = Some j \<longrightarrow> t = u)"
    if b: "busy_with (sy_pc s' t) = Some j" for t j
  proof -
    have old: "i \<noteq> NULL \<and> i \<notin> set (jq_contents (sy_ws s)) \<and> (\<forall>u. busy_with (sy_pc s u) = Some i \<longrightarrow> v = u)"
      if "busy_with (sy_pc s v) = Some i" for v i
      using inv_queue_busy [OF inv that] by blast
    from eff show ?thesis
    proof (cases rule: pool_effect_cases)
    case same
    then show ?thesis using old [of t j] b by simp
  next
    case (accept i)
    moreover have "i \<noteq> j"
      using accept(2,5) b by (auto simp: in_use_def)
    ultimately show ?thesis using old [of t j] b by simp
  next
    case (start u i)
    have i: "busy_with (sy_pc s v) \<noteq> Some i" for v
      using old [of v i] start(1) by auto
    show ?thesis
    proof (cases "t = u")
      case True
      then have "j = i"
        using b start(4) by simp
      moreover have "i \<notin> set (jq_contents (sy_ws s'))"
        using d unfolding start(1) by simp
      moreover have "busy_with (sy_pc s' v) = Some i \<Longrightarrow> u = v" for v
        using i start(4) by (simp split: if_splits)
      ultimately show ?thesis
        using start(2) True by blast
    next
      case False
      then have t: "busy_with (sy_pc s t) = Some j" and ji: "j \<noteq> i"
        using b start(4) i by auto
      have "busy_with (sy_pc s v) = Some j" if "busy_with (sy_pc s' v) = Some j" for v
        using that ji start(4) by (auto split: if_splits)
      moreover have "j \<notin> set (jq_contents (sy_ws s'))"
        using old [OF t] start(1) by simp
      ultimately show ?thesis
        using old [OF t] by blast
    qed
  next
    case (finish u i)
    have bk: "busy_with (sy_pc s v) = Some j" if "busy_with (sy_pc s' v) = Some j" for v
      using that finish(3) by (auto split: if_splits)
    from old [OF bk [OF b]] bk show ?thesis
      unfolding finish(1) by blast
  next
    case (cancel i)
    from old [OF b [unfolded cancel(3)]] show ?thesis
      unfolding cancel(2,3) by (blast dest: notin_set_remove1)
    qed
  qed
  show ?thesis
    using lock rep exited busy unfolding inv_queue_def by blast
qed

lemma pool_step_stats:
  assumes step: "pool_step N s s'" and inv: "inv_queue N s" and st: "inv_stats s"
  shows "inv_stats s'"
proof -
  let ?B = "\<lambda>pc. busy_with pc \<noteq> None"
  have eff: "pool_effect s s'"
    by (rule pool_step_effect [OF step inv])
  have bal: "stats_balance (sy_ws s')"
    using eff st by (simp add: pool_effect_def inv_stats_def Let_def)
  have fin: "finite {t. ?B (sy_pc s t)}"
    by (rule inv_queue_finite [OF inv])
  from eff have "active_of (sy_ws s') = of_nat (card {t. ?B (sy_pc s' t)})"
  proof (cases rule: pool_effect_cases)
    case (start t j)
    then have "card {u. ?B (sy_pc s' u)} = Suc (card {u. ?B (sy_pc s u)})"
      using card_enter [of ?B "sy_pc s" t "W_run j", OF fin] by simp
    then show ?thesis using start st by (simp add: inv_stats_def)
  next
    case (finish t j)
    then have "Suc (card {u. ?B (sy_pc s' u)}) = card {u. ?B (sy_pc s u)}"
      using card_leave [of ?B "sy_pc s" t W_wait, OF fin] by simp
    then have "(of_nat (card {u. ?B (sy_pc s u)}) :: uint32) = 1 + of_nat (card {u. ?B (sy_pc s' u)})"
      by (metis of_nat_Suc)
    then show ?thesis using finish st by (simp add: inv_stats_def)
  qed (use st in \<open>simp_all add: inv_stats_def\<close>)
  with bal show ?thesis by (simp add: inv_stats_def)
qed

lemma pool_step_refines:
  assumes step: "pool_step N s s'" and inv: "inv_queue N s"
  shows "spec_step (pool_abs s) (pool_abs s')"
proof -
  have eff: "pool_effect s s'"
    by (rule pool_step_effect [OF step inv])
  then have cap: "queue_size (ws_pool (sy_ws s')) = queue_size (ws_pool (sy_ws s))"
    by (simp add: pool_effect_def Let_def)
  from eff show ?thesis
  proof (cases rule: pool_effect_cases)
    case same
    then have "pool_abs s' = pool_abs s" by (simp add: pool_abs_def cap)
    then show ?thesis by (simp add: spec_same)
  next
    case (accept j)
    then have "pool_abs s' = (pool_abs s)\<lparr>sp_queue := sp_queue (pool_abs s) @ [j]\<rparr>"
      by (simp add: pool_abs_def cap)
    moreover have "spec_step (pool_abs s) ((pool_abs s)\<lparr>sp_queue := sp_queue (pool_abs s) @ [j]\<rparr>)"
      using accept by (intro spec_accept) (auto simp: pool_abs_def in_use_def)
    ultimately show ?thesis by simp
  next
    case (start t j)
    then have "pool_abs s' = (pool_abs s)\<lparr>sp_queue := jq_contents (sy_ws s'), sp_busy := (sp_busy (pool_abs s))(t := Some j)\<rparr>"
      by (auto simp: pool_abs_def cap)
    moreover have "spec_step (pool_abs s) ((pool_abs s)\<lparr>sp_queue := jq_contents (sy_ws s'), sp_busy := (sp_busy (pool_abs s))(t := Some j)\<rparr>)"
      using start by (intro spec_start) (auto simp: pool_abs_def)
    ultimately show ?thesis by simp
  next
    case (finish t j)
    then have "pool_abs s' = (pool_abs s)\<lparr>sp_busy := (sp_busy (pool_abs s))(t := None)\<rparr>"
      by (auto simp: pool_abs_def cap)
    moreover have "spec_step (pool_abs s) ((pool_abs s)\<lparr>sp_busy := (sp_busy (pool_abs s))(t := None)\<rparr>)"
      using finish by (intro spec_finish [of _ t j]) (auto simp: pool_abs_def)
    ultimately show ?thesis by simp
  next
    case (cancel j)
    then have "pool_abs s' = (pool_abs s)\<lparr>sp_queue := remove1 j (sp_queue (pool_abs s))\<rparr>"
      by (simp add: pool_abs_def cap)
    moreover have "spec_step (pool_abs s) ((pool_abs s)\<lparr>sp_queue := remove1 j (sp_queue (pool_abs s))\<rparr>)"
      using cancel by (intro spec_cancel) (auto simp: pool_abs_def)
    ultimately show ?thesis by simp
  qed
qed

section \<open>Tokens\<close>

lemma counts_move:
  assumes "inv_queue N s"
  shows "sy_pc s t \<noteq> W_woken \<Longrightarrow> woken_count ((sy_pc s)(t := W_woken)) = Suc (woken_count (sy_pc s))"
    and "sy_pc s t = W_woken \<Longrightarrow> x \<noteq> W_woken \<Longrightarrow> Suc (woken_count ((sy_pc s)(t := x))) = woken_count (sy_pc s)"
    and "sy_pc s t \<noteq> W_woken \<Longrightarrow> x \<noteq> W_woken \<Longrightarrow> woken_count ((sy_pc s)(t := x)) = woken_count (sy_pc s)"
    and "sy_pc s t \<noteq> W_exit \<Longrightarrow> Suc (alive_count ((sy_pc s)(t := W_exit))) = alive_count (sy_pc s)"
    and "sy_pc s t \<noteq> W_exit \<Longrightarrow> x \<noteq> W_exit \<Longrightarrow> alive_count ((sy_pc s)(t := x)) = alive_count (sy_pc s)"
  using card_enter [of "\<lambda>pc. pc = W_woken" "sy_pc s" t W_woken] card_leave [of "\<lambda>pc. pc = W_woken" "sy_pc s" t x]
    card_stay [of "\<lambda>pc. pc = W_woken" "sy_pc s" t x] card_leave [of "\<lambda>pc. pc \<noteq> W_exit" "sy_pc s" t W_exit]
    card_stay [of "\<lambda>pc. pc \<noteq> W_exit" "sy_pc s" t x] inv_queue_finite [OF assms]
  by (simp_all add: woken_count_def alive_count_def)

lemma alive_bound: "inv_queue N s \<Longrightarrow> alive_count (sy_pc s) \<le> N"
proof -
  assume "inv_queue N s"
  then have "{u. sy_pc s u \<noteq> W_exit} \<subseteq> {..<N}"
    by (auto simp: inv_queue_def not_less [symmetric])
  from card_mono [OF _ this] show ?thesis by (simp add: alive_count_def)
qed

text \<open>A step that leaves the semaphore and the woken and living workers alone, and lengthens no queue.\<close>

lemma tokens_quiet:
  assumes "inv_tokens N s" and "queue_size (ws_pool (sy_ws s')) = queue_size (ws_pool (sy_ws s))"
    and "work_sem_of (sy_ws s') = work_sem_of (sy_ws s)"
    and "shutdown (ws_pool (sy_ws s)) \<longrightarrow> shutdown (ws_pool (sy_ws s'))" and "sy_posts s' = sy_posts s"
    and "length (jq_contents (sy_ws s')) \<le> length (jq_contents (sy_ws s))"
    and "woken_count (sy_pc s') = woken_count (sy_pc s)"
    and "alive_count (sy_pc s') = alive_count (sy_pc s)"
  shows "inv_tokens N s'"
  using assms unfolding inv_tokens_def by auto

lemma tokens_submit:
  assumes "inv_tokens N s" and "inv_queue N s" and "job \<noteq> NULL" and "\<not> in_use s job"
    and "osa_worker_pool_submit c True job (sy_ws s) = Return (r, ws)"
  shows "inv_tokens N (s\<lparr>sy_ws := ws\<rparr>)"
proof -
  let ?xs = "jq_contents (sy_ws s)"
  obtain sem where sem: "work_sem_of (sy_ws s) = Some sem"
    using assms(1) by (auto simp: inv_tokens_def)
  have "job \<notin> set ?xs"
    using assms(4) by (simp add: in_use_def)
  note eff = submit_effect [OF inv_queueD(1,2) [OF assms(2)] assms(3) this assms(5)]
  from eff consider
    "length ?xs < unat (queue_size (ws_pool (sy_ws s)))" "jq_contents ws = ?xs @ [job]" "work_sem_of ws = osa_sem_post (Some sem)"
    | "jq_contents ws = ?xs" "work_sem_of ws = Some sem"
    using sem rep_contents by auto
  then show ?thesis
  proof cases
    case 1
    then show ?thesis
      using assms(1) eff sem by (auto simp: inv_tokens_def pool_kept_def osa_sem_post_def)
  next
    case 2
    then show ?thesis
      using eff sem by (intro tokens_quiet [OF assms(1)]) (auto simp: pool_kept_def)
  qed
qed

lemma tokens_take:
  assumes "inv_tokens N s" and "inv_queue N s" and "sy_pc s t = W_wait"
    and "osa_sem_wait (work_sem_of (sy_ws s)) (-1) clock = Return (0, sem')"
  shows "inv_tokens N (s\<lparr>sy_ws := upd_pool (\<lambda>p. p\<lparr>wp_work_sem := sem'\<rparr>) (sy_ws s), sy_pc := (sy_pc s)(t := W_woken)\<rparr>)"
proof -
  obtain sem where sem: "work_sem_of (sy_ws s) = Some sem"
    using assms(1) by (auto simp: inv_tokens_def)
  then have sem': "0 < sem_value sem" "sem' = Some (sem\<lparr>sem_value := sem_value sem - 1\<rparr>)"
    using assms(4) by (auto simp: osa_sem_wait_def sem_take_def split: if_splits)
  have "woken_count ((sy_pc s)(t := W_woken)) = Suc (woken_count (sy_pc s))"
    "alive_count ((sy_pc s)(t := W_woken)) = alive_count (sy_pc s)"
    using assms(3) counts_move(1,5) [OF assms(2), of t] by simp_all
  moreover have "jq_contents (upd_pool (\<lambda>p. p\<lparr>wp_work_sem := sem'\<rparr>) (sy_ws s)) = jq_contents (sy_ws s)"
    by (rule rep_contents [OF sem_rep [OF assms(2)]])
  ultimately show ?thesis
    using assms(1) sem sem' unfolding inv_tokens_def by auto
qed

lemma tokens_fetch:
  assumes "inv_tokens N s" and "inv_queue N s" and "sy_pc s t = W_woken"
    and "worker_fetch t (sy_ws s) = Return (f, ws)"
  shows "inv_tokens N (s\<lparr>sy_ws := ws, sy_pc := (sy_pc s)(t := after_fetch f)\<rparr>)"
proof -
  let ?xs = "jq_contents (sy_ws s)" and ?pcs = "(sy_pc s)(t := after_fetch f)"
  note eff = fetch_effect [OF inv_queueD(1,2) [OF assms(2)] assms(4)]
  have kept: "work_sem_of ws = work_sem_of (sy_ws s)" "queue_size (ws_pool ws) = queue_size (ws_pool (sy_ws s))"
    "shutdown (ws_pool ws) = shutdown (ws_pool (sy_ws s))"
    using eff by (simp_all add: pool_kept_def)
  have "after_fetch f \<noteq> W_woken"
    by (cases f) simp_all
  then have woken: "Suc (woken_count ?pcs) = woken_count (sy_pc s)"
    using assms(3) counts_move(2) [OF assms(2), of t] by simp
  show ?thesis
  proof (cases "shutdown (ws_pool (sy_ws s))")
    case True
    then have "f = Fetch_exit" using eff by simp
    then have "Suc (alive_count ?pcs) = alive_count (sy_pc s)"
      using assms(3) counts_move(4) [OF assms(2), of t] by simp
    then show ?thesis
      using assms(1) kept woken True unfolding inv_tokens_def by auto
  next
    case False
    then have "f \<noteq> Fetch_exit" and len: "length (jq_contents ws) = length ?xs - 1"
      using eff by (auto split: list.splits dest: rep_contents)
    then have "after_fetch f \<noteq> W_exit"
      by (cases f) auto
    then have "alive_count ?pcs = alive_count (sy_pc s)"
      using assms(3) counts_move(5) [OF assms(2), of t] by simp
    then show ?thesis
      using assms(1) kept woken False len alive_bound [OF assms(2)] unfolding inv_tokens_def by auto
  qed
qed

lemma tokens_post:
  assumes "inv_tokens N s" and "inv_queue N s" and "shutdown (ws_pool (sy_ws s))" and "sy_posts s < N"
  shows "inv_tokens N (s\<lparr>sy_ws := stop_post (sy_ws s), sy_posts := Suc (sy_posts s)\<rparr>)"
proof -
  obtain sem where sem: "work_sem_of (sy_ws s) = Some sem" "N \<le> SEM_VALUE_MAX"
    "sy_posts s + alive_count (sy_pc s) \<le> sem_value sem + woken_count (sy_pc s) + N"
    using assms(1) by (auto simp: inv_tokens_def)
  then obtain sem' where "work_sem_of (stop_post (sy_ws s)) = Some sem'"
    "Suc (sy_posts s) + alive_count (sy_pc s) \<le> sem_value sem' + woken_count (sy_pc s) + N"
    using assms(4) alive_bound [OF assms(2)]
    by (cases "sem_value sem < SEM_VALUE_MAX") (auto simp: stop_post_def osa_sem_post_def)
  then show ?thesis
    using assms(1,3,4) unfolding inv_tokens_def by (auto simp: stop_post_def)
qed

lemma pool_step_tokens:
  assumes "pool_step N s s'" and "inv_queue N s" and "inv_tokens N s"
  shows "inv_tokens N s'"
  using assms
proof (induction rule: pool_step.induct)
  case (w_submit job s c r ws)
  then show ?case by (blast intro: tokens_submit)
next
  case (w_client s st)
  then show ?case
    using rep_contents [OF client_rep [OF w_client.prems(1) w_client.hyps]]
    by (intro tokens_quiet [OF w_client.prems(2)]) simp_all
next
  case (w_cancel s n c r ws)
  from cancel_effect [OF inv_queueD(1,2) [OF w_cancel.prems(1)] w_cancel.hyps(1) w_cancel.hyps(2)]
  have "length (jq_contents ws) \<le> length (jq_contents (sy_ws s))"
    by (auto dest!: rep_contents simp: length_remove1)
  then show ?case
    using cancel_effect [OF inv_queueD(1,2) [OF w_cancel.prems(1)] w_cancel.hyps(1) w_cancel.hyps(2)]
    by (intro tokens_quiet [OF w_cancel.prems(2)]) (simp_all add: pool_kept_def)
next
  case (w_waiter c job timeout_ms clock s r ws)
  note eff = wait_effect [OF inv_queueD(1,2) [OF w_waiter.prems(1)] w_waiter.hyps]
  from eff have "jq_contents ws = jq_contents (sy_ws s)"
    by (intro rep_contents) simp
  with eff show ?case
    by (intro tokens_quiet [OF w_waiter.prems(2)]) (simp_all add: pool_kept_def)
next
  case (w_take s t clock sem)
  then show ?case by (blast intro: tokens_take)
next
  case (w_fetch s t f ws)
  then show ?case by (blast intro: tokens_fetch)
next
  case (w_exec s t j ret)
  have "woken_count ((sy_pc s)(t := W_return j)) = woken_count (sy_pc s)"
    "alive_count ((sy_pc s)(t := W_return j)) = alive_count (sy_pc s)"
    using w_exec.hyps counts_move(3,5) [OF w_exec.prems(1), of t] by simp_all
  then show ?case
    using rep_contents [OF exec_rep [OF w_exec.prems(1) w_exec.hyps]]
    by (intro tokens_quiet [OF w_exec.prems(2)]) (simp_all add: job_executed_def)
next
  case (w_complete s t j cb pad now hsms ws)
  have "woken_count ((sy_pc s)(t := W_wait)) = woken_count (sy_pc s)"
    "alive_count ((sy_pc s)(t := W_wait)) = alive_count (sy_pc s)"
    using w_complete.hyps(1) counts_move(3,5) [OF w_complete.prems(1), of t] by simp_all
  moreover have "jq_contents ws = jq_contents (sy_ws s)"
    using complete_step_effect [OF w_complete.prems(1) w_complete.hyps] by (intro rep_contents) simp
  ultimately show ?case
    using complete_step_effect [OF w_complete.prems(1) w_complete.hyps]
    by (intro tokens_quiet [OF w_complete.prems(2)]) (simp_all add: pool_kept_def)
next
  case (w_stop c s ws)
  then show ?case
    using rep_contents [OF stop_rep [OF w_stop.prems(1) w_stop.hyps]]
    by (intro tokens_quiet [OF w_stop.prems(2)])
      (simp_all add: stop_effect [OF inv_queueD(1) [OF w_stop.prems(1)] w_stop.hyps])
next
  case (w_post s)
  then show ?case by (blast intro: tokens_post)
qed

lemma pool_reachable_invs:
  assumes "pool_reachable N s0 s" and "inv_queue N s0" and "inv_stats s0" and "inv_tokens N s0"
  shows "inv_queue N s \<and> inv_stats s \<and> inv_tokens N s"
  using assms
proof (induction rule: pool_reachable.induct)
  case pool_refl
  then show ?case by simp
next
  case (pool_next s s')
  then show ?case by (blast intro: pool_step_queue pool_step_stats pool_step_tokens)
qed

text \<open>
  A pool as its initialisation and its start leave it, with whatever handles its threads have, and with its
  workers at the semaphore, satisfies the invariant.
\<close>

definition fresh_pool :: "osa_worker_pool \<Rightarrow> bool" where
  "fresh_pool pool \<longleftrightarrow>
    (\<exists>p0 name n q dup p hs h. osa_worker_pool_init True p0 name n q dup True 0 True True True = (0, p) \<and>
      pool = p\<lparr>wp_workers := hs, wp_completion_thread := h\<rparr>) \<and>
    unat (queue_size pool) \<le> SEM_VALUE_MAX"

lemma fresh_poolI:
  assumes "osa_worker_pool_init True p0 name n q dup True 0 True True True = (0, p)" and "unat (queue_size p) \<le> SEM_VALUE_MAX"
  shows "fresh_pool (p\<lparr>wp_workers := hs, wp_completion_thread := h\<rparr>)" "fresh_pool p"
proof -
  show f: "fresh_pool (p\<lparr>wp_workers := hs, wp_completion_thread := h\<rparr>)" for hs h
    unfolding fresh_pool_def
  proof
    show "\<exists>p0 name n q dup pa hs' h'. osa_worker_pool_init True p0 name n q dup True 0 True True True = (0, pa) \<and>
        p\<lparr>wp_workers := hs, wp_completion_thread := h\<rparr> = pa\<lparr>wp_workers := hs', wp_completion_thread := h'\<rparr>"
      using assms(1) by blast
  qed (use assms(2) in simp)
  show "fresh_pool p"
    using f [where hs = "wp_workers p" and h = "wp_completion_thread p"] by simp
qed

lemma fresh_pool_fields:
  assumes "fresh_pool pool"
  shows "wp_lock pool = free_lock" "job_queue_head pool = NULL" "job_queue_tail pool = NULL"
    "stats pool = zero_stats" "\<not> shutdown pool" "\<exists>sem. wp_work_sem pool = Some sem \<and> sem_value sem = 0"
    "unat (num_workers pool) \<le> 16" "unat (queue_size pool) \<le> SEM_VALUE_MAX"
proof -
  obtain p0 name n q dup p hs h where
    i: "osa_worker_pool_init True p0 name n q dup True 0 True True True = (0, p)"
    and pool: "pool = p\<lparr>wp_workers := hs, wp_completion_thread := h\<rparr>"
    using assms unfolding fresh_pool_def by blast
  have le: "unat n \<le> 16" if "\<not> 16 < n"
    using that by (simp add: word_less_nat_alt)
  show "wp_lock pool = free_lock" "job_queue_head pool = NULL" "job_queue_tail pool = NULL"
    "stats pool = zero_stats" "\<not> shutdown pool" "\<exists>sem. wp_work_sem pool = Some sem \<and> sem_value sem = 0"
    "unat (num_workers pool) \<le> 16"
    using i le unfolding pool
    by (auto simp: osa_worker_pool_init_def Let_def osa_mutex_create_def osa_sem_create_def zero_pool_def
        c_consts SEM_VALUE_MAX_def split: if_splits)
  show "unat (queue_size pool) \<le> SEM_VALUE_MAX"
    using assms by (simp add: fresh_pool_def)
qed

lemma pool_start_invs:
  fixes st :: job_store and hsms :: hsm_table
  assumes "fresh_pool pool" and "N = unat (num_workers pool)"
  defines "s0 \<equiv> pool_start N \<lparr>ws_pool = pool, ws_store = st\<rparr> hsms"
  shows "inv_queue N s0" "inv_stats s0" "inv_tokens N s0"
proof -
  note f = fresh_pool_fields [OF assms(1)]
  have rep: "job_queue_rep (sy_ws s0) []"
    using f by (simp add: s0_def pool_start_def job_queue_rep_def zero_stats_def)
  then have c: "jq_contents (sy_ws s0) = []"
    by (rule rep_contents)
  show "inv_queue N s0"
    using rep c f by (auto simp: inv_queue_def s0_def pool_start_def split: if_splits)
  have "{t. busy_with (sy_pc s0 t) \<noteq> None} = {}"
    by (auto simp: s0_def pool_start_def)
  then show "inv_stats s0"
    using f by (simp add: inv_stats_def stats_balance_def s0_def pool_start_def zero_stats_def)
  have "{t. sy_pc s0 t \<noteq> W_exit} = {..<N}" and "{t. sy_pc s0 t = W_woken} = {}"
    by (auto simp: s0_def pool_start_def)
  then have counts: "alive_count (sy_pc s0) = N" "woken_count (sy_pc s0) = 0"
    by (simp_all add: alive_count_def woken_count_def)
  obtain sem where "wp_work_sem pool = Some sem" "sem_value sem = 0"
    using f(6) by blast
  then show "inv_tokens N s0"
    using f(5,7,8) c counts assms(2)
    by (simp add: inv_tokens_def s0_def pool_start_def SEM_VALUE_MAX_def)
qed

lemmas pool_reachable_start =
  pool_reachable_invs [OF _ pool_start_invs(1) pool_start_invs(2) pool_start_invs(3)]

section \<open>Properties\<close>

text \<open>
  A sample run: the pool of a default initialisation with one worker; a client submits job 40, and
  worker 0 takes the token.
\<close>

definition sample_fresh :: osa_worker_pool where
  "sample_fresh = snd (osa_worker_pool_init True zero_pool None 1 4 True True 0 True True True)"

definition sample_store :: job_store where
  "sample_store = \<lparr>jobs = (\<lambda>p. zero_job\<lparr>job_id := of_nat p\<rparr>), g_job_id_counter = 100, g_job_pool_initialized = False\<rparr>"

definition sample_start :: pool_sys where
  "sample_start = pool_start 1 \<lparr>ws_pool = sample_fresh, ws_store = sample_store\<rparr> (\<lambda>_. sample_hsm)"

definition sample_submitted :: pool_sys where
  "sample_submitted = sample_start\<lparr>sy_ws :=
     (case osa_worker_pool_submit 5 True 40 (sy_ws sample_start) of Return (_, ws) \<Rightarrow> ws | Park _ \<Rightarrow> sy_ws sample_start)\<rparr>"

lemma sample_fresh_ok: "fresh_pool sample_fresh" "unat (num_workers sample_fresh) = 1"
proof -
  have "osa_worker_pool_init True zero_pool None 1 4 True True 0 True True True = (0, sample_fresh)"
    by (simp add: sample_fresh_def osa_worker_pool_init_def Let_def osa_mutex_create_def osa_sem_create_def
        c_consts SEM_VALUE_MAX_def)
  moreover have "queue_size sample_fresh = 4"
    by (simp add: sample_fresh_def osa_worker_pool_init_def Let_def osa_mutex_create_def osa_sem_create_def
        c_consts SEM_VALUE_MAX_def)
  ultimately show "fresh_pool sample_fresh"
    by (intro fresh_poolI(2)) (simp_all add: SEM_VALUE_MAX_def)
  show "unat (num_workers sample_fresh) = 1"
    by (simp add: sample_fresh_def osa_worker_pool_init_def Let_def osa_mutex_create_def osa_sem_create_def
        c_consts SEM_VALUE_MAX_def)
qed

lemma sample_start_inv: "inv_queue 1 sample_start" "jq_contents (sy_ws sample_start) = []"
proof -
  show "inv_queue 1 sample_start"
    unfolding sample_start_def by (rule pool_start_invs(1) [OF sample_fresh_ok(1)]) (simp add: sample_fresh_ok)
  have "job_queue_rep (sy_ws sample_start) []"
    using fresh_pool_fields [OF sample_fresh_ok(1)]
    by (simp add: sample_start_def pool_start_def job_queue_rep_def zero_stats_def)
  then show "jq_contents (sy_ws sample_start) = []"
    by (rule rep_contents)
qed

lemma sample_submit_step:
  "pool_step 1 sample_start sample_submitted" "jq_contents (sy_ws sample_submitted) = [40]"
proof -
  let ?ws = "sy_ws sample_start"
  have lock: "wp_lock (ws_pool ?ws) = free_lock"
    using inv_queueD(1) [OF sample_start_inv(1)] .
  obtain r ws where "with_lock 5 (submit_body 40) ?ws = Return (r, ws)"
    by (rule with_lock_free [OF lock, of "submit_body 40" 5]) (simp, blast)
  then have c: "osa_worker_pool_submit 5 True 40 ?ws = Return (r, ws)"
    by (simp add: osa_worker_pool_submit_def)
  have s: "sample_submitted = sample_start\<lparr>sy_ws := ws\<rparr>"
    by (simp add: sample_submitted_def c)
  have idle: "\<not> in_use sample_start 40"
    by (auto simp: in_use_def sample_start_inv(2)) (auto simp: sample_start_def pool_start_def split: if_splits)
  show "pool_step 1 sample_start sample_submitted"
    unfolding s by (rule w_submit [OF _ idle c]) simp
  have "queue_size (ws_pool ?ws) = 4"
    by (simp add: sample_start_def pool_start_def sample_fresh_def osa_worker_pool_init_def Let_def
        osa_mutex_create_def osa_sem_create_def c_consts SEM_VALUE_MAX_def)
  then show "jq_contents (sy_ws sample_submitted) = [40]"
    using submit_effect [OF lock inv_queueD(2) [OF sample_start_inv(1)] _ _ c] sample_start_inv(2)
    by (auto simp: s dest: rep_contents)
qed

lemma sample_reach:
  defines "N \<equiv> unat (num_workers sample_fresh)"
  shows "pool_reachable N (pool_start N \<lparr>ws_pool = sample_fresh, ws_store = sample_store\<rparr> (\<lambda>_. sample_hsm)) sample_start"
    and "pool_reachable N (pool_start N \<lparr>ws_pool = sample_fresh, ws_store = sample_store\<rparr> (\<lambda>_. sample_hsm)) sample_submitted"
    and "pool_step N sample_start sample_submitted"
  unfolding N_def sample_fresh_ok(2) sample_start_def [symmetric]
  by (rule pool_refl, rule pool_next [OF pool_refl sample_submit_step(1)], rule sample_submit_step(1))

text \<open>
  C3. The worker pool refines its specification: whatever the workers, clients and the stopping
  thread do in whatever order (with safe cancellations), each step of the code is a step of the
  abstract pool: an accepted job goes to the end of a bounded waiting list, an idle worker takes
  the first job, a worker that is done is idle again, a cancelled job leaves the list, or nothing
  changes.
\<close>

theorem worker_pool_refines:
  assumes "fresh_pool pool" and "N = unat (num_workers pool)"
    and "pool_reachable N (pool_start N \<lparr>ws_pool = pool, ws_store = st\<rparr> hsms) s" and "pool_step N s s'"
  shows "spec_step (pool_abs s) (pool_abs s')"
proof -
  have "inv_queue N s"
    using pool_reachable_start [OF assms(3) assms(1,2) assms(1,2) assms(1,2)] by simp
  with assms(4) show ?thesis by (rule pool_step_refines)
qed

theorem worker_pool_refines_witness:
  "spec_step \<lparr>sp_queue = [], sp_busy = (\<lambda>_. None), sp_cap = 4\<rparr> (pool_abs sample_submitted) \<and>
   sp_queue (pool_abs sample_submitted) = [40]"
proof -
  have "spec_step (pool_abs sample_start) (pool_abs sample_submitted)"
    by (rule worker_pool_refines [OF sample_fresh_ok(1) refl sample_reach(1) sample_reach(3)])
  moreover have "pool_abs sample_start = \<lparr>sp_queue = [], sp_busy = (\<lambda>_. None), sp_cap = 4\<rparr>"
    using sample_start_inv(2)
    by (auto simp: pool_abs_def sample_start_def pool_start_def sample_fresh_def osa_worker_pool_init_def Let_def
        osa_mutex_create_def osa_sem_create_def c_consts SEM_VALUE_MAX_def)
  ultimately show ?thesis
    using sample_submit_step(2) by (simp add: pool_abs_def)
qed

text \<open>
  C4. No job is forgotten: in every reachable state of a running pool there are at least as many
  tokens in the work semaphore, or workers on their way to the queue, as jobs in the queue; so while
  a job waits, a worker at the semaphore can go on, unless enough others are already on their way.
\<close>

theorem worker_no_lost_job:
  assumes "fresh_pool pool" and "N = unat (num_workers pool)"
    and "pool_reachable N (pool_start N \<lparr>ws_pool = pool, ws_store = st\<rparr> hsms) s"
    and "\<not> shutdown (ws_pool (sy_ws s))"
  shows "\<exists>sem. work_sem_of (sy_ws s) = Some sem \<and>
    length (jq_contents (sy_ws s)) \<le> sem_value sem + woken_count (sy_pc s) \<and>
    (woken_count (sy_pc s) < length (jq_contents (sy_ws s)) \<longrightarrow>
      (\<exists>sem'. osa_sem_wait (Some sem) (-1) clock = Return (0, sem')))"
proof -
  have "inv_tokens N s"
    using pool_reachable_start [OF assms(3) assms(1,2) assms(1,2) assms(1,2)] by simp
  then obtain sem where "work_sem_of (sy_ws s) = Some sem"
    "length (jq_contents (sy_ws s)) \<le> sem_value sem + woken_count (sy_pc s)"
    using assms(4) by (auto simp: inv_tokens_def)
  then show ?thesis
    by (auto simp: osa_sem_wait_def)
qed

theorem worker_no_lost_job_witness:
  "\<exists>sem. work_sem_of (sy_ws sample_submitted) = Some sem \<and>
    (\<exists>sem'. osa_sem_wait (Some sem) (-1) (Inl 1) = Return (0, sem'))"
proof -
  have "\<not> shutdown (ws_pool (sy_ws sample_start))"
    using fresh_pool_fields(5) [OF sample_fresh_ok(1)] by (simp add: sample_start_def pool_start_def)
  then have run: "\<not> shutdown (ws_pool (sy_ws sample_submitted))"
    by (auto simp: sample_submitted_def osa_worker_pool_submit_def with_lock_def acquire_def release_def
        osa_mutex_lock_def submit_body_def Let_def split: call.splits option.splits if_splits)
  have "woken_count (sy_pc sample_submitted) = 0"
    by (simp add: woken_count_def sample_submitted_def sample_start_def pool_start_def)
  with worker_no_lost_job [OF sample_fresh_ok(1) refl sample_reach(2) run, of "Inl 1"] sample_submit_step(2)
  show ?thesis
    by auto
qed

text \<open>
  C5. The statistics are right in every reachable state: \<^verbatim>\<open>queue_depth\<close> is the number of queued jobs,
  \<^verbatim>\<open>active_workers\<close> the number of workers that hold a job, and every accepted job is counted exactly
  once among the completed, failed, cancelled, queued and active ones (modulo \<open>2 ^ 32\<close>). No two workers
  hold the same job, and no queued job is held by a worker.
\<close>

theorem worker_stats_consistent:
  assumes "fresh_pool pool" and "N = unat (num_workers pool)"
    and "pool_reachable N (pool_start N \<lparr>ws_pool = pool, ws_store = st\<rparr> hsms) s"
  defines "c \<equiv> stats (ws_pool (sy_ws s))"
  shows "queue_depth c = of_nat (length (jq_contents (sy_ws s))) \<and>
    active_workers c = of_nat (card {t. busy_with (sy_pc s t) \<noteq> None}) \<and>
    total_submitted c = total_completed c + total_errors c + total_cancelled c + queue_depth c + active_workers c \<and>
    (\<forall>t j. busy_with (sy_pc s t) = Some j \<longrightarrow> j \<notin> set (jq_contents (sy_ws s)) \<and>
      (\<forall>u. busy_with (sy_pc s u) = Some j \<longrightarrow> t = u))"
proof -
  have q: "inv_queue N s" and st: "inv_stats s"
    using pool_reachable_start [OF assms(3) assms(1,2) assms(1,2) assms(1,2)] by simp_all
  have "queue_depth c = of_nat (length (jq_contents (sy_ws s)))"
    using inv_queueD(2) [OF q] by (simp add: job_queue_rep_def c_def)
  moreover have "active_workers c = of_nat (card {t. busy_with (sy_pc s t) \<noteq> None})"
    "total_submitted c = total_completed c + total_errors c + total_cancelled c + queue_depth c + active_workers c"
    using st by (simp_all add: inv_stats_def stats_balance_def c_def Let_def)
  moreover have "\<forall>t j. busy_with (sy_pc s t) = Some j \<longrightarrow> j \<notin> set (jq_contents (sy_ws s)) \<and>
      (\<forall>u. busy_with (sy_pc s u) = Some j \<longrightarrow> t = u)"
    using inv_queue_busy [OF q] by blast
  ultimately show ?thesis by blast
qed

theorem worker_stats_consistent_witness:
  "queue_depth (stats (ws_pool (sy_ws sample_submitted))) = 1"
  using worker_stats_consistent [OF sample_fresh_ok(1) refl sample_reach(2)] sample_submit_step(2)
  by simp

text \<open>
  C6. Shutting down leaves no worker behind: once the stop has set the flag and posted once per
  worker, a worker that is still at the semaphore finds a token, so it cannot block there, and when
  it then looks at the queue it leaves.
\<close>

theorem worker_stop_wakes_all:
  assumes "fresh_pool pool" and "N = unat (num_workers pool)"
    and "pool_reachable N (pool_start N \<lparr>ws_pool = pool, ws_store = st\<rparr> hsms) s"
    and "sy_posts s = N" and "shutdown (ws_pool (sy_ws s))"
  shows "(sy_pc s t = W_wait \<longrightarrow> (\<exists>sem. osa_sem_wait (work_sem_of (sy_ws s)) (-1) clock = Return (0, sem))) \<and>
    (\<exists>ws. worker_fetch t (sy_ws s) = Return (Fetch_exit, ws))"
proof -
  have q: "inv_queue N s" and tok: "inv_tokens N s"
    using pool_reachable_start [OF assms(3) assms(1,2) assms(1,2) assms(1,2)] by simp_all
  obtain sem where sem: "work_sem_of (sy_ws s) = Some sem" "alive_count (sy_pc s) \<le> sem_value sem + woken_count (sy_pc s)"
    using tok assms(4) by (auto simp: inv_tokens_def)
  have "0 < sem_value sem" if w: "sy_pc s t = W_wait"
  proof -
    have "{u. sy_pc s u = W_woken} \<subset> {u. sy_pc s u \<noteq> W_exit}"
    proof
      show "{u. sy_pc s u = W_woken} \<subseteq> {u. sy_pc s u \<noteq> W_exit}" by auto
      have "t \<in> {u. sy_pc s u \<noteq> W_exit} - {u. sy_pc s u = W_woken}" using w by simp
      then show "{u. sy_pc s u = W_woken} \<noteq> {u. sy_pc s u \<noteq> W_exit}" by blast
    qed
    then have "woken_count (sy_pc s) < alive_count (sy_pc s)"
      unfolding woken_count_def alive_count_def by (intro psubset_card_mono inv_queue_finite [OF q])
    with sem(2) show ?thesis by simp
  qed
  moreover have "\<exists>ws. worker_fetch t (sy_ws s) = Return (Fetch_exit, ws)"
    using with_lock_free [OF inv_queueD(1) [OF q], of fetch_body t] assms(5)
    by (auto simp: worker_fetch_def fetch_body_def Let_def)
  ultimately show ?thesis
    using sem(1) by (auto simp: osa_sem_wait_def)
qed

text \<open>The sample pool stopped at once: the flag set and its one worker posted.\<close>

definition sample_stopped :: pool_sys where
  "sample_stopped = sample_start\<lparr>sy_ws := stop_post
     (upd_pool (\<lambda>p. p\<lparr>wp_lock := free_lock, shutdown := True\<rparr>) (sy_ws sample_start)), sy_posts := 1\<rparr>"

theorem worker_stop_wakes_all_witness:
  "\<exists>sem. osa_sem_wait (work_sem_of (sy_ws sample_stopped)) (-1) (Inl 1) = Return (0, sem)"
proof -
  let ?N = "unat (num_workers sample_fresh)"
  let ?ws1 = "upd_pool (\<lambda>p. p\<lparr>wp_lock := free_lock, shutdown := True\<rparr>) (sy_ws sample_start)"
  have lock: "wp_lock (ws_pool (sy_ws sample_start)) = free_lock"
    using inv_queueD(1) [OF sample_start_inv(1)] .
  then have "stop_signal 5 (sy_ws sample_start) = Return ?ws1"
    by (simp add: stop_signal_def with_lock_def acquire_def release_def osa_mutex_lock_def osa_mutex_unlock_def)
  from w_stop [OF this] have 1: "pool_step ?N sample_start (sample_start\<lparr>sy_ws := ?ws1\<rparr>)" .
  have "pool_step ?N (sample_start\<lparr>sy_ws := ?ws1\<rparr>) sample_stopped"
    using w_post [of "sample_start\<lparr>sy_ws := ?ws1\<rparr>" ?N]
    by (simp add: sample_stopped_def sample_fresh_ok(2) sample_start_def pool_start_def)
  from pool_next [OF pool_next [OF sample_reach(1) 1] this]
  have r: "pool_reachable ?N (pool_start ?N \<lparr>ws_pool = sample_fresh, ws_store = sample_store\<rparr> (\<lambda>_. sample_hsm)) sample_stopped" .
  have "sy_posts sample_stopped = ?N" "shutdown (ws_pool (sy_ws sample_stopped))" "sy_pc sample_stopped 0 = W_wait"
    by (simp_all add: sample_stopped_def sample_fresh_ok(2) stop_post_def sample_start_def pool_start_def)
  with worker_stop_wakes_all [OF sample_fresh_ok(1) refl r, of 0 "Inl 1"] show ?thesis by simp
qed

end
