(* ===== verification/Worker_Steps.thy ===== *)
theory Worker_Steps
  imports Worker_Threads
begin

text \<open>
  What the programs built on the worker pool share: the effect of one stretch of a worker on the fields
  of the jobs, the statistics and the semaphores, when the completion callback leaves the pool
  alone; that a worker between two blocking points can always go on; and sums over the workers, in
  which the progress of a system is measured.
\<close>

section \<open>The stretches of the workers\<close>

text \<open>The invariants of the workers do not look at the machines.\<close>

lemma invs_cong:
  assumes "sy_ws s' = sy_ws s" and "sy_pc s' = sy_pc s" and "sy_posts s' = sy_posts s"
  shows "inv_queue N s' = inv_queue N s" "inv_tokens N s' = inv_tokens N s" "in_use s' = in_use s"
  using assms by (simp_all add: inv_queue_def inv_tokens_def) (rule ext, simp add: in_use_def)

abbreviation complete_sem_of :: "worker_state \<Rightarrow> osa_sem_internal option" where
  "complete_sem_of ws \<equiv> wp_complete_sem (ws_pool ws)"

text \<open>The threads of a pool: their number and their handles.\<close>

definition pool_threads :: "worker_state \<Rightarrow> uint32 \<times> ptr option list option \<times> ptr" where
  "pool_threads ws = (num_workers (ws_pool ws), wp_workers (ws_pool ws), wp_completion_thread (ws_pool ws))"

text \<open>A submission changes neither what a job is to do nor the state of another job, and counts itself.\<close>

lemma submit_body_payload:
  "target_hsm (jobs (ws_store (snd (submit_body job ws))) x) = target_hsm (jobs (ws_store ws) x)"
  "completion_signal (jobs (ws_store (snd (submit_body job ws))) x) = completion_signal (jobs (ws_store ws) x)"
  "job_func (jobs (ws_store (snd (submit_body job ws))) x) = job_func (jobs (ws_store ws) x)"
  "job_ctx (jobs (ws_store (snd (submit_body job ws))) x) = job_ctx (jobs (ws_store ws) x)"
  "complete_cb (jobs (ws_store (snd (submit_body job ws))) x) = complete_cb (jobs (ws_store ws) x)"
  "g_job_pool_initialized (ws_store (snd (submit_body job ws))) = g_job_pool_initialized (ws_store ws)"
  "x \<noteq> job \<Longrightarrow> job_state (jobs (ws_store (snd (submit_body job ws))) x) = job_state (jobs (ws_store ws) x)"
  "job_result (jobs (ws_store (snd (submit_body job ws))) x) = job_result (jobs (ws_store ws) x)"
  by (simp_all add: submit_body_def Let_def)

lemma submit_keeps:
  assumes "osa_worker_pool_submit c True job ws = Return (r, ws')" and "job \<noteq> NULL"
  shows "job_func (jobs (ws_store ws') q) = job_func (jobs (ws_store ws) q)"
    "job_ctx (jobs (ws_store ws') q) = job_ctx (jobs (ws_store ws) q)"
    "target_hsm (jobs (ws_store ws') q) = target_hsm (jobs (ws_store ws) q)"
    "job_result (jobs (ws_store ws') q) = job_result (jobs (ws_store ws) q)"
    "complete_sem_of ws' = complete_sem_of ws" "pool_threads ws' = pool_threads ws"
    "total_submitted (stats (ws_pool ws')) = total_submitted (stats (ws_pool ws)) + (if r = 0 then 1 else 0)"
    "total_completed (stats (ws_pool ws')) = total_completed (stats (ws_pool ws))"
    "total_cancelled (stats (ws_pool ws')) = total_cancelled (stats (ws_pool ws))"
    "total_errors (stats (ws_pool ws')) = total_errors (stats (ws_pool ws))"
proof -
  obtain lk ws1 where b: "submit_body job (upd_pool (\<lambda>p. p\<lparr>wp_lock := lk\<rparr>) ws) = (r, ws1)" "ws' = release ws1"
    using assms
    by (cases "osa_mutex_lock c (wp_lock (ws_pool ws))")
      (auto simp: osa_worker_pool_submit_def with_lock_def acquire_def split: prod.splits)
  show "job_func (jobs (ws_store ws') q) = job_func (jobs (ws_store ws) q)"
    "job_ctx (jobs (ws_store ws') q) = job_ctx (jobs (ws_store ws) q)"
    "target_hsm (jobs (ws_store ws') q) = target_hsm (jobs (ws_store ws) q)"
    "job_result (jobs (ws_store ws') q) = job_result (jobs (ws_store ws) q)"
    using submit_body_payload(1,3,4,8) [of job "upd_pool (\<lambda>p. p\<lparr>wp_lock := lk\<rparr>) ws" q] b by (simp_all add: release_def)
  show "complete_sem_of ws' = complete_sem_of ws" "pool_threads ws' = pool_threads ws"
    "total_submitted (stats (ws_pool ws')) = total_submitted (stats (ws_pool ws)) + (if r = 0 then 1 else 0)"
    "total_completed (stats (ws_pool ws')) = total_completed (stats (ws_pool ws))"
    "total_cancelled (stats (ws_pool ws')) = total_cancelled (stats (ws_pool ws))"
    "total_errors (stats (ws_pool ws')) = total_errors (stats (ws_pool ws))"
    using b by (auto simp: submit_body_def Let_def release_def pool_threads_def split: if_splits)
qed

text \<open>A fetch changes the links and the state of the job it takes, and two counters.\<close>

lemma fetch_keeps:
  assumes "worker_fetch t ws = Return (f, ws')"
  shows "jobs (ws_store ws') q =
      (if f = Fetch_job q then (jobs (ws_store ws) q)\<lparr>job_next := NULL, job_prev := NULL, job_state := OSA_JOB_RUNNING\<rparr>
       else jobs (ws_store ws) q)"
    "g_job_pool_initialized (ws_store ws') = g_job_pool_initialized (ws_store ws)"
    "complete_sem_of ws' = complete_sem_of ws" "pool_threads ws' = pool_threads ws"
    "total_submitted (stats (ws_pool ws')) = total_submitted (stats (ws_pool ws))"
    "total_completed (stats (ws_pool ws')) = total_completed (stats (ws_pool ws))"
    "total_cancelled (stats (ws_pool ws')) = total_cancelled (stats (ws_pool ws))"
    "total_errors (stats (ws_pool ws')) = total_errors (stats (ws_pool ws))"
  using assms
  by (auto simp: pool_threads_def worker_fetch_def with_lock_def acquire_def release_def fetch_body_def osa_mutex_lock_def Let_def
      split: option.splits if_splits call.splits)

lemma exec_keeps [simp]:
  "jobs (ws_store (job_executed j r ws)) q =
    (if q = j then (jobs (ws_store ws) q)\<lparr>job_result := (if job_func (jobs (ws_store ws) q) \<noteq> NULL then r else -1)\<rparr>
     else jobs (ws_store ws) q)"
  "g_job_pool_initialized (ws_store (job_executed j r ws)) = g_job_pool_initialized (ws_store ws)"
  "ws_pool (job_executed j r ws) = ws_pool ws"
  by (simp_all add: job_executed_def)

text \<open>The completion of a job whose callback does not touch the jobs and the machines.\<close>

lemma complete_silent:
  fixes j :: ptr
  assumes "wp_lock (ws_pool ws) = free_lock" and silent: "\<And>fn job result ctx x. cb fn job result ctx x = x"
  defines "jb \<equiv> jobs (ws_store ws) j"
  obtains ws' where
    "worker_complete t cb pad now j hsms ws =
      Return (if target_hsm jb \<noteq> NULL
        then (case post_now pad (completion_event j jb) now (Some (hsms (target_hsm jb))) of
                (_, Some h) \<Rightarrow> hsms(target_hsm jb := h) | (_, None) \<Rightarrow> hsms)
        else hsms, ws')"
    "\<And>q. jobs (ws_store ws') q = (if q = j
      then jb\<lparr>job_state := (if job_result jb < 0 then OSA_JOB_ERROR else OSA_JOB_COMPLETED)\<rparr> else jobs (ws_store ws) q)"
    "g_job_pool_initialized (ws_store ws') = g_job_pool_initialized (ws_store ws)"
    "complete_sem_of ws' = osa_sem_post (complete_sem_of ws)" "pool_threads ws' = pool_threads ws"
    "total_submitted (stats (ws_pool ws')) = total_submitted (stats (ws_pool ws))"
    "total_cancelled (stats (ws_pool ws')) = total_cancelled (stats (ws_pool ws))"
    "total_completed (stats (ws_pool ws')) = total_completed (stats (ws_pool ws)) + (if job_result jb < 0 then 0 else 1)"
    "total_errors (stats (ws_pool ws')) = total_errors (stats (ws_pool ws)) + (if job_result jb < 0 then 1 else 0)"
proof -
  let ?lk = "upd_pool (\<lambda>p. p\<lparr>wp_lock := Some \<lparr>m_owner = Some t\<rparr>\<rparr>) ws"
  let ?b = "complete_body cb pad now j hsms"
  have "wp_lock (ws_pool (snd (?b ?lk))) = Some \<lparr>m_owner = Some t\<rparr>"
    by simp
  from with_lock_free [where body = ?b, OF assms(1) this]
  obtain r ws' where w: "?b ?lk = (r, ws')" "with_lock t ?b ws = Return (r, upd_pool (\<lambda>p. p\<lparr>wp_lock := free_lock\<rparr>) ws')"
    by blast
  show ?thesis
    by (rule that [of "upd_pool (\<lambda>p. p\<lparr>wp_lock := free_lock\<rparr>) ws'"])
      (use w in \<open>auto simp: worker_complete_def complete_body_def Let_def silent jb_def completion_event_def pool_threads_def cong: if_cong\<close>)
qed

lemma complete_keeps:
  assumes free: "wp_lock (ws_pool ws) = free_lock" and silent: "\<And>fn job result ctx x. cb fn job result ctx x = x"
    and c: "worker_complete t cb pad now j hsms ws = Return (hsms', ws')"
  defines "jb \<equiv> jobs (ws_store ws) j"
  shows "jobs (ws_store ws') q = (if q = j
      then jb\<lparr>job_state := (if job_result jb < 0 then OSA_JOB_ERROR else OSA_JOB_COMPLETED)\<rparr> else jobs (ws_store ws) q)"
    "complete_sem_of ws' = osa_sem_post (complete_sem_of ws)" "pool_threads ws' = pool_threads ws"
    "total_submitted (stats (ws_pool ws')) = total_submitted (stats (ws_pool ws))"
    "total_cancelled (stats (ws_pool ws')) = total_cancelled (stats (ws_pool ws))"
    "total_completed (stats (ws_pool ws')) = total_completed (stats (ws_pool ws)) + (if job_result jb < 0 then 0 else 1)"
    "total_errors (stats (ws_pool ws')) = total_errors (stats (ws_pool ws)) + (if job_result jb < 0 then 1 else 0)"
  using c unfolding jb_def
  by - (rule complete_silent [where cb = cb and t = t and pad = pad and now = now and j = j and hsms = hsms, OF free silent],
      simp)+

section \<open>A worker can go on\<close>

lemma fetch_returns:
  assumes "wp_lock (ws_pool ws) = free_lock"
  obtains f ws' where "worker_fetch t ws = Return (f, ws')"
  unfolding worker_fetch_def
  by (rule with_lock_free [OF assms, where body = fetch_body and t = t]) (simp, blast)

text \<open>A worker that waits can take a token while a job is queued and nobody is on the way to it.\<close>

lemma take_returns:
  assumes "inv_tokens N s" and "jq_contents (sy_ws s) \<noteq> []" and "woken_count (sy_pc s) = 0"
    and "\<not> shutdown (ws_pool (sy_ws s))"
  obtains sem where "osa_sem_wait (work_sem_of (sy_ws s)) (-1) clock = Return (0, sem)"
proof -
  obtain sem where sem: "work_sem_of (sy_ws s) = Some sem" "length (jq_contents (sy_ws s)) \<le> sem_value sem"
    using assms by (auto simp: inv_tokens_def)
  then have "0 < sem_value sem"
    using assms(2) by (cases "jq_contents (sy_ws s)") auto
  with sem(1) show ?thesis
    by (intro that [of "Some (sem_take sem)"]) (simp add: osa_sem_wait_def)
qed

section \<open>Sums over the workers\<close>

definition pc_sum :: "nat \<Rightarrow> (worker_pc \<Rightarrow> nat) \<Rightarrow> (nat \<Rightarrow> worker_pc) \<Rightarrow> nat" where
  "pc_sum N w pcs = (\<Sum>t < N. w (pcs t))"

lemma pc_sum_move:
  assumes "t < N"
  shows "pc_sum N w (pcs(t := x)) + w (pcs t) = pc_sum N w pcs + w x"
proof -
  have split: "(\<Sum>u < N. f u) = f t + (\<Sum>u \<in> {..<N} - {t}. f u)" for f :: "nat \<Rightarrow> nat"
    using assms by (simp add: sum.remove)
  have "(\<Sum>u \<in> {..<N} - {t}. w ((pcs(t := x)) u)) = (\<Sum>u \<in> {..<N} - {t}. w (pcs u))"
    by (rule sum.cong) simp_all
  then show ?thesis
    unfolding pc_sum_def using split [of "\<lambda>u. w ((pcs(t := x)) u)"] split [of "\<lambda>u. w (pcs u)"] by simp
qed

lemma pc_sum_bound:
  assumes "\<And>x. w x \<le> k"
  shows "pc_sum N w pcs \<le> N * k"
proof -
  have "pc_sum N w pcs \<le> (\<Sum>t < N. k)"
    unfolding pc_sum_def by (rule sum_mono) (rule assms)
  then show ?thesis by simp
qed

lemma pc_sum_zero: "pc_sum N w pcs = 0 \<longleftrightarrow> (\<forall>t < N. w (pcs t) = 0)"
  by (auto simp: pc_sum_def)

text \<open>How far a worker is from its next wait, and the tokens left for the workers.\<close>

fun pc_weight :: "worker_pc \<Rightarrow> nat" where
  "pc_weight W_woken = 1"
| "pc_weight (W_run _) = 3"
| "pc_weight (W_return _) = 2"
| "pc_weight _ = 0"

lemma pc_weight_le: "pc_weight x \<le> 3"
  by (cases x) simp_all

definition tokens :: "worker_state \<Rightarrow> nat" where
  "tokens ws = (case work_sem_of ws of None \<Rightarrow> 0 | Some sem \<Rightarrow> sem_value sem)"

lemma take_tokens:
  assumes "osa_sem_wait (work_sem_of ws) (-1) clock = Return (0, sem)"
  shows "Suc (tokens (upd_pool (\<lambda>p. p\<lparr>wp_work_sem := sem\<rparr>) ws)) = tokens ws"
  using assms by (auto simp: tokens_def osa_sem_wait_def sem_take_def EINVAL_def split: option.splits if_splits)

end
