(* ===== verification/Worker_Example.thy ===== *)
theory Worker_Example
  imports Worker_Steps
begin

text \<open>
  The example of a state machine that hands its work to the worker pool,
  \<^verbatim>\<open>examples/linux/hsm_worker.c\<close>: the states \<open>idle\<close>, \<open>working\<close> and its child \<open>processing\<close>, the job
  function and the completion callback. The object extends \<open>osa_hsm_active\<close> by the fields of
  \<^verbatim>\<open>struct worker_pool_example\<close>; \<open>ex_ws\<close> is the pool it points to together with the job objects. The
  address of the object, \<open>self\<close>, and the dispatcher's thread, \<open>t\<close>, are arguments. A handler that would
  block on the lock of the pool, or never returns, is \<open>None\<close>. Logging is left out.

  The lemmas: the application is one of the framework (\<open>hsm_app\<close>), and what each event
  does in each state, down to the queue of the pool.
\<close>

section \<open>Data\<close>

definition SIG_WORK_START :: int where [c_consts]: "SIG_WORK_START = HSM_USER_SIG"
definition SIG_WORK_COMPLETE :: int where [c_consts]: "SIG_WORK_COMPLETE = HSM_USER_SIG + 1"
definition SIG_WORK_CANCEL :: int where [c_consts]: "SIG_WORK_CANCEL = HSM_USER_SIG + 2"
definition SIG_WORK_PROGRESS :: int where [c_consts]: "SIG_WORK_PROGRESS = HSM_USER_SIG + 3"
definition SIG_WORK_ERROR :: int where [c_consts]: "SIG_WORK_ERROR = HSM_USER_SIG + 4"
definition SIG_MAX :: int where [c_consts]: "SIG_MAX = HSM_USER_SIG + 5"

record worker_pool_example = osa_hsm_active +
  ex_ws :: worker_state
  current_job :: ptr
  job_count :: uint32
  completed_count :: uint32
  error_count :: uint32
  operation_progress :: int
  operation_result :: int

definition state_idle :: ptr where "state_idle = 1"
definition state_working :: ptr where "state_working = 2"
definition state_processing :: ptr where "state_processing = 3"

definition wex_states :: state_table where
  "wex_states =
    [state_idle \<mapsto> \<lparr>st_handler = 11, st_parent = NULL, st_name = ''idle''\<rparr>,
     state_working \<mapsto> \<lparr>st_handler = 12, st_parent = NULL, st_name = ''working''\<rparr>,
     state_processing \<mapsto> \<lparr>st_handler = 13, st_parent = state_working, st_name = ''processing''\<rparr>]"

definition g_sig_str :: "string list" where
  "g_sig_str = [''work_start'', ''work_complete'', ''work_cancel'', ''work_progress'', ''work_error'']"

text \<open>\<open>None\<close> is a read outside the table of the framework.\<close>

definition get_sig_name :: "int \<Rightarrow> string option" where
  "get_sig_name signal =
    (if signal \<ge> HSM_USER_SIG \<and> signal < SIG_MAX then Some (g_sig_str ! nat (signal - HSM_USER_SIG))
     else oas_hsm_sig_str signal)"

section \<open>The job\<close>

text \<open>
  The job function from iteration \<open>i\<close> on, \<open>k\<close> iterations to go: \<open>cancelled i\<close> tells whether it sees its
  job cancelled then. It returns its result and the progress it leaves.
\<close>

fun heavy_loop :: "(nat \<Rightarrow> bool) \<Rightarrow> uint32 \<Rightarrow> nat \<Rightarrow> nat \<Rightarrow> int \<Rightarrow> int \<times> int" where
  "heavy_loop cancelled jobs_started i 0 progress =
    (if jobs_started mod 7 = 0 then -1 else sint (jobs_started * 10), progress)"
| "heavy_loop cancelled jobs_started i (Suc k) progress =
    (if cancelled i then (-1, progress)
     else heavy_loop cancelled jobs_started (Suc i) k ((int i + 1) * 20))"

definition simulate_heavy_computation ::
  "(nat \<Rightarrow> bool) \<Rightarrow> 'a worker_pool_example_scheme \<Rightarrow> int \<times> 'a worker_pool_example_scheme" where
  "simulate_heavy_computation cancelled ex =
    (case heavy_loop cancelled (job_count ex) 0 5 (operation_progress ex) of
       (result, progress) \<Rightarrow> (result, ex\<lparr>operation_progress := progress\<rparr>))"

definition job_completion_callback ::
  "int \<Rightarrow> 'a worker_pool_example_scheme \<Rightarrow> 'a worker_pool_example_scheme" where
  "job_completion_callback result ex = ex\<lparr>operation_result := result\<rparr>"

text \<open>The addresses of the two functions.\<close>

definition heavy_fn :: ptr where "heavy_fn = 21"
definition callback_fn :: ptr where "callback_fn = 22"

section \<open>Handlers\<close>

text \<open>The transition with which the handlers end, and its result.\<close>

definition transit_to ::
  "'a worker_pool_example_scheme caller \<Rightarrow> ptr \<Rightarrow> 'a worker_pool_example_scheme \<Rightarrow>
   (int \<times> 'a worker_pool_example_scheme) option" where
  "transit_to call s ex = map_option (\<lambda>ex'. (hsm_error ex', ex')) (STATE_TRANSIT wex_states call s ex)"

definition state_idle_handler :: "'a worker_pool_example_scheme handler" where
  "state_idle_handler call event ex =
    (if ev_signal event = HSM_SIG_ENTRY then Some (0, ex\<lparr>operation_progress := 0, operation_result := 0\<rparr>)
     else if ev_signal event = SIG_WORK_START then transit_to call state_working ex
     else Some (0, ex))"

text \<open>The entry of \<open>working\<close>: allocate, initialise and submit a job.\<close>

definition working_entry :: "nat \<Rightarrow> ptr \<Rightarrow> 'a worker_pool_example_scheme caller \<Rightarrow>
  'a worker_pool_example_scheme \<Rightarrow> (int \<times> 'a worker_pool_example_scheme) option" where
  "working_entry t self call ex =
    (let ex1 = ex\<lparr>job_count := job_count ex + 1\<rparr>;
         (job, st) = osa_worker_job_alloc (ws_store (ex_ws ex1));
         ex2 = ex1\<lparr>ex_ws := (ex_ws ex1)\<lparr>ws_store := st\<rparr>\<rparr>
     in if job = NULL then transit_to call state_idle ex2
        else
          let ex3 = ex2\<lparr>current_job := job\<rparr>;
              ws3 = (ex_ws ex3)\<lparr>ws_store := osa_worker_job_init (ws_store (ex_ws ex3)) job heavy_fn self callback_fn self\<rparr>
          in case osa_worker_pool_submit_to_hsm t True job self SIG_WORK_COMPLETE ws3 of
               Park _ \<Rightarrow> None
             | Return (ret, ws4) \<Rightarrow>
                 if ret \<noteq> 0
                 then transit_to call state_idle
                   (ex3\<lparr>ex_ws := ws4\<lparr>ws_store := osa_worker_job_free (ws_store ws4) job\<rparr>, current_job := NULL\<rparr>)
                 else transit_to call state_processing (ex3\<lparr>ex_ws := ws4\<rparr>))"

definition working_complete :: "ptr \<Rightarrow> 'a worker_pool_example_scheme \<Rightarrow> 'a worker_pool_example_scheme" where
  "working_complete job ex =
    (if job \<noteq> NULL
     then
       let st = ws_store (ex_ws ex);
           ex1 = (if job_result (jobs st job) < 0 then ex\<lparr>error_count := error_count ex + 1\<rparr>
                  else ex\<lparr>completed_count := completed_count ex + 1\<rparr>)
       in ex1\<lparr>ex_ws := (ex_ws ex1)\<lparr>ws_store := osa_worker_job_free st job\<rparr>, current_job := NULL\<rparr>
     else ex)"

definition state_working_handler :: "nat \<Rightarrow> ptr \<Rightarrow> 'a worker_pool_example_scheme handler" where
  "state_working_handler t self call event ex =
    (if ev_signal event = HSM_SIG_ENTRY then working_entry t self call ex
     else if ev_signal event = SIG_WORK_COMPLETE
     then transit_to call state_idle (working_complete (ev_data event) ex)
     else if ev_signal event = SIG_WORK_CANCEL
     then (if current_job ex \<noteq> NULL
           then (case osa_worker_pool_cancel t True (job_id (jobs (ws_store (ex_ws ex)) (current_job ex))) (ex_ws ex) of
                   Some (Return (_, ws)) \<Rightarrow> Some (0, ex\<lparr>ex_ws := ws\<rparr>)
                 | _ \<Rightarrow> None)
           else Some (0, ex))
     else if ev_signal event = SIG_WORK_START then Some (0, ex)
     else map_option (Pair 0) (STATE_SUPER wex_states call event ex))"

definition state_processing_handler :: "'a worker_pool_example_scheme handler" where
  "state_processing_handler call event ex =
    (if ev_signal event = HSM_SIG_ENTRY then Some (0, ex)
     else if ev_signal event = HSM_SIG_PERIOD then Some (0, ex)
     else if ev_signal event = SIG_WORK_PROGRESS then Some (0, ex)
     else if ev_signal event = SIG_WORK_ERROR
     then transit_to call state_working (ex\<lparr>error_count := error_count ex + 1\<rparr>)
     else map_option (Pair 0) (STATE_SUPER wex_states call event ex))"

definition wex_code :: "nat \<Rightarrow> ptr \<Rightarrow> ptr \<rightharpoonup> 'a worker_pool_example_scheme handler" where
  "wex_code t self =
    [11 \<mapsto> state_idle_handler, 12 \<mapsto> state_working_handler t self, 13 \<mapsto> state_processing_handler]"

section \<open>Creation and posting\<close>

definition EXAMPLE_TASK_STACK_SIZE :: int where "EXAMPLE_TASK_STACK_SIZE = 1024 * 10"
definition EXAMPLE_TASK_PRIO :: int where "EXAMPLE_TASK_PRIO = 10"
definition EXAMPLE_TASK_MSG_Q_SIZE :: int where "EXAMPLE_TASK_MSG_Q_SIZE = 20"

definition example_create ::
  "string \<Rightarrow> ptr \<Rightarrow> ptr \<Rightarrow> ptr \<Rightarrow> (thread_attr \<Rightarrow> ptr \<Rightarrow> ptr \<Rightarrow> int + nat) \<Rightarrow>
   'a worker_pool_example_scheme \<Rightarrow> thread_sys \<Rightarrow> int \<times> 'a worker_pool_example_scheme option \<times> thread_sys" where
  "example_create name run_fn self calloc_t pthread_create ex sys =
    (let ex1 = ex\<lparr>hsm_name := Some name\<rparr>;
         (ret, ex2) = osa_hsm_active_init ex1 state_idle
     in if ret \<noteq> 0 then (ret, Some ex2, sys)
        else case osa_hsm_active_start (Some ex2) EXAMPLE_TASK_STACK_SIZE EXAMPLE_TASK_PRIO
               EXAMPLE_TASK_MSG_Q_SIZE run_fn self calloc_t pthread_create sys of
          (ret2, ex3, sys') \<Rightarrow> (if ret2 \<noteq> 0 then ret2 else 0, ex3, sys'))"

definition example_post_event ::
  "(nat \<Rightarrow> byte) \<Rightarrow> int \<Rightarrow> timespec \<Rightarrow> 'a worker_pool_example_scheme \<Rightarrow>
   int \<times> 'a worker_pool_example_scheme option" where
  "example_post_event pad signal now ex = post_now pad (sig_event signal) now (Some ex)"

section \<open>The application keeps the contracts\<close>

lemmas wex_handler_defs = state_idle_handler_def state_working_handler_def state_processing_handler_def

lemma transit_to_mono [mono_intros]:
  "call_le c c' \<Longrightarrow> transit_to c s ex = Some r \<Longrightarrow> transit_to c' s ex = Some r"
  by (auto simp: transit_to_def intro: mono_intros)

lemma working_entry_mono [mono_intros]:
  "call_le c c' \<Longrightarrow> working_entry t self c ex = Some r \<Longrightarrow> working_entry t self c' ex = Some r"
  by (auto simp: working_entry_def Let_def split: prod.splits call.splits if_splits intro: mono_intros)

interpretation wex: hsm_app "wex_code t self" for t self
proof
  fix f h
  assume "wex_code t self f = Some h"
  then consider "h = state_idle_handler" | "h = state_working_handler t self" | "h = state_processing_handler"
    by (auto simp: wex_code_def split: if_splits)
  then show "handler_mono h"
    by cases (auto simp: handler_mono_def wex_handler_defs split: if_splits option.splits call.splits intro: mono_intros)
qed


section \<open>Handing a job to the pool\<close>

text \<open>A slot that can be allocated is not in the queue.\<close>

lemma alloc_fresh:
  assumes "job_queue_rep ws xs" and "g_job_pool_initialized (ws_store ws)"
    and "osa_worker_job_alloc (ws_store ws) = (p, st)"
  shows "p = NULL \<Longrightarrow> st = ws_store ws \<and> (\<forall>i < OSA_JOB_POOL_SIZE. \<not> slot_free (ws_store ws) i)"
    and "p \<noteq> NULL \<Longrightarrow> in_job_pool p \<and> p \<notin> set xs \<and> (\<exists>i < OSA_JOB_POOL_SIZE. slot_free (ws_store ws) i) \<and>
      first_free (slot_free (ws_store ws)) 0 OSA_JOB_POOL_SIZE = Some (p - g_job_pool) \<and>
      (\<forall>q. q \<noteq> p \<longrightarrow> jobs st q = jobs (ws_store ws) q) \<and> g_job_pool_initialized st"
proof -
  have "p = NULL \<and> st = ws_store ws \<and> (\<forall>i < OSA_JOB_POOL_SIZE. \<not> slot_free (ws_store ws) i) \<or>
    in_job_pool p \<and> p \<notin> set xs \<and> (\<exists>i < OSA_JOB_POOL_SIZE. slot_free (ws_store ws) i) \<and>
      first_free (slot_free (ws_store ws)) 0 OSA_JOB_POOL_SIZE = Some (p - g_job_pool) \<and>
      (\<forall>q. q \<noteq> p \<longrightarrow> jobs st q = jobs (ws_store ws) q) \<and> g_job_pool_initialized st"
    using assms(2)
  proof (cases rule: job_pool_alloc_cases)
    case (1 i)
    have "g_job_pool + i \<notin> set xs"
      using 1(3) assms(1) by (auto simp: slot_free_def job_queue_rep_def)
    with 1 assms(3) show ?thesis by (auto simp: osa_worker_job_alloc_def)
  next
    case 2
    with assms(3) show ?thesis by (auto simp: osa_worker_job_alloc_def)
  qed
  then show "p = NULL \<Longrightarrow> st = ws_store ws \<and> (\<forall>i < OSA_JOB_POOL_SIZE. \<not> slot_free (ws_store ws) i)"
    and "p \<noteq> NULL \<Longrightarrow> in_job_pool p \<and> p \<notin> set xs \<and> (\<exists>i < OSA_JOB_POOL_SIZE. slot_free (ws_store ws) i) \<and>
      first_free (slot_free (ws_store ws)) 0 OSA_JOB_POOL_SIZE = Some (p - g_job_pool) \<and>
      (\<forall>q. q \<noteq> p \<longrightarrow> jobs st q = jobs (ws_store ws) q) \<and> g_job_pool_initialized st"
    using pool_addr(3) by blast+
qed

text \<open>The initialisation and submission of a job that is not queued.\<close>

lemma init_submit:
  fixes p :: ptr
  assumes lock: "wp_lock (ws_pool ws) = free_lock" and rep: "job_queue_rep ws xs"
    and p: "p \<noteq> NULL" "p \<notin> set xs" and st: "\<And>q. q \<noteq> p \<Longrightarrow> jobs st q = jobs (ws_store ws) q"
  obtains r ws' where
    "osa_worker_pool_submit_to_hsm t True p self sig
      (ws\<lparr>ws_store := osa_worker_job_init st p f ctx cb cctx\<rparr>) = Return (r, ws')"
    "wp_lock (ws_pool ws') = free_lock" "queue_size (ws_pool ws') = queue_size (ws_pool ws)"
    "shutdown (ws_pool ws') = shutdown (ws_pool ws)"
    "g_job_pool_initialized (ws_store ws') = g_job_pool_initialized st"
    "r = 0 \<and> length xs < unat (queue_size (ws_pool ws)) \<and> job_queue_rep ws' (xs @ [p]) \<and>
       work_sem_of ws' = osa_sem_post (work_sem_of ws) \<or>
     r = -1 \<and> length xs = unat (queue_size (ws_pool ws)) \<and> job_queue_rep ws' xs \<and> work_sem_of ws' = work_sem_of ws"
    "target_hsm (jobs (ws_store ws') p) = self" "completion_signal (jobs (ws_store ws') p) = sig"
    "job_func (jobs (ws_store ws') p) = f" "job_ctx (jobs (ws_store ws') p) = ctx" "complete_cb (jobs (ws_store ws') p) = cb"
    "\<And>q. q \<noteq> p \<Longrightarrow> job_state (jobs (ws_store ws') q) = job_state (jobs (ws_store ws) q)"
proof -
  let ?st = "upd_job p (\<lambda>j. j\<lparr>target_hsm := self, completion_signal := sig\<rparr>) (osa_worker_job_init st p f ctx cb cctx)"
  let ?ws = "ws\<lparr>ws_store := ?st\<rparr>"
  let ?lk = "upd_pool (\<lambda>p. p\<lparr>wp_lock := Some \<lparr>m_owner = Some t\<rparr>\<rparr>) ?ws"
  have q: "jobs ?st q = jobs (ws_store ws) q" if "q \<noteq> p" for q
    using that st by (simp add: osa_worker_job_init_def Let_def)
  have rep': "job_queue_rep ?ws xs"
    by (rule rep_frame [OF rep]) (use p(2) q in auto)
  have free: "wp_lock (ws_pool ?ws) = free_lock"
    using lock by simp
  have held: "wp_lock (ws_pool (snd (submit_body p ?lk))) = Some \<lparr>m_owner = Some t\<rparr>"
    by simp
  obtain r ws1 where b: "submit_body p ?lk = (r, ws1)"
    "with_lock t (submit_body p) ?ws = Return (r, upd_pool (\<lambda>p. p\<lparr>wp_lock := free_lock\<rparr>) ws1)"
    by (rule with_lock_free [where body = "submit_body p", OF free held])
  let ?ws' = "upd_pool (\<lambda>p. p\<lparr>wp_lock := free_lock\<rparr>) ws1"
  have sub: "osa_worker_pool_submit t True p ?ws = Return (r, ?ws')"
    using b(2) p(1) by (simp add: osa_worker_pool_submit_def)
  note eff = submit_effect [OF free rep' p sub]
  note pay = submit_body_payload [where job = p and ws = ?lk, unfolded b(1) snd_conv]
  show ?thesis
  proof (rule that [of r ?ws'])
    show "osa_worker_pool_submit_to_hsm t True p self sig
        (ws\<lparr>ws_store := osa_worker_job_init st p f ctx cb cctx\<rparr>) = Return (r, ?ws')"
      using sub p(1) by (simp add: osa_worker_pool_submit_to_hsm_def)
    show "queue_size (ws_pool ?ws') = queue_size (ws_pool ws)" "shutdown (ws_pool ?ws') = shutdown (ws_pool ws)"
      using eff by (simp_all add: pool_kept_def)
    show "g_job_pool_initialized (ws_store ?ws') = g_job_pool_initialized st"
      using pay(6) by (simp add: osa_worker_job_init_def Let_def)
    show "r = 0 \<and> length xs < unat (queue_size (ws_pool ws)) \<and> job_queue_rep ?ws' (xs @ [p]) \<and>
       work_sem_of ?ws' = osa_sem_post (work_sem_of ws) \<or>
     r = -1 \<and> length xs = unat (queue_size (ws_pool ws)) \<and> job_queue_rep ?ws' xs \<and> work_sem_of ?ws' = work_sem_of ws"
      using eff by simp
    show "job_state (jobs (ws_store ?ws') q) = job_state (jobs (ws_store ws) q)" if "q \<noteq> p" for q
      using pay(7) [OF that] q [OF that] by simp
  qed (use pay(1-5) [of p] p(1) in \<open>simp_all add: osa_worker_job_init_def Let_def\<close>)
qed


section \<open>The machine\<close>

lemmas wex_addr_defs = state_idle_def state_working_def state_processing_def

lemma wex_states_simps [simp]:
  "wex_states state_idle = Some \<lparr>st_handler = 11, st_parent = NULL, st_name = ''idle''\<rparr>"
  "wex_states state_working = Some \<lparr>st_handler = 12, st_parent = NULL, st_name = ''working''\<rparr>"
  "wex_states state_processing = Some \<lparr>st_handler = 13, st_parent = state_working, st_name = ''processing''\<rparr>"
  "state_working \<noteq> NULL" "state_processing \<noteq> state_working" "state_idle \<noteq> state_working" "state_idle \<noteq> state_processing"
  by (simp_all add: wex_states_def wex_addr_defs)

lemma wex_code_simps [simp]:
  "wex_code t self 11 = Some state_idle_handler"
  "wex_code t self 12 = Some (state_working_handler t self)"
  "wex_code t self 13 = Some state_processing_handler"
  by (simp_all add: wex_code_def)

text \<open>The transitions to the two states whose entry calls no other state.\<close>

lemma transit_simps [simp]:
  "transit_to (hsm_call (wex_code t self) (Suc n)) state_idle ex =
    Some (0, ex\<lparr>hsm_histroy := hsm_current ex, hsm_current := state_idle, operation_progress := 0,
      operation_result := 0, hsm_error := 0\<rparr>)"
  "transit_to (hsm_call (wex_code t self) (Suc n)) state_processing ex =
    Some (0, ex\<lparr>hsm_histroy := hsm_current ex, hsm_current := state_processing, hsm_error := 0\<rparr>)"
  by (simp_all add: transit_to_def STATE_TRANSIT_def STATE_INIT_def state_idle_handler_def
      state_processing_handler_def sig_event_def)

text \<open>
  What an attempt to start a job comes to, from the machine \<open>ex\<close> with the jobs \<open>xs\<close> queued: if there
  is a slot and room in the queue, the machine waits in \<open>processing\<close> and its job, the first free slot,
  which is to report to it, is last in the queue; otherwise it is back in \<open>idle\<close> and the queue is as before, no slot lost.
\<close>

definition job_handed ::
  "ptr \<Rightarrow> ptr list \<Rightarrow> 'a worker_pool_example_scheme \<Rightarrow> 'a worker_pool_example_scheme \<Rightarrow> bool" where
  "job_handed self xs ex ex' \<longleftrightarrow>
    (let ws = ex_ws ex; ws' = ex_ws ex'; p = current_job ex'; j = jobs (ws_store ws') p
     in job_count ex' = job_count ex + 1 \<and> hsm_histroy ex' = state_working \<and> wp_lock (ws_pool ws') = free_lock \<and>
       queue_size (ws_pool ws') = queue_size (ws_pool ws) \<and> shutdown (ws_pool ws') = shutdown (ws_pool ws) \<and>
       g_job_pool_initialized (ws_store ws') \<and>
       (if (\<exists>i < OSA_JOB_POOL_SIZE. slot_free (ws_store ws) i) \<and> length xs < unat (queue_size (ws_pool ws))
        then hsm_current ex' = state_processing \<and> in_job_pool p \<and> p \<notin> set xs \<and> job_queue_rep ws' (xs @ [p]) \<and>
          first_free (slot_free (ws_store ws)) 0 OSA_JOB_POOL_SIZE = Some (p - g_job_pool) \<and>
          work_sem_of ws' = osa_sem_post (work_sem_of ws) \<and> target_hsm j = self \<and>
          completion_signal j = SIG_WORK_COMPLETE \<and> job_func j = heavy_fn \<and> job_ctx j = self \<and> complete_cb j = callback_fn \<and>
          (\<forall>q. q \<noteq> p \<longrightarrow> job_state (jobs (ws_store ws') q) = job_state (jobs (ws_store ws) q))
        else hsm_current ex' = state_idle \<and> job_queue_rep ws' xs \<and> work_sem_of ws' = work_sem_of ws \<and>
          (\<forall>i < OSA_JOB_POOL_SIZE. slot_free (ws_store ws) i \<longrightarrow> slot_free (ws_store ws') i)))"

lemma working_entry_effect:
  assumes "wp_lock (ws_pool (ex_ws ex)) = free_lock" and "g_job_pool_initialized (ws_store (ex_ws ex))"
    and "job_queue_rep (ex_ws ex) xs" and "hsm_current ex = state_working"
  shows "\<exists>ex'. working_entry t self (hsm_call (wex_code t self) (Suc n)) ex = Some (0, ex') \<and> job_handed self xs ex ex' \<and>
    completed_count ex' = completed_count ex \<and> error_count ex' = error_count ex \<and> msg_q ex' = msg_q ex"
proof -
  let ?ws = "ex_ws ex"
  obtain p st where a: "osa_worker_job_alloc (ws_store ?ws) = (p, st)" by fastforce
  show ?thesis
  proof (cases "p = NULL")
    case True
    then show ?thesis
      using alloc_fresh(1) [OF assms(3,2) a] a assms
      by (auto simp: working_entry_def job_handed_def Let_def)
  next
    case False
    note f = alloc_fresh(2) [OF assms(3,2) a False]
    obtain r ws' where w: "osa_worker_pool_submit_to_hsm t True p self SIG_WORK_COMPLETE
        (?ws\<lparr>ws_store := osa_worker_job_init st p heavy_fn self callback_fn self\<rparr>) = Return (r, ws')"
      "wp_lock (ws_pool ws') = free_lock" "queue_size (ws_pool ws') = queue_size (ws_pool ?ws)"
      "shutdown (ws_pool ws') = shutdown (ws_pool ?ws)"
      "g_job_pool_initialized (ws_store ws') = g_job_pool_initialized st"
      "r = 0 \<and> length xs < unat (queue_size (ws_pool ?ws)) \<and> job_queue_rep ws' (xs @ [p]) \<and>
         work_sem_of ws' = osa_sem_post (work_sem_of ?ws) \<or>
       r = -1 \<and> length xs = unat (queue_size (ws_pool ?ws)) \<and> job_queue_rep ws' xs \<and> work_sem_of ws' = work_sem_of ?ws"
      "target_hsm (jobs (ws_store ws') p) = self" "completion_signal (jobs (ws_store ws') p) = SIG_WORK_COMPLETE"
      "job_func (jobs (ws_store ws') p) = heavy_fn" "job_ctx (jobs (ws_store ws') p) = self"
      "complete_cb (jobs (ws_store ws') p) = callback_fn"
      "\<And>q. q \<noteq> p \<Longrightarrow> job_state (jobs (ws_store ws') q) = job_state (jobs (ws_store ?ws) q)"
      using init_submit [OF assms(1,3) False, of st t self SIG_WORK_COMPLETE heavy_fn self callback_fn self] f
      by blast
    show ?thesis
    proof (cases "r = 0")
      case True
      then show ?thesis
        using w a f False assms(4) by (auto simp: working_entry_def job_handed_def Let_def)
    next
      case full: False
      let ?st = "osa_worker_job_free (ws_store ws') p"
      have st: "jobs ?st = (jobs (ws_store ws'))(p := (jobs (ws_store ws') p)\<lparr>job_state := OSA_JOB_COMPLETED\<rparr>)"
        using f by (auto simp: osa_worker_job_free_def job_pool_free_def in_job_pool_def)
      have rep: "job_queue_rep (ws'\<lparr>ws_store := ?st\<rparr>) xs"
        by (rule rep_frame [of ws']) (use w(6) full f st in auto)
      have slots: "slot_free (ws_store ?ws) i \<Longrightarrow> slot_free ?st i" for i
        using w(12) st by (auto simp: slot_free_def)
      have n: "\<not> length xs < unat (queue_size (ws_pool ?ws))" "work_sem_of ws' = work_sem_of ?ws"
        using w(6) full by auto
      have init: "g_job_pool_initialized ?st"
        using w(5) f by (simp add: osa_worker_job_free_def job_pool_free_def)
      show ?thesis
        using w(1-4) a False assms(4) rep slots n full init
        by (auto simp: working_entry_def job_handed_def Let_def)
    qed
  qed
qed

text \<open>The cancellation of a queued job whose id no other queued job has.\<close>

lemma cancel_present:
  assumes lock: "wp_lock (ws_pool ws) = free_lock" and rep: "job_queue_rep ws xs" and p: "p \<in> set xs"
    and unique: "\<And>x. x \<in> set xs \<Longrightarrow> job_id (jobs (ws_store ws) x) = job_id (jobs (ws_store ws) p) \<Longrightarrow> x = p"
    and safe: "cancel_safe ws p"
  obtains ws' where "osa_worker_pool_cancel t True (job_id (jobs (ws_store ws) p)) ws = Some (Return (0, ws'))"
    "job_queue_rep ws' (remove1 p xs)" "job_state (jobs (ws_store ws') p) = OSA_JOB_CANCELLED"
    "wp_lock (ws_pool ws') = free_lock"
proof -
  let ?n = "job_id (jobs (ws_store ws) p)" and ?lk = "upd_pool (\<lambda>q. q\<lparr>wp_lock := Some \<lparr>m_owner = Some t\<rparr>\<rparr>) ws"
  have "find (\<lambda>x. job_id (jobs (ws_store ws) x) = ?n) xs \<noteq> None"
    using p by (auto simp: find_None_iff)
  then obtain q where q: "find (\<lambda>x. job_id (jobs (ws_store ws) x) = ?n) xs = Some q"
    by blast
  then have "q = p"
    using unique by (auto simp: find_Some_iff)
  have "find (\<lambda>x. job_id (jobs (ws_store ?lk) x) = ?n) xs = Some p"
    using q \<open>q = p\<close> by simp
  moreover have "cancel_safe ?lk p"
    using safe by (simp add: cancel_safe_def)
  ultimately have c: "cancel_body ?n ?lk = Some (0, unlink_job p ?lk)" "job_queue_rep (unlink_job p ?lk) (remove1 p xs)"
    using cancel_rep [of ?lk xs ?n] rep by auto
  have "acquire t ws = Return ?lk"
    using lock by (simp add: acquire_def osa_mutex_lock_def)
  with c show ?thesis
    by (intro that [of "release (unlink_job p ?lk)"])
      (simp_all add: osa_worker_pool_cancel_def release_def osa_mutex_unlock_def,
       simp add: unlink_job_def Let_def)
qed

text \<open>The dispatch of a start event in \<open>idle\<close>, and of a completion in \<open>processing\<close>.\<close>

lemma start_dispatch_entry:
  assumes "hsm_current ex = state_idle"
    and "working_entry t self (hsm_call (wex_code t self) (Suc n))
      (ex\<lparr>hsm_histroy := hsm_current ex, hsm_current := state_working\<rparr>) = Some (0, ex')"
  shows "STATE_DISPATCH wex_states (hsm_call (wex_code t self) (Suc (Suc (Suc n)))) state_idle
    (sig_event SIG_WORK_START) ex = Some (0, ex'\<lparr>hsm_error := 0\<rparr>)"
  using assms by (simp add: STATE_DISPATCH_def state_idle_handler_def sig_event_def transit_to_def
      STATE_TRANSIT_def STATE_INIT_def state_working_handler_def c_consts del: hsm_call.simps(2)
      add: hsm_call.simps(2) [of _ "Suc (Suc n)"] hsm_call.simps(2) [of _ "Suc n"])

lemma start_dispatch:
  assumes "hsm_current ex = state_idle" and "wp_lock (ws_pool (ex_ws ex)) = free_lock"
    and "g_job_pool_initialized (ws_store (ex_ws ex))" and "job_queue_rep (ex_ws ex) xs"
  obtains ex' where "STATE_DISPATCH wex_states (hsm_call (wex_code t self) (Suc (Suc (Suc n)))) state_idle
      (sig_event SIG_WORK_START) ex = Some (0, ex')" "job_handed self xs ex ex'"
    "completed_count ex' = completed_count ex" "error_count ex' = error_count ex" "msg_q ex' = msg_q ex"
proof -
  let ?ex = "ex\<lparr>hsm_histroy := hsm_current ex, hsm_current := state_working\<rparr>"
  obtain ex' where e: "working_entry t self (hsm_call (wex_code t self) (Suc n)) ?ex = Some (0, ex')"
    "job_handed self xs ?ex ex'" "completed_count ex' = completed_count ex" "error_count ex' = error_count ex"
    "msg_q ex' = msg_q ex"
    using working_entry_effect [of ?ex xs t self n] assms by auto
  have "job_handed self xs ex (ex'\<lparr>hsm_error := 0\<rparr>)"
    using e(2) by (simp add: job_handed_def Let_def)
  then show ?thesis
    using e(3-5) by (intro that [OF start_dispatch_entry [OF assms(1) e(1)]]) simp_all
qed

lemma complete_dispatch:
  assumes "hsm_current ex = state_processing" and "ev_signal e = SIG_WORK_COMPLETE"
  shows "STATE_DISPATCH wex_states (hsm_call (wex_code t self) (Suc (Suc (Suc n)))) state_processing e ex =
    Some (0, (working_complete (ev_data e) ex)\<lparr>hsm_histroy := state_processing, hsm_current := state_idle,
      operation_progress := 0, operation_result := 0, hsm_error := 0\<rparr>)"
proof -
  let ?ex = "working_complete (ev_data e) ex"
  have cur: "hsm_current ?ex = state_processing"
    using assms(1) by (simp add: working_complete_def Let_def)
  have "hsm_call (wex_code t self) (Suc (Suc n)) 12 e ex = Some (0, ?ex\<lparr>hsm_histroy := state_processing,
      hsm_current := state_idle, operation_progress := 0, operation_result := 0, hsm_error := 0\<rparr>)"
    using assms(2) cur by (simp add: state_working_handler_def c_consts del: hsm_call.simps(2)
        add: hsm_call.simps(2) [of _ "Suc n"])
  then show ?thesis
    using assms(1,2) by (simp add: STATE_DISPATCH_def STATE_SUPER_def state_processing_handler_def c_consts
        del: hsm_call.simps(2) add: hsm_call.simps(2) [of _ "Suc (Suc n)"])
qed

section \<open>Properties\<close>

text \<open>
  C24. The example starts a job: on \<^verbatim>\<open>SIG_WORK_START\<close> in \<open>idle\<close> the machine passes through \<open>working\<close>,
  which takes a job from the job pool and submits it. With a free slot and room in the queue it ends in
  \<open>processing\<close>, the job last in the queue of the pool with a token for a worker, and set to report to
  this machine with \<^verbatim>\<open>SIG_WORK_COMPLETE\<close>; without a slot or without room it is back in \<open>idle\<close>, the queue
  is as before and the slot is free again. Three nested handler calls are enough.
\<close>

theorem wex_start_submits:
  assumes "hsm_current ex = state_idle" and "wp_lock (ws_pool (ex_ws ex)) = free_lock"
    and "g_job_pool_initialized (ws_store (ex_ws ex))" and "job_queue_rep (ex_ws ex) xs"
  shows "\<exists>ex'. STATE_DISPATCH wex_states (hsm_call (wex_code t self) (Suc (Suc (Suc n)))) (hsm_current ex)
      (sig_event SIG_WORK_START) ex = Some (0, ex') \<and> job_handed self xs ex ex'"
proof -
  obtain ex' where "STATE_DISPATCH wex_states (hsm_call (wex_code t self) (Suc (Suc (Suc n)))) state_idle
      (sig_event SIG_WORK_START) ex = Some (0, ex')" "job_handed self xs ex ex'"
    by (rule start_dispatch [OF assms])
  then show ?thesis using assms(1) by auto
qed

definition sample_wex :: worker_pool_example where
  "sample_wex = \<lparr>hsm_error = 0, hsm_current = state_idle, hsm_histroy = state_idle, hsm_name = Some ''example1'',
     task_ref = 1, msg_q = None, msg_q_size = 20, timer_id = 0, tick_period = 0,
     ex_ws = sample_ws\<lparr>ws_store := \<lparr>jobs = (\<lambda>_. zero_job\<lparr>job_state := OSA_JOB_COMPLETED\<rparr>), g_job_id_counter = 0,
       g_job_pool_initialized = True\<rparr>\<rparr>,
     current_job = 0, job_count = 0, completed_count = 0, error_count = 0, operation_progress = 0, operation_result = 0\<rparr>"

lemma sample_wex_pool:
  "wp_lock (ws_pool (ex_ws sample_wex)) = free_lock" "g_job_pool_initialized (ws_store (ex_ws sample_wex))"
  "job_queue_rep (ex_ws sample_wex) []" "queue_size (ws_pool (ex_ws sample_wex)) = 4"
  "slot_free (ws_store (ex_ws sample_wex)) 0" "hsm_current sample_wex = state_idle"
  "job_state (jobs (ws_store (ex_ws sample_wex)) x) = OSA_JOB_COMPLETED"
  by (simp_all add: sample_wex_def sample_ws_def job_queue_rep_def zero_pool_def zero_stats_def slot_free_def)

theorem wex_start_submits_witness:
  "\<exists>ex'. STATE_DISPATCH wex_states (hsm_call (wex_code 1 9) (Suc (Suc (Suc 0)))) (hsm_current sample_wex)
      (sig_event SIG_WORK_START) sample_wex = Some (0, ex') \<and>
    hsm_current ex' = state_processing \<and> job_queue_rep (ex_ws ex') [current_job ex'] \<and>
    target_hsm (jobs (ws_store (ex_ws ex')) (current_job ex')) = 9"
proof -
  have "\<exists>i < OSA_JOB_POOL_SIZE. slot_free (ws_store (ex_ws sample_wex)) i"
    using sample_wex_pool(5) by (intro exI [of _ 0]) (simp add: OSA_JOB_POOL_SIZE_def)
  then show ?thesis
    using wex_start_submits [OF sample_wex_pool(6,1,2,3), of 1 9 0]
    by (auto simp: job_handed_def Let_def sample_wex_pool(4))
qed

text \<open>
  C25. The completion of a job is handled by the parent: in \<open>processing\<close>, \<^verbatim>\<open>SIG_WORK_COMPLETE\<close> is passed
  to \<open>working\<close>, which counts the job by the sign of its result, gives its slot back to the job pool,
  and moves the machine to \<open>idle\<close>; the queue of the pool is left alone. An event without a job moves the machine to \<open>idle\<close>
  and counts nothing.
\<close>

theorem wex_complete_counts:
  assumes "hsm_current ex = state_processing" and "ev_signal e = SIG_WORK_COMPLETE"
    and "job_queue_rep (ex_ws ex) xs" and "ev_data e \<notin> set xs"
  defines "st \<equiv> ws_store (ex_ws ex)"
  shows "\<exists>ex'. STATE_DISPATCH wex_states (hsm_call (wex_code t self) (Suc (Suc (Suc n)))) (hsm_current ex) e ex =
      Some (0, ex') \<and>
    hsm_current ex' = state_idle \<and> hsm_histroy ex' = state_processing \<and> job_queue_rep (ex_ws ex') xs \<and>
    ws_pool (ex_ws ex') = ws_pool (ex_ws ex) \<and> job_count ex' = job_count ex \<and>
    (if ev_data e = NULL
     then completed_count ex' = completed_count ex \<and> error_count ex' = error_count ex \<and> ws_store (ex_ws ex') = st
     else completed_count ex' = completed_count ex + (if job_result (jobs st (ev_data e)) < 0 then 0 else 1) \<and>
       error_count ex' = error_count ex + (if job_result (jobs st (ev_data e)) < 0 then 1 else 0) \<and>
       current_job ex' = NULL \<and>
       (\<forall>i < OSA_JOB_POOL_SIZE. slot_free (ws_store (ex_ws ex')) i = (slot_free st i \<or> ev_data e = g_job_pool + i)))"
proof -
  let ?ex = "working_complete (ev_data e) ex"
  let ?ex' = "?ex\<lparr>hsm_histroy := state_processing, hsm_current := state_idle, operation_progress := 0,
    operation_result := 0, hsm_error := 0\<rparr>"
  have "STATE_DISPATCH wex_states (hsm_call (wex_code t self) (Suc (Suc (Suc n)))) (hsm_current ex) e ex =
      Some (0, ?ex')"
    using complete_dispatch [OF assms(1,2)] assms(1) by simp
  moreover have "jobs (ws_store (ex_ws ?ex)) x = jobs (ws_store (ex_ws ex)) x" if "x \<noteq> ev_data e" for x
    using that by (simp add: working_complete_def Let_def osa_worker_job_free_def job_pool_free_def)
  then have "job_queue_rep (ex_ws ?ex) xs"
    using assms(4) by (intro rep_frame [OF assms(3)]) (metis, simp_all add: working_complete_def Let_def)
  ultimately show ?thesis
    by (intro exI [of _ ?ex'])
      (auto simp: working_complete_def Let_def st_def slot_free_def osa_worker_job_free_def job_pool_free_def
        in_job_pool_def)
qed

theorem wex_complete_counts_witness:
  "\<exists>ex'. STATE_DISPATCH wex_states (hsm_call (wex_code 1 9) (Suc (Suc (Suc 0)))) state_processing
      \<lparr>ev_signal = SIG_WORK_COMPLETE, ev_data = 3, ev_size = 72\<rparr> (sample_wex\<lparr>hsm_current := state_processing\<rparr>) =
      Some (0, ex') \<and> hsm_current ex' = state_idle \<and> completed_count ex' = 1 \<and> error_count ex' = 0"
proof -
  let ?e = "\<lparr>ev_signal = SIG_WORK_COMPLETE, ev_data = 3, ev_size = 72\<rparr>"
  have "hsm_current (sample_wex\<lparr>hsm_current := state_processing\<rparr>) = state_processing"
    "ev_signal ?e = SIG_WORK_COMPLETE" "job_queue_rep (ex_ws (sample_wex\<lparr>hsm_current := state_processing\<rparr>)) []"
    "ev_data ?e \<notin> set []"
    using sample_wex_pool by simp_all
  from wex_complete_counts [OF this, of 1 9 0] show ?thesis
    by (auto simp: sample_wex_def zero_job_def)
qed

text \<open>
  An error event makes the example start another job. A comment says that \<^verbatim>\<open>SIG_WORK_ERROR\<close>
  moves \<open>processing\<close> to \<open>working\<close> \<open>which will handle completion\<close>; but the entry action of \<open>working\<close> runs,
  so a second job is submitted while the first may still be queued or running.
\<close>

theorem wex_error_resubmits:
  assumes "hsm_current ex = state_processing" and "wp_lock (ws_pool (ex_ws ex)) = free_lock"
    and "g_job_pool_initialized (ws_store (ex_ws ex))" and "job_queue_rep (ex_ws ex) xs"
  shows "\<exists>ex'. STATE_DISPATCH wex_states (hsm_call (wex_code t self) (Suc (Suc (Suc n)))) (hsm_current ex)
      (sig_event SIG_WORK_ERROR) ex = Some (0, ex') \<and> error_count ex' = error_count ex + 1 \<and>
    completed_count ex' = completed_count ex \<and> job_handed self xs ex ex'"
proof -
  let ?ex = "ex\<lparr>error_count := error_count ex + 1, hsm_histroy := hsm_current ex, hsm_current := state_working\<rparr>"
  obtain ex' where e: "working_entry t self (hsm_call (wex_code t self) (Suc n)) ?ex = Some (0, ex')"
    "job_handed self xs ?ex ex'" "completed_count ex' = completed_count ex" "error_count ex' = error_count ex + 1"
    using working_entry_effect [of ?ex xs t self n] assms by auto
  then have "job_handed self xs ex (ex'\<lparr>hsm_error := 0\<rparr>)"
    by (simp add: job_handed_def Let_def)
  moreover have "STATE_DISPATCH wex_states (hsm_call (wex_code t self) (Suc (Suc (Suc n)))) (hsm_current ex)
      (sig_event SIG_WORK_ERROR) ex = Some (0, ex'\<lparr>hsm_error := 0\<rparr>)"
    using e(1) assms(1) by (simp add: STATE_DISPATCH_def state_processing_handler_def sig_event_def transit_to_def
        STATE_TRANSIT_def STATE_INIT_def state_working_handler_def c_consts del: hsm_call.simps(2)
        add: hsm_call.simps(2) [of _ "Suc (Suc n)"] hsm_call.simps(2) [of _ "Suc n"])
  ultimately show ?thesis
    using e(3,4) by (intro exI [of _ "ex'\<lparr>hsm_error := 0\<rparr>"]) simp
qed

theorem wex_error_resubmits_witness:
  "\<exists>ex'. STATE_DISPATCH wex_states (hsm_call (wex_code 1 9) (Suc (Suc (Suc 0)))) state_processing
      (sig_event SIG_WORK_ERROR) (sample_wex\<lparr>hsm_current := state_processing\<rparr>) = Some (0, ex') \<and> error_count ex' = 1"
proof -
  have "hsm_current (sample_wex\<lparr>hsm_current := state_processing\<rparr>) = state_processing"
    "wp_lock (ws_pool (ex_ws (sample_wex\<lparr>hsm_current := state_processing\<rparr>))) = free_lock"
    "g_job_pool_initialized (ws_store (ex_ws (sample_wex\<lparr>hsm_current := state_processing\<rparr>)))"
    "job_queue_rep (ex_ws (sample_wex\<lparr>hsm_current := state_processing\<rparr>)) []"
    using sample_wex_pool by simp_all
  from wex_error_resubmits [OF this, of 1 9 0] show ?thesis
    by (auto simp: sample_wex_def)
qed


text \<open>The example with its job, the slot at address 1, queued.\<close>

definition sample_wex_queued :: worker_pool_example where
  "sample_wex_queued =
    (let ws = ex_ws sample_wex
     in sample_wex\<lparr>hsm_current := state_processing, current_job := 1,
          ex_ws := ws\<lparr>ws_store := upd_job 1 (\<lambda>_. zero_job\<lparr>job_id := 1\<rparr>) (ws_store ws),
            ws_pool := upd_stats (\<lambda>s. s\<lparr>queue_depth := 1\<rparr>) ((ws_pool ws)\<lparr>job_queue_head := 1, job_queue_tail := 1\<rparr>)\<rparr>\<rparr>)"


text \<open>
  C26. A signal that neither \<open>processing\<close> nor \<open>working\<close> knows hangs the example: \<open>processing\<close> passes it to
  \<open>working\<close>, whose \<^verbatim>\<open>STATE_SUPER\<close> passes it to the parent of the current state, which is \<open>working\<close> itself, and
  so on; the dispatch does not return for any depth of the stack. The initial and the exit signal and
  every signal from \<^verbatim>\<open>SIG_MAX\<close> on are of this kind.
\<close>

theorem wex_unknown_signal_hangs:
  assumes "hsm_current ex = state_processing"
    and "ev_signal e \<notin> {HSM_SIG_ENTRY, HSM_SIG_PERIOD, SIG_WORK_START, SIG_WORK_COMPLETE, SIG_WORK_CANCEL,
      SIG_WORK_PROGRESS, SIG_WORK_ERROR}"
  shows "\<forall>n. STATE_DISPATCH wex_states (hsm_call (wex_code t self) n) (hsm_current ex) e ex = None"
proof
  fix n
  have "hsm_call (wex_code t self) m 12 e ex = None" for m
    using STATE_SUPER_diverges [of wex_states ex
        "\<lparr>st_handler = 13, st_parent = state_working, st_name = ''processing''\<rparr>"
        "\<lparr>st_handler = 12, st_parent = NULL, st_name = ''working''\<rparr>" "wex_code t self"
        "state_working_handler t self" e "Pair 0" m] assms
    by (simp add: state_working_handler_def)
  then show "STATE_DISPATCH wex_states (hsm_call (wex_code t self) n) (hsm_current ex) e ex = None"
    using assms by (cases n) (simp_all add: STATE_DISPATCH_def STATE_SUPER_def state_processing_handler_def)
qed

theorem wex_unknown_signal_hangs_witness:
  "\<forall>n. STATE_DISPATCH wex_states (hsm_call (wex_code 1 9) n) state_processing (sig_event SIG_MAX)
    (sample_wex\<lparr>hsm_current := state_processing\<rparr>) = None"
proof -
  have "hsm_current (sample_wex\<lparr>hsm_current := state_processing\<rparr>) = state_processing"
    "ev_signal (sig_event SIG_MAX) \<notin> {HSM_SIG_ENTRY, HSM_SIG_PERIOD, SIG_WORK_START, SIG_WORK_COMPLETE,
      SIG_WORK_CANCEL, SIG_WORK_PROGRESS, SIG_WORK_ERROR}"
    by (simp_all add: sig_event_def c_consts)
  from wex_unknown_signal_hangs [OF this, of 1 9] show ?thesis by simp
qed

end
