(* ===== verification/Worker_System.thy ===== *)
theory Worker_System
  imports Worker_Example
begin

text \<open>
  The worker example at work: its state machine with its dispatcher thread and message queue, the
  worker pool with \<open>N\<close> workers, and the posts from outside (\<^verbatim>\<open>SIG_WORK_START\<close> from \<^verbatim>\<open>main\<close>, \<^verbatim>\<open>HSM_SIG_PERIOD\<close>
  from the timer), in every interleaving. A step is a turn of the dispatcher or a stretch of a worker
  between two blocking points, as in \<^verbatim>\<open>Worker_Threads\<close>; the job function and the completion callback
  are those of the example. The state is the object of the example, which holds the pool and its own
  queue, where every worker is, and whether a completion event was lost because the queue was full.

  The lemmas: an invariant, kept by every step and every post, says where the job of the machine is;
  \<^verbatim>\<open>Worker_Rest\<close> shows that the system comes to rest.
\<close>

section \<open>The system\<close>

record exw_sys =
  ew_ex :: worker_pool_example
  ew_pc :: "nat \<Rightarrow> worker_pc"
  ew_lost :: bool

abbreviation ew_ws :: "exw_sys \<Rightarrow> worker_state" where
  "ew_ws S \<equiv> ex_ws (ew_ex S)"

definition set_ws :: "worker_state \<Rightarrow> exw_sys \<Rightarrow> exw_sys" where
  "set_ws ws S = S\<lparr>ew_ex := (ew_ex S)\<lparr>ex_ws := ws\<rparr>\<rparr>"

text \<open>The callback of the example writes a field of the example only.\<close>

definition example_cb :: callback where
  "example_cb fn job result ctx x = x"

text \<open>The steps; \<open>d\<close> is the dispatcher's thread, and three nested handler calls are enough.\<close>

inductive exw_step :: "nat \<Rightarrow> ptr \<Rightarrow> exw_sys \<Rightarrow> exw_sys \<Rightarrow> bool" for N self where
  e_turn: "run_iter wex_states (wex_code d self) 3 now (ew_ex S) = Return (x, Some ex) \<Longrightarrow>
    exw_step N self S (S\<lparr>ew_ex := ex\<rparr>)"
| e_take: "ew_pc S t = W_wait \<Longrightarrow> osa_sem_wait (work_sem_of (ew_ws S)) (-1) clock = Return (0, sem) \<Longrightarrow>
    exw_step N self S (set_ws (upd_pool (\<lambda>p. p\<lparr>wp_work_sem := sem\<rparr>) (ew_ws S)) (S\<lparr>ew_pc := (ew_pc S)(t := W_woken)\<rparr>))"
| e_fetch: "ew_pc S t = W_woken \<Longrightarrow> worker_fetch t (ew_ws S) = Return (f, ws) \<Longrightarrow>
    exw_step N self S (set_ws ws (S\<lparr>ew_pc := (ew_pc S)(t := after_fetch f)\<rparr>))"
| e_exec: "ew_pc S t = W_run j \<Longrightarrow> simulate_heavy_computation cancelled (ew_ex S) = (ret, ex) \<Longrightarrow>
    exw_step N self S (set_ws (job_executed j ret (ew_ws S)) (S\<lparr>ew_ex := ex, ew_pc := (ew_pc S)(t := W_return j)\<rparr>))"
| e_complete: "ew_pc S t = W_return j \<Longrightarrow>
    worker_complete t example_cb pad now j (others(self := osa_hsm_active.truncate (ew_ex S))) (ew_ws S) =
      Return (hsms, ws) \<Longrightarrow>
    exw_step N self S (set_ws ws (S\<lparr>
      ew_ex := (job_completion_callback (job_result (jobs (ws_store ws) j)) (ew_ex S))\<lparr>msg_q := msg_q (hsms self)\<rparr>,
      ew_pc := (ew_pc S)(t := W_wait), ew_lost := (ew_lost S \<or> \<not> queue_room (ew_ex S))\<rparr>))"

inductive exw_reachable :: "nat \<Rightarrow> ptr \<Rightarrow> exw_sys \<Rightarrow> exw_sys \<Rightarrow> bool" for N self S0 where
  e_refl: "exw_reachable N self S0 S0"
| e_step: "exw_reachable N self S0 S \<Longrightarrow> exw_step N self S S' \<Longrightarrow> exw_reachable N self S0 S'"
| e_post: "exw_reachable N self S0 S \<Longrightarrow> sig \<in> {SIG_WORK_START, HSM_SIG_PERIOD} \<Longrightarrow>
    post_now pad (sig_event sig) now (Some (ew_ex S)) = (r, Some ex) \<Longrightarrow>
    exw_reachable N self S0 (S\<lparr>ew_ex := ex\<rparr>)"

text \<open>The start: \<open>N\<close> workers on a fresh pool, an initialised job pool, the machine idle with an empty queue.\<close>

definition exw_start :: "nat \<Rightarrow> exw_sys \<Rightarrow> bool" where
  "exw_start N S \<longleftrightarrow>
    (let ex = ew_ex S; ws = ex_ws ex
     in fresh_pool (ws_pool ws) \<and> N = unat (num_workers (ws_pool ws)) \<and> 0 < queue_size (ws_pool ws) \<and>
       g_job_pool_initialized (ws_store ws) \<and> (\<forall>i < OSA_JOB_POOL_SIZE. slot_free (ws_store ws) i) \<and>
       ew_pc S = (\<lambda>t. if t < N then W_wait else W_exit) \<and>
       hsm_current ex = state_idle \<and> hsm_running ex \<and> hsm_pending ex = [] \<and>
       job_count ex = 0 \<and> completed_count ex = 0 \<and> error_count ex = 0 \<and> \<not> ew_lost S)"

section \<open>The system as a system of workers\<close>

definition pool_of :: "exw_sys \<Rightarrow> pool_sys" where
  "pool_of S = \<lparr>sy_ws = ew_ws S, sy_pc = ew_pc S, sy_hsms = (\<lambda>_. osa_hsm_active.truncate (ew_ex S)), sy_posts = 0\<rparr>"

lemma pool_of_simps [simp]:
  "sy_ws (pool_of S) = ew_ws S" "sy_pc (pool_of S) = ew_pc S" "sy_posts (pool_of S) = 0"
  by (simp_all add: pool_of_def)

lemma set_ws_simps [simp]:
  "ew_pc (set_ws ws S) = ew_pc S" "ew_lost (set_ws ws S) = ew_lost S" "ew_ex (set_ws ws S) = (ew_ex S)\<lparr>ex_ws := ws\<rparr>"
  by (simp_all add: set_ws_def)

text \<open>What the system relies on of the pool in every state.\<close>

definition pool_ok :: "nat \<Rightarrow> exw_sys \<Rightarrow> bool" where
  "pool_ok N S \<longleftrightarrow>
    inv_queue N (pool_of S) \<and> inv_tokens N (pool_of S) \<and> \<not> shutdown (ws_pool (ew_ws S)) \<and>
    0 < queue_size (ws_pool (ew_ws S)) \<and> g_job_pool_initialized (ws_store (ew_ws S)) \<and>
    (\<forall>t < N. ew_pc S t \<noteq> W_exit)"

lemma pool_okD:
  assumes "pool_ok N S"
  shows "inv_queue N (pool_of S)" "inv_tokens N (pool_of S)" "wp_lock (ws_pool (ew_ws S)) = free_lock"
    "job_queue_rep (ew_ws S) (jq_contents (ew_ws S))" "\<not> shutdown (ws_pool (ew_ws S))"
    "0 < queue_size (ws_pool (ew_ws S))" "g_job_pool_initialized (ws_store (ew_ws S))"
    "\<And>t. t < N \<Longrightarrow> ew_pc S t \<noteq> W_exit"
  using assms inv_queueD(1,2) [of N "pool_of S"] by (auto simp: pool_ok_def)

text \<open>A worker's step is a step of \<^verbatim>\<open>Worker_Threads\<close>.\<close>

lemma pool_ok_step:
  assumes "pool_ok N S" and "sy_ws s0 = ew_ws S" "sy_pc s0 = ew_pc S" and "pool_step N s0 s"
    and "sy_posts s0 = 0" "ew_ws S' = sy_ws s" "ew_pc S' = sy_pc s" "sy_posts s = 0"
    and "\<not> shutdown (ws_pool (sy_ws s))" "g_job_pool_initialized (ws_store (sy_ws s))"
    and "queue_size (ws_pool (sy_ws s)) = queue_size (ws_pool (ew_ws S))" "\<And>t. t < N \<Longrightarrow> sy_pc s t \<noteq> W_exit"
  shows "pool_ok N S'"
proof -
  have "inv_queue N s0" "inv_tokens N s0"
    using invs_cong [of s0 "pool_of S"] pool_okD(1,2) [OF assms(1)] assms(2,3,5) by simp_all
  then have "inv_queue N s" "inv_tokens N s"
    using pool_step_queue [OF assms(4)] pool_step_tokens [OF assms(4)] by blast+
  then have "inv_queue N (pool_of S')" "inv_tokens N (pool_of S')"
    using invs_cong [of "pool_of S'" s] assms(6-8) by simp_all
  then show ?thesis
    using assms pool_okD(6) [OF assms(1)] by (simp add: pool_ok_def)
qed

text \<open>The completion of a job of the example.\<close>

lemmas complete_example = complete_silent [where cb = example_cb, OF _ example_cb_def]

section \<open>The invariant\<close>

definition done_event :: "ptr \<Rightarrow> hsm_event" where
  "done_event p = \<lparr>ev_signal = SIG_WORK_COMPLETE, ev_data = p, ev_size = sizeof_osa_worker_job\<rparr>"

definition ew_events :: "exw_sys \<Rightarrow> hsm_event list" where
  "ew_events S = map bytes_event (hsm_pending (ew_ex S))"

abbreviation ew_waiting :: "exw_sys \<Rightarrow> bool" where
  "ew_waiting S \<equiv> hsm_current (ew_ex S) = state_processing"

abbreviation ew_job :: "exw_sys \<Rightarrow> ptr" where
  "ew_job S \<equiv> current_job (ew_ex S)"

definition events_ok :: "exw_sys \<Rightarrow> bool" where
  "events_ok S \<longleftrightarrow>
    hsm_running (ew_ex S) \<and> hsm_current (ew_ex S) \<in> {state_idle, state_processing} \<and>
    (\<forall>e \<in> set (ew_events S). e \<in> {sig_event SIG_WORK_START, sig_event HSM_SIG_PERIOD} \<or>
      ew_waiting S \<and> e = done_event (ew_job S)) \<and>
    length (filter (\<lambda>e. e = done_event (ew_job S)) (ew_events S)) \<le> 1"

text \<open>Where the job of the machine is: in the queue of the pool, with a worker, or in an event that reports it.\<close>

definition job_ok :: "ptr \<Rightarrow> exw_sys \<Rightarrow> bool" where
  "job_ok self S \<longleftrightarrow>
    (let st = ws_store (ew_ws S); p = ew_job S
     in (\<forall>q. in_use (pool_of S) q \<longrightarrow> ew_waiting S \<and> q = p \<and> done_event p \<notin> set (ew_events S) \<and>
           target_hsm (jobs st p) = self \<and> completion_signal (jobs st p) = SIG_WORK_COMPLETE) \<and>
        (ew_waiting S \<longrightarrow> in_job_pool p \<and> (ew_lost S \<or> in_use (pool_of S) p \<or> done_event p \<in> set (ew_events S))) \<and>
        (\<forall>i < OSA_JOB_POOL_SIZE. slot_free st i \<or> ew_waiting S \<and> p = g_job_pool + i) \<and>
        job_count (ew_ex S) = completed_count (ew_ex S) + error_count (ew_ex S) + (if ew_waiting S then 1 else 0))"

definition exw_inv :: "nat \<Rightarrow> ptr \<Rightarrow> exw_sys \<Rightarrow> bool" where
  "exw_inv N self S \<longleftrightarrow> pool_ok N S \<and> events_ok S \<and> job_ok self S"

lemma done_event_neq [simp]:
  "sig_event SIG_WORK_START \<noteq> done_event p" "sig_event HSM_SIG_PERIOD \<noteq> done_event p"
  "done_event p \<noteq> sig_event SIG_WORK_START" "done_event p \<noteq> sig_event HSM_SIG_PERIOD"
  by (simp_all add: sig_event_def done_event_def c_consts)

lemma done_event_simps [simp]: "ev_signal (done_event p) = SIG_WORK_COMPLETE" "ev_data (done_event p) = p"
  by (simp_all add: done_event_def)

lemma in_use_pool_of: "in_use (pool_of S) q \<longleftrightarrow> q \<in> set (jq_contents (ew_ws S)) \<or> (\<exists>t. busy_with (ew_pc S t) = Some q)"
  by (simp add: in_use_def)

text \<open>What is in use, seen from one worker, before and after it moves.\<close>

lemma in_use_at:
  "in_use (pool_of S) q \<longleftrightarrow> q \<in> set (jq_contents (ew_ws S)) \<or> busy_with (ew_pc S t) = Some q \<or>
    (\<exists>u. u \<noteq> t \<and> busy_with (ew_pc S u) = Some q)"
  unfolding in_use_pool_of by metis

lemma in_use_move:
  "ew_pc S' = (ew_pc S)(t := x) \<Longrightarrow>
   in_use (pool_of S') q \<longleftrightarrow> q \<in> set (jq_contents (ew_ws S')) \<or> busy_with x = Some q \<or>
    (\<exists>u. u \<noteq> t \<and> busy_with (ew_pc S u) = Some q)"
  unfolding in_use_at [of S' q t] by auto

lemma job_okD:
  assumes "job_ok self S"
  shows "in_use (pool_of S) q \<Longrightarrow> ew_waiting S" "in_use (pool_of S) q \<Longrightarrow> q = ew_job S"
    "in_use (pool_of S) q \<Longrightarrow> done_event (ew_job S) \<notin> set (ew_events S)"
    "in_use (pool_of S) q \<Longrightarrow> target_hsm (jobs (ws_store (ew_ws S)) (ew_job S)) = self"
    "in_use (pool_of S) q \<Longrightarrow> completion_signal (jobs (ws_store (ew_ws S)) (ew_job S)) = SIG_WORK_COMPLETE"
    "ew_waiting S \<Longrightarrow> in_job_pool (ew_job S)"
    "ew_waiting S \<Longrightarrow> ew_lost S \<or> in_use (pool_of S) (ew_job S) \<or> done_event (ew_job S) \<in> set (ew_events S)"
    "i < OSA_JOB_POOL_SIZE \<Longrightarrow> slot_free (ws_store (ew_ws S)) i \<or> ew_waiting S \<and> ew_job S = g_job_pool + i"
    "job_count (ew_ex S) = completed_count (ew_ex S) + error_count (ew_ex S) + (if ew_waiting S then 1 else 0)"
  using assms unfolding job_ok_def Let_def by blast+

text \<open>Nothing is in use while the machine does not wait.\<close>

lemma idle_unused:
  assumes "job_ok self S" and "\<not> ew_waiting S"
  shows "jq_contents (ew_ws S) = []" "busy_with (ew_pc S t) = None"
proof -
  have "\<not> in_use (pool_of S) q" for q
    using job_okD(1) [OF assms(1)] assms(2) by blast
  then have none: "q \<notin> set (jq_contents (ew_ws S))" "busy_with (ew_pc S t) \<noteq> Some q" for q
    unfolding in_use_pool_of by blast+
  show "jq_contents (ew_ws S) = []"
    using none(1) by (cases "jq_contents (ew_ws S)") auto
  show "busy_with (ew_pc S t) = None"
    using none(2) by (cases "busy_with (ew_pc S t)") auto
qed

text \<open>A stretch of a worker that leaves the machine and the places of the jobs alone.\<close>

definition machine_kept :: "exw_sys \<Rightarrow> exw_sys \<Rightarrow> bool" where
  "machine_kept S S' \<longleftrightarrow>
    hsm_current (ew_ex S') = hsm_current (ew_ex S) \<and> current_job (ew_ex S') = current_job (ew_ex S) \<and>
    job_count (ew_ex S') = job_count (ew_ex S) \<and> completed_count (ew_ex S') = completed_count (ew_ex S) \<and>
    error_count (ew_ex S') = error_count (ew_ex S)"

lemma events_ok_frame:
  "events_ok S \<Longrightarrow> machine_kept S S' \<Longrightarrow> msg_q (ew_ex S') = msg_q (ew_ex S) \<Longrightarrow> events_ok S'"
  by (simp add: events_ok_def machine_kept_def ew_events_def hsm_pending_def hsm_running_def)

lemma job_ok_frame:
  assumes ok: "job_ok self S" and m: "machine_kept S S'" and "msg_q (ew_ex S') = msg_q (ew_ex S)"
    and lost: "ew_lost S' = ew_lost S"
    and use: "\<And>q. in_use (pool_of S') q = in_use (pool_of S) q"
    and pay: "\<And>q. target_hsm (jobs (ws_store (ew_ws S')) q) = target_hsm (jobs (ws_store (ew_ws S)) q)"
      "\<And>q. completion_signal (jobs (ws_store (ew_ws S')) q) = completion_signal (jobs (ws_store (ew_ws S)) q)"
    and state: "\<And>q. \<not> in_use (pool_of S) q \<Longrightarrow>
      job_state (jobs (ws_store (ew_ws S')) q) = job_state (jobs (ws_store (ew_ws S)) q)"
  shows "job_ok self S'"
proof -
  have ev: "ew_events S' = ew_events S"
    using assms(3) by (simp add: ew_events_def hsm_pending_def)
  have k: "hsm_current (ew_ex S') = hsm_current (ew_ex S)" "current_job (ew_ex S') = current_job (ew_ex S)"
    "job_count (ew_ex S') = job_count (ew_ex S)" "completed_count (ew_ex S') = completed_count (ew_ex S)"
    "error_count (ew_ex S') = error_count (ew_ex S)"
    using m by (simp_all add: machine_kept_def)
  have "slot_free (ws_store (ew_ws S')) i \<or> ew_waiting S \<and> ew_job S = g_job_pool + i" if "i < OSA_JOB_POOL_SIZE" for i
  proof (cases "in_use (pool_of S) (g_job_pool + i)")
    case True
    then show ?thesis using job_okD(1,2) [OF ok True] by simp
  next
    case False
    then show ?thesis
      using job_okD(8) [OF ok that] state [OF False] by (simp add: slot_free_def)
  qed
  then show ?thesis
    using ok unfolding job_ok_def Let_def k ev lost use pay by blast
qed

section \<open>The workers keep the invariant\<close>

lemma heavy_keeps:
  assumes "simulate_heavy_computation cancelled ex = (ret, ex')"
  shows "\<exists>pr. ex' = ex\<lparr>operation_progress := pr\<rparr>"
  using assms by (auto simp: simulate_heavy_computation_def split: prod.splits)

lemma take_inv:
  assumes inv: "exw_inv N self S" and pc: "ew_pc S t = W_wait"
    and sem: "osa_sem_wait (work_sem_of (ew_ws S)) (-1) clock = Return (0, sem)"
  shows "exw_inv N self (set_ws (upd_pool (\<lambda>p. p\<lparr>wp_work_sem := sem\<rparr>) (ew_ws S)) (S\<lparr>ew_pc := (ew_pc S)(t := W_woken)\<rparr>))"
    (is "exw_inv N self ?S")
proof -
  have ok: "pool_ok N S" "events_ok S" "job_ok self S"
    using inv by (simp_all add: exw_inv_def)
  have step: "pool_step N (pool_of S) ((pool_of S)\<lparr>sy_ws := upd_pool (\<lambda>p. p\<lparr>wp_work_sem := sem\<rparr>) (sy_ws (pool_of S)),
      sy_pc := (sy_pc (pool_of S))(t := W_woken)\<rparr>)"
    by (rule w_take [where clock = clock]) (use pc sem in simp_all)
  have "pool_ok N ?S"
    by (rule pool_ok_step [OF ok(1) _ _ step]) (use pool_okD [OF ok(1)] in auto)
  moreover have m: "machine_kept S ?S" "msg_q (ew_ex ?S) = msg_q (ew_ex S)"
    by (simp_all add: machine_kept_def)
  moreover have "jq_contents (ew_ws ?S) = jq_contents (ew_ws S)"
    using rep_contents [OF sem_rep [OF pool_okD(1) [OF ok(1)]], of sem] by simp
  then have "in_use (pool_of ?S) q = in_use (pool_of S) q" for q
    using pc by (simp add: in_use_at [of S q t] in_use_move [of ?S S t])
  then have "job_ok self ?S"
    by (intro job_ok_frame [OF ok(3) m]) simp_all
  ultimately show ?thesis
    using events_ok_frame [OF ok(2) m] by (simp add: exw_inv_def)
qed

lemma fetch_inv:
  assumes inv: "exw_inv N self S" and pc: "ew_pc S t = W_woken" and f: "worker_fetch t (ew_ws S) = Return (f, ws)"
  shows "exw_inv N self (set_ws ws (S\<lparr>ew_pc := (ew_pc S)(t := after_fetch f)\<rparr>))" (is "exw_inv N self ?S")
proof -
  have ok: "pool_ok N S" "events_ok S" "job_ok self S"
    using inv by (simp_all add: exw_inv_def)
  have step: "pool_step N (pool_of S) ((pool_of S)\<lparr>sy_ws := ws, sy_pc := (sy_pc (pool_of S))(t := after_fetch f)\<rparr>)"
    by (rule w_fetch) (use pc f in simp_all)
  note eff = fetch_effect [OF pool_okD(3,4) [OF ok(1)] f]
  have kept: "\<not> shutdown (ws_pool ws)" "queue_size (ws_pool ws) = queue_size (ws_pool (ew_ws S))"
    using eff pool_okD(5) [OF ok(1)] by (simp_all add: pool_kept_def)
  have cases: "(jq_contents (ew_ws S) = [] \<and> f = Fetch_none \<and> jq_contents ws = []) \<or>
      (\<exists>j ys. jq_contents (ew_ws S) = j # ys \<and> f = Fetch_job j \<and> jq_contents ws = ys)"
    using eff pool_okD(5) [OF ok(1)] by (auto split: list.splits dest: rep_contents)
  then have "after_fetch f \<noteq> W_exit" by auto
  then have "pool_ok N ?S"
    by (intro pool_ok_step [OF ok(1) _ _ step]) (use pool_okD [OF ok(1)] kept fetch_keeps(2) [OF f] in auto)
  moreover have m: "machine_kept S ?S" "msg_q (ew_ex ?S) = msg_q (ew_ex S)"
    by (simp_all add: machine_kept_def)
  moreover have "in_use (pool_of ?S) q \<longleftrightarrow> q \<in> set (jq_contents ws) \<or> busy_with (after_fetch f) = Some q \<or>
      (\<exists>u. u \<noteq> t \<and> busy_with (ew_pc S u) = Some q)" for q
    using in_use_move [of ?S S t "after_fetch f" q] by simp
  then have use: "in_use (pool_of ?S) q = in_use (pool_of S) q" for q
    using cases pc by (auto simp: in_use_at [of S q t])
  have "f \<noteq> Fetch_job q" if "\<not> in_use (pool_of S) q" for q
    using cases that by (auto simp: in_use_pool_of)
  then have "job_ok self ?S"
    using fetch_keeps [OF f] by (intro job_ok_frame [OF ok(3) m _ use]) simp_all
  ultimately show ?thesis
    using events_ok_frame [OF ok(2) m] by (simp add: exw_inv_def)
qed

lemma exec_inv:
  assumes inv: "exw_inv N self S" and pc: "ew_pc S t = W_run j"
    and h: "simulate_heavy_computation cancelled (ew_ex S) = (ret, ex)"
  shows "exw_inv N self (set_ws (job_executed j ret (ew_ws S)) (S\<lparr>ew_ex := ex, ew_pc := (ew_pc S)(t := W_return j)\<rparr>))"
    (is "exw_inv N self ?S")
proof -
  have ok: "pool_ok N S" "events_ok S" "job_ok self S"
    using inv by (simp_all add: exw_inv_def)
  obtain pr where ex: "ex = (ew_ex S)\<lparr>operation_progress := pr\<rparr>"
    using heavy_keeps [OF h] by blast
  have step: "pool_step N (pool_of S) ((pool_of S)\<lparr>sy_ws := job_executed j ret (sy_ws (pool_of S)),
      sy_pc := (sy_pc (pool_of S))(t := W_return j)\<rparr>)"
    by (rule w_exec) (use pc in simp)
  have "pool_ok N ?S"
    by (rule pool_ok_step [OF ok(1) _ _ step]) (use pool_okD [OF ok(1)] in \<open>auto simp: ex\<close>)
  moreover have m: "machine_kept S ?S" "msg_q (ew_ex ?S) = msg_q (ew_ex S)"
    by (simp_all add: machine_kept_def ex)
  moreover have "jq_contents (ew_ws ?S) = jq_contents (ew_ws S)"
    using rep_contents [OF exec_rep [OF pool_okD(1) [OF ok(1)]], of t j ret] pc by simp
  then have "in_use (pool_of ?S) q = in_use (pool_of S) q" for q
    using pc by (simp add: in_use_at [of S q t] in_use_move [of ?S S t])
  then have "job_ok self ?S"
    by (intro job_ok_frame [OF ok(3) m]) (simp_all add: ex)
  ultimately show ?thesis
    using events_ok_frame [OF ok(2) m] by (simp add: exw_inv_def)
qed

lemma done_event_valid: "in_job_pool p \<Longrightarrow> valid_event (done_event p)"
  by (simp add: valid_event_def done_event_def c_int_def c_consts sizeof_osa_worker_job_def in_job_pool_def
      g_job_pool_def OSA_JOB_POOL_SIZE_def)

text \<open>A worker reports the job of the machine: nothing is in use any more, and the event is there unless the queue is full.\<close>

lemma complete_report:
  assumes inv: "exw_inv N self S" and self: "self \<noteq> NULL" and pc: "ew_pc S t = W_return j"
    and c: "worker_complete t example_cb pad now j (others(self := osa_hsm_active.truncate (ew_ex S))) (ew_ws S) =
      Return (hsms, ws)"
  shows "j = ew_job S" "ew_waiting S"
    "hsm_running ((ew_ex S)\<lparr>msg_q := msg_q (hsms self)\<rparr>)"
    "map bytes_event (hsm_pending ((ew_ex S)\<lparr>msg_q := msg_q (hsms self)\<rparr>)) =
      ew_events S @ (if queue_room (ew_ex S) then [done_event j] else [])"
    "\<And>q. q \<noteq> j \<Longrightarrow> jobs (ws_store ws) q = jobs (ws_store (ew_ws S)) q"
    "g_job_pool_initialized (ws_store ws) = g_job_pool_initialized (ws_store (ew_ws S))"
proof -
  have ok: "pool_ok N S" "events_ok S" "job_ok self S"
    using inv by (simp_all add: exw_inv_def)
  have u: "in_use (pool_of S) j"
    using pc unfolding in_use_at [of S j t] by simp
  show j: "j = ew_job S" and w: "ew_waiting S"
    using job_okD(1,2) [OF ok(3) u] by blast+
  let ?jb = "jobs (ws_store (ew_ws S)) j" and ?h0 = "osa_hsm_active.truncate (ew_ex S)"
  have jb: "target_hsm ?jb = self" "completion_event j ?jb = done_event j"
    using job_okD(4,5) [OF ok(3) u] by (simp_all add: completion_event_def done_event_def j)
  obtain ws' where cc: "worker_complete t example_cb pad now j (others(self := ?h0)) (ew_ws S) =
      Return (case post_now pad (done_event j) now (Some ?h0) of
                (_, Some h) \<Rightarrow> others(self := h) | (_, None) \<Rightarrow> others(self := ?h0), ws')"
    "\<And>q. q \<noteq> j \<Longrightarrow> jobs (ws_store ws') q = jobs (ws_store (ew_ws S)) q"
    "g_job_pool_initialized (ws_store ws') = g_job_pool_initialized (ws_store (ew_ws S))"
    by (rule complete_example [OF pool_okD(3) [OF ok(1)], of t pad now j "others(self := ?h0)"])
      (use jb self in \<open>simp split: prod.splits option.splits\<close>)
  then have "ws' = ws"
    using c by simp
  with cc(2,3) show "\<And>q. q \<noteq> j \<Longrightarrow> jobs (ws_store ws) q = jobs (ws_store (ew_ws S)) q"
    "g_job_pool_initialized (ws_store ws) = g_job_pool_initialized (ws_store (ew_ws S))"
    by blast+
  have "hsm_running ?h0"
    using ok(2) by (simp add: events_ok_def)
  moreover have "valid_event (done_event j)"
    using job_okD(6) [OF ok(3) w] j by (intro done_event_valid) simp
  ultimately obtain r h where h: "post_now pad (done_event j) now (Some ?h0) = (r, Some h)" "h = ?h0\<lparr>msg_q := msg_q h\<rparr>"
    "hsm_running h" "map bytes_event (hsm_pending h) = map bytes_event (hsm_pending ?h0) @ (if queue_room ?h0 then [done_event j] else [])"
    by (rule post_queue)
  have q: "msg_q (hsms self) = msg_q h"
    using c cc(1) h(1) by auto
  have room: "queue_room ?h0 = queue_room (ew_ex S)"
    by (simp add: queue_room_def)
  show "hsm_running ((ew_ex S)\<lparr>msg_q := msg_q (hsms self)\<rparr>)"
    "map bytes_event (hsm_pending ((ew_ex S)\<lparr>msg_q := msg_q (hsms self)\<rparr>)) =
      ew_events S @ (if queue_room (ew_ex S) then [done_event j] else [])"
    using h(3,4) unfolding q room ew_events_def by (simp_all add: hsm_running_def hsm_pending_def)
qed

lemma complete_inv:
  assumes inv: "exw_inv N self S" and self: "self \<noteq> NULL" and pc: "ew_pc S t = W_return j"
    and c: "worker_complete t example_cb pad now j (others(self := osa_hsm_active.truncate (ew_ex S))) (ew_ws S) =
      Return (hsms, ws)"
  shows "exw_inv N self (set_ws ws (S\<lparr>
      ew_ex := (job_completion_callback (job_result (jobs (ws_store ws) j)) (ew_ex S))\<lparr>msg_q := msg_q (hsms self)\<rparr>,
      ew_pc := (ew_pc S)(t := W_wait), ew_lost := (ew_lost S \<or> \<not> queue_room (ew_ex S))\<rparr>))"
    (is "exw_inv N self ?S")
proof -
  have ok: "pool_ok N S" "events_ok S" "job_ok self S"
    using inv by (simp_all add: exw_inv_def)
  note rep = complete_report [OF inv self pc c]
  let ?s = "(pool_of S)\<lparr>sy_hsms := others(self := osa_hsm_active.truncate (ew_ex S))\<rparr>"
  have step: "pool_step N ?s (?s\<lparr>sy_ws := ws, sy_hsms := hsms, sy_pc := (sy_pc ?s)(t := W_wait)\<rparr>)"
    by (rule w_complete [where cb = example_cb and pad = pad and now = now and j = j]) (use pc c rep(5) in simp_all)
  have frame: "p \<in> set (jq_contents (ew_ws S)) \<Longrightarrow> jobs (ws_store ws) p = jobs (ws_store (ew_ws S)) p" for p
    using inv_queue_busy(2) [OF pool_okD(1) [OF ok(1)], of t j] pc rep(5) [of p] by auto
  note eff = complete_effect [OF pool_okD(3,4) [OF ok(1)] c frame]
  have p: "pool_ok N ?S"
    by (rule pool_ok_step [OF ok(1) _ _ step]) (use pool_okD [OF ok(1)] eff rep(6) in \<open>auto simp: pool_kept_def\<close>)
  have fields: "hsm_current (ew_ex ?S) = hsm_current (ew_ex S)" "ew_job ?S = ew_job S"
    "job_count (ew_ex ?S) = job_count (ew_ex S)" "completed_count (ew_ex ?S) = completed_count (ew_ex S)"
    "error_count (ew_ex ?S) = error_count (ew_ex S)"
    by (simp_all add: job_completion_callback_def)
  have ev: "ew_events ?S = ew_events S @ (if queue_room (ew_ex S) then [done_event j] else [])"
    "hsm_running (ew_ex ?S)"
    using rep(3,4) by (simp_all add: ew_events_def job_completion_callback_def hsm_running_def hsm_pending_def)
  have u: "in_use (pool_of S) j"
    using pc unfolding in_use_at [of S j t] by simp
  have none: "done_event j \<notin> set (ew_events S)"
    using job_okD(3) [OF ok(3) u] rep(1) by simp
  have unused: "\<not> in_use (pool_of ?S) q" for q
  proof
    assume a: "in_use (pool_of ?S) q"
    have "jq_contents ws = jq_contents (ew_ws S)"
      using eff rep_contents by blast
    then have q: "q \<in> set (jq_contents (ew_ws S)) \<or> (\<exists>v. v \<noteq> t \<and> busy_with (ew_pc S v) = Some q)"
      using a in_use_move [of ?S S t W_wait q] by simp
    then have "in_use (pool_of S) q"
      unfolding in_use_at [of S q t] by blast
    then have "q = j"
      using job_okD(2) [OF ok(3)] rep(1) by simp
    then show False
      using q inv_queue_busy(2,4) [OF pool_okD(1) [OF ok(1)], of t j] pc by auto
  qed
  have "events_ok ?S"
    using ok(2) ev none rep(1,2) fields unfolding events_ok_def by (auto simp: filter_empty_conv)
  moreover have "slot_free (ws_store ws) i \<or> ew_job S = g_job_pool + i" if "i < OSA_JOB_POOL_SIZE" for i
    using job_okD(8) [OF ok(3) that] rep(1,5) by (cases "j = g_job_pool + i") (auto simp: slot_free_def)
  then have "job_ok self ?S"
    using job_okD(6,9) [OF ok(3)] rep(1,2) unused ev(1) fields unfolding job_ok_def Let_def by (simp add: rep(2))
  ultimately show ?thesis
    using p by (simp add: exw_inv_def)
qed

section \<open>The dispatcher keeps the invariant\<close>

text \<open>The events the machine ignores.\<close>

lemma dispatch_ignored:
  "hsm_current ex = state_processing \<Longrightarrow>
   STATE_DISPATCH wex_states (hsm_call (wex_code d self) 3) state_processing (sig_event SIG_WORK_START) ex =
     Some (0, ex\<lparr>hsm_error := 0\<rparr>)"
  "STATE_DISPATCH wex_states (hsm_call (wex_code d self) 3) state_processing (sig_event HSM_SIG_PERIOD) ex = Some (0, ex)"
  "STATE_DISPATCH wex_states (hsm_call (wex_code d self) 3) state_idle (sig_event HSM_SIG_PERIOD) ex = Some (0, ex)"
  by (simp_all add: STATE_DISPATCH_def STATE_SUPER_def numeral_3_eq_3 state_processing_handler_def
      state_working_handler_def state_idle_handler_def sig_event_def c_consts)

lemma turn_cases [consumes 2, case_names ignored started reported]:
  assumes inv: "exw_inv N self S" and turn: "run_iter wex_states (wex_code d self) 3 now (ew_ex S) = Return (x, Some ex)"
  obtains e es where "ew_events S = e # es" "map bytes_event (hsm_pending ex) = es" "hsm_running ex"
      "e \<noteq> done_event (ew_job S)" "e = sig_event SIG_WORK_START \<Longrightarrow> ew_waiting S"
      "ex = (ew_ex S)\<lparr>msg_q := msg_q ex, hsm_error := hsm_error ex\<rparr>"
  | es where "ew_events S = sig_event SIG_WORK_START # es" "map bytes_event (hsm_pending ex) = es" "hsm_running ex"
      "hsm_current (ew_ex S) = state_idle" "job_handed self [] (ew_ex S) ex"
      "completed_count ex = completed_count (ew_ex S)" "error_count ex = error_count (ew_ex S)"
  | es q where "ew_events S = done_event (ew_job S) # es" "map bytes_event (hsm_pending ex) = es" "hsm_running ex"
      "ew_waiting S" "ex = (working_complete (ew_job S) ((ew_ex S)\<lparr>msg_q := q\<rparr>))\<lparr>hsm_histroy := state_processing,
        hsm_current := state_idle, operation_progress := 0, operation_result := 0, hsm_error := 0\<rparr>"
proof -
  have ok: "pool_ok N S" "events_ok S" "job_ok self S"
    using inv by (simp_all add: exw_inv_def)
  have run: "hsm_running (ew_ex S)"
    using ok(2) by (simp add: events_ok_def)
  have "hsm_pending (ew_ex S) \<noteq> []"
    using run_iter_empty [OF run, of wex_states "wex_code d self" 3 now] turn by auto
  then obtain m ms where ms: "hsm_pending (ew_ex S) = m # ms"
    by (cases "hsm_pending (ew_ex S)") auto
  obtain q where q: "run_iter wex_states (wex_code d self) 3 now (ew_ex S) =
      Return (Some (hsm_current (ew_ex S), bytes_event m),
        map_option snd (STATE_DISPATCH wex_states (hsm_call (wex_code d self) 3) (hsm_current (ew_ex S)) (bytes_event m)
          ((ew_ex S)\<lparr>msg_q := Some q\<rparr>)))"
    "hsm_running ((ew_ex S)\<lparr>msg_q := Some q\<rparr>)" "hsm_pending ((ew_ex S)\<lparr>msg_q := Some q\<rparr>) = ms"
    by (rule run_iter_dispatch [OF run ms])
  let ?ex = "(ew_ex S)\<lparr>msg_q := Some q\<rparr>" and ?e = "bytes_event m"
  have ev: "ew_events S = ?e # map bytes_event ms"
    using ms by (simp add: ew_events_def)
  obtain r where disp: "STATE_DISPATCH wex_states (hsm_call (wex_code d self) 3) (hsm_current (ew_ex S)) ?e ?ex = Some (r, ex)"
    using turn q(1) by auto
  have tail: "map bytes_event (hsm_pending ex) = map bytes_event ms" "hsm_running ex" if "msg_q ex = Some q"
    using q(2,3) that by (simp_all add: hsm_pending_def hsm_running_def)
  consider "?e = sig_event HSM_SIG_PERIOD" | "?e = sig_event SIG_WORK_START" "ew_waiting S"
    | "?e = sig_event SIG_WORK_START" "hsm_current (ew_ex S) = state_idle" | "ew_waiting S" "?e = done_event (ew_job S)"
    using ok(2) ev unfolding events_ok_def by auto
  then show ?thesis
  proof cases
    case 1
    have "hsm_current (ew_ex S) = state_idle \<or> ew_waiting S"
      using ok(2) by (auto simp: events_ok_def)
    then have "ex = ?ex"
      using disp 1 dispatch_ignored(2,3) [of d self ?ex] by auto
    moreover have "sig_event HSM_SIG_PERIOD \<noteq> sig_event SIG_WORK_START"
      by (simp add: sig_event_def c_consts)
    ultimately show ?thesis
      using 1 ev tail by (intro that(1) [of ?e "map bytes_event ms"]) auto
  next
    case 2
    then have "ex = ?ex\<lparr>hsm_error := 0\<rparr>"
      using disp dispatch_ignored(1) [of ?ex d self] by auto
    with 2 ev tail show ?thesis
      by (intro that(1) [of ?e "map bytes_event ms"]) auto
  next
    case 3
    have "jq_contents (ew_ws S) = []"
      using idle_unused(1) [OF ok(3)] 3(2) by simp
    then have rep: "job_queue_rep (ex_ws ?ex) []"
      using pool_okD(4) [OF ok(1)] by simp
    obtain ex' where ex': "STATE_DISPATCH wex_states (hsm_call (wex_code d self) (Suc (Suc (Suc 0)))) state_idle
        (sig_event SIG_WORK_START) ?ex = Some (0, ex')" "job_handed self [] ?ex ex'"
      "completed_count ex' = completed_count ?ex" "error_count ex' = error_count ?ex" "msg_q ex' = msg_q ?ex"
      by (rule start_dispatch [OF _ _ _ rep, of d self 0]) (use 3(2) pool_okD [OF ok(1)] in simp_all)
    then have "ex' = ex"
      using disp 3 by (simp add: numeral_3_eq_3)
    moreover have "job_handed self [] ?ex ex = job_handed self [] (ew_ex S) ex"
      by (simp add: job_handed_def Let_def)
    ultimately show ?thesis
      using ev tail ex' 3 by (intro that(2) [of "map bytes_event ms"]) auto
  next
    case 4
    have "STATE_DISPATCH wex_states (hsm_call (wex_code d self) (Suc (Suc (Suc 0)))) state_processing
        (done_event (ew_job S)) ?ex = Some (0, (working_complete (ew_job S) ?ex)\<lparr>hsm_histroy := state_processing,
        hsm_current := state_idle, operation_progress := 0, operation_result := 0, hsm_error := 0\<rparr>)"
      using complete_dispatch [of ?ex "done_event (ew_job S)" d self 0] 4 by simp
    then have ex: "ex = (working_complete (ew_job S) ?ex)\<lparr>hsm_histroy := state_processing,
        hsm_current := state_idle, operation_progress := 0, operation_result := 0, hsm_error := 0\<rparr>"
      using disp 4 by (simp add: numeral_3_eq_3)
    then have "msg_q ex = Some q"
      by (simp add: working_complete_def Let_def)
    with ev tail ex 4 show ?thesis
      by (intro that(3) [of "map bytes_event ms" "Some q"]) auto
  qed
qed

lemma ignored_inv:
  assumes inv: "exw_inv N self S" and ev: "ew_events S = e # es" "map bytes_event (hsm_pending ex) = es" "hsm_running ex"
    and e: "e \<noteq> done_event (ew_job S)" and ex: "ex = (ew_ex S)\<lparr>msg_q := q, hsm_error := r\<rparr>"
  shows "exw_inv N self (S\<lparr>ew_ex := ex\<rparr>)" (is "exw_inv N self ?S")
proof -
  have ok: "pool_ok N S" "events_ok S" "job_ok self S"
    using inv by (simp_all add: exw_inv_def)
  have es: "ew_events ?S = es"
    using ev(2) by (simp add: ew_events_def)
  have same: "ew_ws ?S = ew_ws S" "ew_pc ?S = ew_pc S"
    by (simp_all add: ex)
  then have use: "in_use (pool_of ?S) = in_use (pool_of S)" and p: "pool_ok N ?S"
    using ok(1) invs_cong [of "pool_of ?S" "pool_of S"] by (simp_all add: pool_ok_def)
  have "events_ok ?S"
    using ok(2) ev(1,3) e unfolding events_ok_def es by (simp add: ex)
  moreover have "done_event (ew_job S) \<in> set es \<longleftrightarrow> done_event (ew_job S) \<in> set (ew_events S)"
    using ev(1) e by auto
  then have "job_ok self ?S"
    using ok(3) unfolding job_ok_def Let_def use es by (simp add: ex) blast
  ultimately show ?thesis using p by (simp add: exw_inv_def)
qed

lemma started_inv:
  assumes inv: "exw_inv N self S" and ev: "ew_events S = e # es" "map bytes_event (hsm_pending ex) = es" "hsm_running ex"
    and idle: "hsm_current (ew_ex S) = state_idle" and job: "job_handed self [] (ew_ex S) ex"
    and counts: "completed_count ex = completed_count (ew_ex S)" "error_count ex = error_count (ew_ex S)"
  shows "exw_inv N self (S\<lparr>ew_ex := ex\<rparr>)" "jq_contents (ex_ws ex) = [current_job ex]"
    "work_sem_of (ex_ws ex) = osa_sem_post (work_sem_of (ew_ws S))" "hsm_current ex = state_processing"
proof -
  have ok: "pool_ok N S" "events_ok S" "job_ok self S"
    using inv by (simp_all add: exw_inv_def)
  let ?S = "S\<lparr>ew_ex := ex\<rparr>" and ?p = "current_job ex" and ?ws = "ex_ws ex"
  have nw: "\<not> ew_waiting S" and free: "slot_free (ws_store (ew_ws S)) i" if "i < OSA_JOB_POOL_SIZE" for i
    using idle job_okD(8) [OF ok(3), of i] that by auto
  have "\<exists>i < OSA_JOB_POOL_SIZE. slot_free (ws_store (ew_ws S)) i"
    using free [of 0] by (intro exI [of _ 0]) (simp add: OSA_JOB_POOL_SIZE_def)
  moreover have "length [] < unat (queue_size (ws_pool (ew_ws S)))"
    using pool_okD(6) [OF ok(1)] by (simp add: unat_gt_0)
  ultimately have h: "job_count ex = job_count (ew_ex S) + 1" "wp_lock (ws_pool ?ws) = free_lock"
    "queue_size (ws_pool ?ws) = queue_size (ws_pool (ew_ws S))" "shutdown (ws_pool ?ws) = shutdown (ws_pool (ew_ws S))"
    "g_job_pool_initialized (ws_store ?ws)" "hsm_current ex = state_processing" "in_job_pool ?p"
    "job_queue_rep ?ws [?p]" "work_sem_of ?ws = osa_sem_post (work_sem_of (ew_ws S))"
    "target_hsm (jobs (ws_store ?ws) ?p) = self" "completion_signal (jobs (ws_store ?ws) ?p) = SIG_WORK_COMPLETE"
    "\<And>q. q \<noteq> ?p \<Longrightarrow> job_state (jobs (ws_store ?ws) q) = job_state (jobs (ws_store (ew_ws S)) q)"
    using job unfolding job_handed_def Let_def by simp_all
  show jq: "jq_contents ?ws = [?p]" and "work_sem_of ?ws = osa_sem_post (work_sem_of (ew_ws S))"
    and "hsm_current ex = state_processing"
    using rep_contents [OF h(8)] h(6,9) by auto
  have idle': "\<not> ew_waiting S"
    using idle by simp
  note unused = idle_unused [OF ok(3) idle']
  have es: "ew_events ?S = es"
    using ev(2) by (simp add: ew_events_def)
  have evs: "\<forall>e \<in> set es. e \<in> {sig_event SIG_WORK_START, sig_event HSM_SIG_PERIOD}"
    using ok(2) ev(1) idle' by (auto simp: events_ok_def)
  then have nodone: "done_event p \<notin> set es" for p
    by (auto dest: bspec)
  have "inv_queue N (pool_of ?S)"
    using pool_okD(1) [OF ok(1)] h(2,8) jq unused(2) by (simp add: inv_queue_def)
  moreover obtain sem where sem: "work_sem_of (ew_ws S) = Some sem" "alive_count (ew_pc S) \<le> sem_value sem + woken_count (ew_pc S) + N"
    "unat (queue_size (ws_pool (ew_ws S))) \<le> SEM_VALUE_MAX" "N \<le> SEM_VALUE_MAX"
    using pool_okD(2) [OF ok(1)] by (auto simp: inv_tokens_def)
  then have "inv_tokens N (pool_of ?S)"
    using h(3,9) jq by (auto simp: inv_tokens_def osa_sem_post_def SEM_VALUE_MAX_def)
  ultimately have "pool_ok N ?S"
    using ok(1) h(3-5) by (simp add: pool_ok_def)
  moreover have "filter (\<lambda>e. e = done_event ?p) es = []"
    using nodone by (auto simp: filter_empty_conv)
  then have "events_ok ?S"
    using ev(3) h(6) evs unfolding events_ok_def es by simp
  moreover have use: "in_use (pool_of ?S) q \<longleftrightarrow> q = ?p" for q
    unfolding in_use_pool_of using jq unused(2) by simp
  have "slot_free (ws_store ?ws) i \<or> ?p = g_job_pool + i" if "i < OSA_JOB_POOL_SIZE" for i
    using free [OF that] h(12) [of "g_job_pool + i"] by (auto simp: slot_free_def)
  then have "job_ok self ?S"
    using h nodone counts job_okD(9) [OF ok(3)] idle' unfolding job_ok_def Let_def use es by simp
  ultimately show "exw_inv N self ?S" by (simp add: exw_inv_def)
qed

lemma reported_inv:
  assumes inv: "exw_inv N self S"
    and ev: "ew_events S = done_event (ew_job S) # es" "map bytes_event (hsm_pending ex) = es" "hsm_running ex"
    and w: "ew_waiting S" and ex: "ex = (working_complete (ew_job S) ((ew_ex S)\<lparr>msg_q := q\<rparr>))\<lparr>hsm_histroy := state_processing,
        hsm_current := state_idle, operation_progress := 0, operation_result := 0, hsm_error := 0\<rparr>"
  shows "exw_inv N self (S\<lparr>ew_ex := ex\<rparr>)" "jq_contents (ex_ws ex) = jq_contents (ew_ws S)"
    "work_sem_of (ex_ws ex) = work_sem_of (ew_ws S)"
proof -
  have ok: "pool_ok N S" "events_ok S" "job_ok self S"
    using inv by (simp_all add: exw_inv_def)
  let ?S = "S\<lparr>ew_ex := ex\<rparr>" and ?p = "ew_job S" and ?st = "osa_worker_job_free (ws_store (ew_ws S)) (ew_job S)"
  have p: "in_job_pool ?p" "?p \<noteq> NULL"
    using job_okD(6) [OF ok(3) w] by auto
  have ws: "ex_ws ex = (ew_ws S)\<lparr>ws_store := ?st\<rparr>"
    using p(2) by (simp add: ex working_complete_def Let_def)
  have st: "jobs ?st = (jobs (ws_store (ew_ws S)))(?p := (jobs (ws_store (ew_ws S)) ?p)\<lparr>job_state := OSA_JOB_COMPLETED\<rparr>)"
    "g_job_pool_initialized ?st = g_job_pool_initialized (ws_store (ew_ws S))"
    using p(1) by (auto simp: osa_worker_job_free_def job_pool_free_def in_job_pool_def)
  have unused: "\<not> in_use (pool_of S) x" for x
    using job_okD(3) [OF ok(3), of x] ev(1) by auto
  have step: "pool_step N (pool_of S) ((pool_of S)\<lparr>sy_ws := (sy_ws (pool_of S))\<lparr>ws_store := ?st\<rparr>\<rparr>)"
    by (rule w_client) (use unused in blast)
  have "pool_ok N ?S"
    by (rule pool_ok_step [OF ok(1) _ _ step]) (use pool_okD [OF ok(1)] st(2) in \<open>auto simp: ws\<close>)
  moreover show jq: "jq_contents (ex_ws ex) = jq_contents (ew_ws S)" and "work_sem_of (ex_ws ex) = work_sem_of (ew_ws S)"
    using rep_contents [OF client_rep [OF pool_okD(1) [OF ok(1)]], of ?st] unused by (simp_all add: ws)
  have es: "ew_events ?S = es"
    using ev(2) by (simp add: ew_events_def)
  have idle: "hsm_current ex = state_idle" "job_count ex = job_count (ew_ex S)"
    "completed_count ex + error_count ex = completed_count (ew_ex S) + error_count (ew_ex S) + 1"
    using p(2) by (simp_all add: ex working_complete_def Let_def)
  have "filter (\<lambda>e. e = done_event ?p) es = []"
    using ok(2) ev(1) by (simp add: events_ok_def)
  then have "done_event ?p \<notin> set es"
    by (auto simp: filter_empty_conv)
  then have evs: "\<forall>e \<in> set es. e \<in> {sig_event SIG_WORK_START, sig_event HSM_SIG_PERIOD}"
    using ok(2) ev(1) by (auto simp: events_ok_def)
  then have "filter (\<lambda>e. e = done_event p) es = []" for p
    by (auto simp: filter_empty_conv dest: bspec)
  then have "events_ok ?S"
    using ev(3) idle(1) evs unfolding events_ok_def es by simp
  moreover have use: "\<not> in_use (pool_of ?S) x" for x
    using unused [of x] jq unfolding in_use_pool_of by simp
  have "slot_free ?st i" if "i < OSA_JOB_POOL_SIZE" for i
    using job_okD(8) [OF ok(3) that] st(1) by (auto simp: slot_free_def)
  then have "job_ok self ?S"
    using use idle job_okD(9) [OF ok(3)] w unfolding job_ok_def Let_def by (simp add: ws add.assoc)
  ultimately show "exw_inv N self ?S" by (simp add: exw_inv_def)
qed

text \<open>A post from outside.\<close>

lemma post_inv:
  assumes inv: "exw_inv N self S" and sig: "sig \<in> {SIG_WORK_START, HSM_SIG_PERIOD}"
    and post: "post_now pad (sig_event sig) now (Some (ew_ex S)) = (r, Some ex)"
  shows "exw_inv N self (S\<lparr>ew_ex := ex\<rparr>)" (is "exw_inv N self ?S")
proof -
  have ok: "pool_ok N S" "events_ok S" "job_ok self S"
    using inv by (simp_all add: exw_inv_def)
  have "hsm_running (ew_ex S)"
    using ok(2) by (simp add: events_ok_def)
  moreover have "valid_event (sig_event sig)"
    using sig by (auto simp: valid_event_def sig_event_def c_int_def c_consts)
  ultimately obtain r' h where h: "post_now pad (sig_event sig) now (Some (ew_ex S)) = (r', Some h)"
    "h = (ew_ex S)\<lparr>msg_q := msg_q h\<rparr>" "hsm_running h"
    "map bytes_event (hsm_pending h) = map bytes_event (hsm_pending (ew_ex S)) @ (if queue_room (ew_ex S) then [sig_event sig] else [])"
    by (rule post_queue)
  then have ex: "ex = (ew_ex S)\<lparr>msg_q := msg_q ex\<rparr>" "hsm_running ex"
    and es: "ew_events ?S = ew_events S @ (if queue_room (ew_ex S) then [sig_event sig] else [])"
    using post by (simp_all add: ew_events_def)
  obtain q where q: "ex = (ew_ex S)\<lparr>msg_q := q\<rparr>"
    using ex(1) by blast
  have use: "in_use (pool_of ?S) = in_use (pool_of S)" and p: "pool_ok N ?S"
    using ok(1) invs_cong [of "pool_of ?S" "pool_of S"] by (simp_all add: pool_ok_def q)
  have dn: "done_event (ew_job S) \<in> set (ew_events ?S) \<longleftrightarrow> done_event (ew_job S) \<in> set (ew_events S)"
    and "filter (\<lambda>e. e = done_event (ew_job S)) (ew_events ?S) = filter (\<lambda>e. e = done_event (ew_job S)) (ew_events S)"
    and "\<forall>e \<in> set (ew_events ?S). e \<in> set (ew_events S) \<or> e \<in> {sig_event SIG_WORK_START, sig_event HSM_SIG_PERIOD}"
    using sig by (auto simp: es)
  then have "events_ok ?S"
    using ok(2) ex(2) unfolding events_ok_def by (auto simp: q)
  moreover have "job_ok self ?S"
    using ok(3) dn unfolding job_ok_def Let_def use by (simp add: q) blast
  ultimately show ?thesis using p by (simp add: exw_inv_def)
qed

section \<open>Reachable states\<close>

lemma exw_step_inv:
  assumes "exw_step N self S S'" and "exw_inv N self S" and "self \<noteq> NULL"
  shows "exw_inv N self S'"
  using assms
proof (induction rule: exw_step.induct)
  case (e_turn d now S x ex)
  from e_turn.prems(1) e_turn.hyps show ?case
  proof (cases rule: turn_cases)
    case (ignored e es)
    obtain q r where "ex = (ew_ex S)\<lparr>msg_q := q, hsm_error := r\<rparr>"
      using ignored(6) by blast
    then show ?thesis
      by (rule ignored_inv [OF e_turn.prems(1) ignored(1-4)])
  next
    case (started es)
    then show ?thesis by (rule started_inv [OF e_turn.prems(1)])
  next
    case (reported es q)
    then show ?thesis by (rule reported_inv [OF e_turn.prems(1)])
  qed
qed (blast intro: take_inv fetch_inv exec_inv complete_inv)+

lemma exw_start_inv:
  assumes "exw_start N S"
  shows "exw_inv N self S"
proof -
  let ?ws = "ew_ws S"
  have s: "fresh_pool (ws_pool ?ws)" "N = unat (num_workers (ws_pool ?ws))" "0 < queue_size (ws_pool ?ws)"
    "g_job_pool_initialized (ws_store ?ws)" "\<forall>i < OSA_JOB_POOL_SIZE. slot_free (ws_store ?ws) i"
    "ew_pc S = (\<lambda>t. if t < N then W_wait else W_exit)" "hsm_current (ew_ex S) = state_idle" "hsm_running (ew_ex S)"
    "hsm_pending (ew_ex S) = []" "job_count (ew_ex S) = 0" "completed_count (ew_ex S) = 0" "error_count (ew_ex S) = 0"
    using assms by (simp_all add: exw_start_def Let_def)
  let ?s = "pool_start N \<lparr>ws_pool = ws_pool ?ws, ws_store = ws_store ?ws\<rparr> (sy_hsms (pool_of S))"
  have "sy_ws (pool_of S) = sy_ws ?s" "sy_pc (pool_of S) = sy_pc ?s" "sy_posts (pool_of S) = sy_posts ?s"
    using s(6) by (simp_all add: pool_start_def)
  note cong = invs_cong [OF this]
  have "inv_queue N (pool_of S)" "inv_tokens N (pool_of S)"
    unfolding cong by (rule pool_start_invs [OF s(1,2)])+
  then have "pool_ok N S"
    using s(3,4,6) fresh_pool_fields(5) [OF s(1)] by (simp add: pool_ok_def)
  moreover have "job_queue_rep ?ws []"
    using fresh_pool_fields [OF s(1)] by (simp add: job_queue_rep_def zero_stats_def)
  then have "\<not> in_use (pool_of S) q" for q
    using s(6) rep_contents unfolding in_use_pool_of by (auto split: if_splits)
  then have "job_ok self S"
    using s by (simp add: job_ok_def)
  moreover have "events_ok S"
    using s by (simp add: events_ok_def ew_events_def)
  ultimately show ?thesis by (simp add: exw_inv_def)
qed

lemma exw_reachable_inv:
  assumes "exw_reachable N self S0 S" and "exw_start N S0" and "self \<noteq> NULL"
  shows "exw_inv N self S"
  using assms
  by (induction rule: exw_reachable.induct) (blast intro: exw_start_inv exw_step_inv post_inv)+

section \<open>Properties\<close>

text \<open>The jobs on their way: queued, with a worker, or in a completion event the machine has not seen yet.\<close>

definition jobs_under_way :: "exw_sys \<Rightarrow> nat" where
  "jobs_under_way S =
    length (jq_contents (ew_ws S)) + card {t. busy_with (ew_pc S t) \<noteq> None} +
    length (filter (\<lambda>e. ev_signal e = SIG_WORK_COMPLETE) (ew_events S))"

lemma one_job:
  assumes inv: "exw_inv N self S" and "in_use (pool_of S) q"
  shows "length (jq_contents (ew_ws S)) + card {t. busy_with (ew_pc S t) \<noteq> None} = 1"
proof -
  let ?p = "ew_job S"
  have ok: "inv_queue N (pool_of S)" "job_ok self S"
    using inv by (simp_all add: exw_inv_def pool_ok_def)
  have only: "x = ?p" if "in_use (pool_of S) x" for x
    using job_okD(2) [OF ok(2) that] .
  have jq: "x = ?p" if "x \<in> set (jq_contents (ew_ws S))" for x
    using only that unfolding in_use_pool_of by blast
  have busy: "busy_with (ew_pc S u) = None \<or> busy_with (ew_pc S u) = Some ?p" for u
    using only unfolding in_use_pool_of by (cases "busy_with (ew_pc S u)") auto
  consider "?p \<in> set (jq_contents (ew_ws S))" | t where "busy_with (ew_pc S t) = Some ?p"
    using assms(2) jq busy unfolding in_use_pool_of by fastforce
  then show ?thesis
  proof cases
    case 1
    then have "busy_with (ew_pc S u) = None" for u
      using busy [of u] inv_queue_busy(2) [OF ok(1), of u ?p] by auto
    moreover have "set (jq_contents (ew_ws S)) = {?p}"
      using 1 jq by blast
    then have "length (jq_contents (ew_ws S)) = 1"
      using distinct_card [of "jq_contents (ew_ws S)"] inv_queueD(2) [OF ok(1)] by (simp add: job_queue_rep_def)
    ultimately show ?thesis by simp
  next
    case (2 t)
    then have "jq_contents (ew_ws S) = []"
      using jq inv_queue_busy(2) [OF ok(1), of t ?p] by (cases "jq_contents (ew_ws S)") auto
    moreover have "u = t" if "busy_with (ew_pc S u) \<noteq> None" for u
      using that busy [of u] 2 inv_queue_busy(4) [OF ok(1), of t ?p u] by auto
    with 2 have "{u. busy_with (ew_pc S u) \<noteq> None} = {t}"
      by blast
    ultimately show ?thesis by simp
  qed
qed

lemma reports_pending:
  assumes "events_ok S"
  shows "filter (\<lambda>e. ev_signal e = SIG_WORK_COMPLETE) (ew_events S) = filter (\<lambda>e. e = done_event (ew_job S)) (ew_events S)"
  using assms by (intro filter_cong) (auto simp: events_ok_def sig_event_def c_consts)

lemma under_way:
  assumes inv: "exw_inv N self S" and "\<not> ew_lost S"
  shows "jobs_under_way S = (if ew_waiting S then 1 else 0)"
proof -
  have ok: "events_ok S" "job_ok self S"
    using inv by (simp_all add: exw_inv_def)
  note eq = jobs_under_way_def reports_pending [OF ok(1)]
  consider "\<not> ew_waiting S" | "ew_waiting S" "in_use (pool_of S) (ew_job S)"
    | "ew_waiting S" "\<not> in_use (pool_of S) (ew_job S)" "done_event (ew_job S) \<in> set (ew_events S)"
    using job_okD(7) [OF ok(2)] assms(2) by blast
  then show ?thesis
  proof cases
    case 1
    have "e \<noteq> done_event (ew_job S)" if "e \<in> set (ew_events S)" for e
      using that ok(1) 1 by (auto simp: events_ok_def)
    then have "filter (\<lambda>e. e = done_event (ew_job S)) (ew_events S) = []"
      by (simp add: filter_empty_conv)
    then show ?thesis
      using 1 idle_unused [OF ok(2) 1] by (simp add: eq)
  next
    case 2
    then have "filter (\<lambda>e. e = done_event (ew_job S)) (ew_events S) = []"
      using job_okD(3) [OF ok(2) 2(2)] by (auto simp: filter_empty_conv)
    then show ?thesis
      using 2 one_job [OF inv 2(2)] by (simp add: eq)
  next
    case 3
    have none: "\<not> in_use (pool_of S) q" for q
      using job_okD(2) [OF ok(2), of q] 3(2) by blast
    then have "jq_contents (ew_ws S) = []" "{t. busy_with (ew_pc S t) \<noteq> None} = {}"
      unfolding in_use_pool_of by (cases "jq_contents (ew_ws S)"; auto)+
    moreover have "filter (\<lambda>e. e = done_event (ew_job S)) (ew_events S) \<noteq> []"
      using 3(3) by (simp add: filter_empty_conv)
    then have "length (filter (\<lambda>e. e = done_event (ew_job S)) (ew_events S)) = 1"
      using ok(1) unfolding events_ok_def by (simp add: le_Suc_eq)
    ultimately show ?thesis
      using 3(1) by (simp add: eq)
  qed
qed

text \<open>A concrete system: one worker, an idle machine at address 9 with a queue of 20 messages.\<close>

definition sample_exw :: exw_sys where
  "sample_exw = \<lparr>
     ew_ex = sample_wex\<lparr>msg_q := snd (osa_queue_create True (Some ''q'') sizeof_hsm_event 20 True True),
       ex_ws := \<lparr>ws_pool = sample_fresh, ws_store = ws_store (ex_ws sample_wex)\<rparr>\<rparr>,
     ew_pc = (\<lambda>t. if t < 1 then W_wait else W_exit), ew_lost = False\<rparr>"

lemma sample_exw_ok:
  "exw_start 1 sample_exw" "hsm_running (ew_ex sample_exw)" "hsm_pending (ew_ex sample_exw) = []"
  "hsm_queue_cap (ew_ex sample_exw) = 20"
proof -
  show q: "hsm_running (ew_ex sample_exw)" "hsm_pending (ew_ex sample_exw) = []" "hsm_queue_cap (ew_ex sample_exw) = 20"
    by (simp_all add: sample_exw_def hsm_running_def hsm_pending_def hsm_queue_cap_def osa_queue_create_def
        open_inv_def queue_inv_def queue_contents_def queue_cap_def sizeof_hsm_event_def)
  have "0 < queue_size sample_fresh"
    by (simp add: sample_fresh_def osa_worker_pool_init_def Let_def osa_mutex_create_def osa_sem_create_def
        c_consts SEM_VALUE_MAX_def)
  with q show "exw_start 1 sample_exw"
    using sample_fresh_ok by (simp add: exw_start_def Let_def sample_exw_def sample_wex_def slot_free_def)
qed

lemma sample_exw_posted:
  obtains S where "exw_reachable 1 9 sample_exw S" "ew_events S = [sig_event SIG_WORK_START]" "\<not> ew_lost S"
    "ew_ws S = ew_ws sample_exw"
proof -
  let ?now = "\<lparr>tv_sec = 0, tv_nsec = 0\<rparr>"
  have "length (hsm_pending (ew_ex sample_exw)) < hsm_queue_cap (ew_ex sample_exw)"
    by (simp add: sample_exw_ok)
  from post_now_room [OF sample_exw_ok(2) this, of "\<lambda>_. 0" "sig_event SIG_WORK_START" ?now]
  obtain q where q: "post_now (\<lambda>_. 0) (sig_event SIG_WORK_START) ?now (Some (ew_ex sample_exw)) = (0, Some ((ew_ex sample_exw)\<lparr>msg_q := Some q\<rparr>))"
    "hsm_pending ((ew_ex sample_exw)\<lparr>msg_q := Some q\<rparr>) = [event_bytes (\<lambda>_. 0) (sig_event SIG_WORK_START)]"
    by (auto simp: sample_exw_ok)
  let ?S = "sample_exw\<lparr>ew_ex := (ew_ex sample_exw)\<lparr>msg_q := Some q\<rparr>\<rparr>"
  have "exw_reachable 1 9 sample_exw ?S"
    by (rule e_post [OF e_refl _ q(1)]) simp
  moreover have "ew_events ?S = [sig_event SIG_WORK_START]"
    using q(2) bytes_event_bytes [of "sig_event SIG_WORK_START"]
    by (simp add: ew_events_def sig_event_def valid_event_def c_int_def c_consts)
  ultimately show ?thesis
    by (intro that [of ?S]) (simp_all add: sample_exw_def)
qed



end
