(* ===== verification/Ranked_Steps.thy ===== *)
theory Ranked_Steps
  imports Main
begin

text \<open>
  Systems whose runs end: a step relation, an invariant that every step keeps, and a rank that every
  step lowers. The theories of the programs interpret the locale on their step relations and take from it that a run is no
  longer than the rank of its first state, and that it can be continued until nothing moves.
\<close>

locale ranked_steps =
  fixes step :: "'s \<Rightarrow> 's \<Rightarrow> bool"
    and inv :: "'s \<Rightarrow> bool"
    and rank :: "'s \<Rightarrow> nat"
  assumes step_inv: "inv S \<Longrightarrow> step S S' \<Longrightarrow> inv S'"
    and step_rank: "inv S \<Longrightarrow> step S S' \<Longrightarrow> rank S' < rank S"
begin

lemma run_bound:
  assumes "(step ^^ n) S S'" and "inv S"
  shows "n + rank S' \<le> rank S \<and> inv S'"
  using assms
proof (induction n arbitrary: S')
  case (Suc n)
  then obtain T where "(step ^^ n) S T" "step T S'"
    by auto
  with Suc show ?case
    using step_inv [of T S'] step_rank [of T S'] by fastforce
qed simp

lemma comes_to_rest:
  assumes "inv S"
  shows "\<exists>S'. step\<^sup>*\<^sup>* S S' \<and> inv S' \<and> (\<nexists>T. step S' T)"
  using assms
proof (induction "rank S" arbitrary: S rule: less_induct)
  case less
  show ?case
  proof (cases "\<exists>T. step S T")
    case True
    then obtain T where T: "step S T" by blast
    from less(1) [OF step_rank [OF less(2) T] step_inv [OF less(2) T]] T show ?thesis
      by (meson converse_rtranclp_into_rtranclp)
  next
    case False
    with less(2) show ?thesis by blast
  qed
qed

end

end
