(* ===== verification/Worker_Rest.thy ===== *)
theory Worker_Rest
  imports Worker_System Ranked_Steps
begin

text \<open>
  The worker example comes to rest. Every step of the dispatcher or a worker lowers a measure of the work
  left, so a run without further posts ends; while there is work a step is possible, so at the end the
  machine is idle and nothing is under way.
\<close>

section \<open>The measure\<close>

definition event_weight :: "hsm_event \<Rightarrow> nat" where
  "event_weight e = (if e = sig_event SIG_WORK_START then 6 else 1)"

text \<open>The work left: events to handle, jobs to run, tokens to take, and how far every worker is.\<close>

definition exw_measure :: "nat \<Rightarrow> exw_sys \<Rightarrow> nat" where
  "exw_measure N S =
    sum_list (map event_weight (ew_events S)) + 3 * length (jq_contents (ew_ws S)) + 2 * tokens (ew_ws S) +
    pc_sum N pc_weight (ew_pc S)"

lemma worker_bound: "pool_ok N S \<Longrightarrow> ew_pc S t \<noteq> W_exit \<Longrightarrow> t < N"
  using pool_okD(1) [of N S] by (auto simp: inv_queue_def not_less [symmetric])

lemma take_measure:
  assumes "pool_ok N S" and "ew_pc S t = W_wait"
    and "osa_sem_wait (work_sem_of (ew_ws S)) (-1) clock = Return (0, sem)"
  shows "exw_measure N (set_ws (upd_pool (\<lambda>p. p\<lparr>wp_work_sem := sem\<rparr>) (ew_ws S)) (S\<lparr>ew_pc := (ew_pc S)(t := W_woken)\<rparr>)) <
    exw_measure N S" (is "exw_measure N ?S < _")
proof -
  have "pc_sum N pc_weight ((ew_pc S)(t := W_woken)) = pc_sum N pc_weight (ew_pc S) + 1"
    using pc_sum_move [OF worker_bound [OF assms(1)], of t pc_weight "ew_pc S" W_woken] assms(2) by simp
  moreover have "Suc (tokens (ew_ws ?S)) = tokens (ew_ws S)"
    using take_tokens [OF assms(3)] by simp
  moreover have "jq_contents (ew_ws ?S) = jq_contents (ew_ws S)"
    using rep_contents [OF sem_rep [OF pool_okD(1) [OF assms(1)]], of sem] by simp
  moreover have "ew_events ?S = ew_events S"
    by (simp add: ew_events_def hsm_pending_def)
  ultimately show ?thesis by (simp add: exw_measure_def)
qed

lemma fetch_measure:
  assumes "pool_ok N S" and "ew_pc S t = W_woken" and "worker_fetch t (ew_ws S) = Return (f, ws)"
  shows "exw_measure N (set_ws ws (S\<lparr>ew_pc := (ew_pc S)(t := after_fetch f)\<rparr>)) < exw_measure N S"
    (is "exw_measure N ?S < _")
proof -
  note eff = fetch_effect [OF pool_okD(3,4) [OF assms(1)] assms(3)]
  have sum: "pc_sum N pc_weight ((ew_pc S)(t := after_fetch f)) + 1 = pc_sum N pc_weight (ew_pc S) + pc_weight (after_fetch f)"
    using pc_sum_move [OF worker_bound [OF assms(1)], of t pc_weight "ew_pc S" "after_fetch f"] assms(2) by simp
  have "3 * length (jq_contents ws) + pc_weight (after_fetch f) \<le> 3 * length (jq_contents (ew_ws S))"
    using eff pool_okD(5) [OF assms(1)] by (auto split: list.splits dest: rep_contents)
  moreover have "tokens ws = tokens (ew_ws S)"
    using eff by (simp add: tokens_def)
  moreover have "ew_events ?S = ew_events S"
    by (simp add: ew_events_def hsm_pending_def)
  ultimately show ?thesis
    using sum by (simp add: exw_measure_def)
qed

lemma exec_measure:
  assumes "pool_ok N S" and "ew_pc S t = W_run j" and "simulate_heavy_computation cancelled (ew_ex S) = (ret, ex)"
  shows "exw_measure N (set_ws (job_executed j ret (ew_ws S)) (S\<lparr>ew_ex := ex, ew_pc := (ew_pc S)(t := W_return j)\<rparr>)) <
    exw_measure N S" (is "exw_measure N ?S < _")
proof -
  have "pc_sum N pc_weight ((ew_pc S)(t := W_return j)) + 3 = pc_sum N pc_weight (ew_pc S) + 2"
    using pc_sum_move [OF worker_bound [OF assms(1)], of t pc_weight "ew_pc S" "W_return j"] assms(2) by simp
  moreover have "jq_contents (ew_ws ?S) = jq_contents (ew_ws S)"
    using rep_contents [OF exec_rep [OF pool_okD(1) [OF assms(1)]], of t j ret] assms(2) by simp
  moreover have "ew_events ?S = ew_events S" "tokens (ew_ws ?S) = tokens (ew_ws S)"
    using heavy_keeps [OF assms(3)] by (auto simp: ew_events_def hsm_pending_def tokens_def)
  ultimately show ?thesis by (simp add: exw_measure_def)
qed

lemma complete_measure:
  assumes inv: "exw_inv N self S" and self: "self \<noteq> NULL" and pc: "ew_pc S t = W_return j"
    and c: "worker_complete t example_cb pad now j (others(self := osa_hsm_active.truncate (ew_ex S))) (ew_ws S) =
      Return (hsms, ws)"
  shows "exw_measure N (set_ws ws (S\<lparr>
      ew_ex := (job_completion_callback (job_result (jobs (ws_store ws) j)) (ew_ex S))\<lparr>msg_q := msg_q (hsms self)\<rparr>,
      ew_pc := (ew_pc S)(t := W_wait), ew_lost := (ew_lost S \<or> \<not> queue_room (ew_ex S))\<rparr>)) < exw_measure N S"
    (is "exw_measure N ?S < _")
proof -
  have ok: "pool_ok N S"
    using inv by (simp add: exw_inv_def)
  note rep = complete_report [OF inv self pc c]
  have frame: "p \<in> set (jq_contents (ew_ws S)) \<Longrightarrow> jobs (ws_store ws) p = jobs (ws_store (ew_ws S)) p" for p
    using inv_queue_busy(2) [OF pool_okD(1) [OF ok], of t j] pc rep(5) [of p] by auto
  note eff = complete_effect [OF pool_okD(3,4) [OF ok] c frame]
  have "pc_sum N pc_weight ((ew_pc S)(t := W_wait)) + 2 = pc_sum N pc_weight (ew_pc S)"
    using pc_sum_move [OF worker_bound [OF ok], of t pc_weight "ew_pc S" W_wait] pc by simp
  moreover have "jq_contents ws = jq_contents (ew_ws S)" "tokens ws = tokens (ew_ws S)"
    using eff rep_contents by (auto simp: tokens_def)
  moreover have "ew_events ?S = ew_events S @ (if queue_room (ew_ex S) then [done_event j] else [])"
    using rep(4) by (simp add: ew_events_def job_completion_callback_def hsm_pending_def)
  ultimately show ?thesis
    by (simp add: exw_measure_def event_weight_def)
qed

lemma turn_measure:
  assumes "exw_inv N self S" and "run_iter wex_states (wex_code d self) 3 now (ew_ex S) = Return (x, Some ex)"
  shows "exw_measure N (S\<lparr>ew_ex := ex\<rparr>) < exw_measure N S"
  using assms
proof (cases rule: turn_cases)
  case (ignored e es)
  obtain q r where "ex = (ew_ex S)\<lparr>msg_q := q, hsm_error := r\<rparr>"
    using ignored(6) by blast
  then have "ex_ws ex = ew_ws S" by simp
  moreover have "ew_events (S\<lparr>ew_ex := ex\<rparr>) = es"
    using ignored(2) by (simp add: ew_events_def)
  ultimately show ?thesis
    using ignored(1) by (simp add: exw_measure_def event_weight_def)
next
  case (started es)
  note s = started_inv [OF assms(1) started]
  have "ew_events (S\<lparr>ew_ex := ex\<rparr>) = es"
    using started(2) by (simp add: ew_events_def)
  moreover have "tokens (ex_ws ex) \<le> Suc (tokens (ew_ws S))"
    using s(3) by (auto simp: tokens_def osa_sem_post_def split: option.splits)
  moreover have "jq_contents (ew_ws S) = []"
    using idle_unused(1) [of self S] assms(1) started(4) by (simp add: exw_inv_def)
  ultimately show ?thesis
    using started(1) s(2) by (simp add: exw_measure_def event_weight_def)
next
  case (reported es q)
  note r = reported_inv [OF assms(1) reported]
  have "ew_events (S\<lparr>ew_ex := ex\<rparr>) = es"
    using reported(2) by (simp add: ew_events_def)
  then show ?thesis
    using reported(1) r(2,3) by (simp add: exw_measure_def event_weight_def tokens_def)
qed

lemma exw_step_measure:
  assumes "exw_step N self S S'" and "exw_inv N self S" and "self \<noteq> NULL"
  shows "exw_measure N S' < exw_measure N S"
  using assms
proof (induction rule: exw_step.induct)
  case (e_turn d now S x ex)
  then show ?case by (blast intro: turn_measure)
next
  case (e_take S t clock sem)
  then show ?case by (intro take_measure) (simp_all add: exw_inv_def)
next
  case (e_fetch S t f ws)
  then show ?case by (intro fetch_measure) (simp_all add: exw_inv_def)
next
  case (e_exec S t j cancelled ret ex)
  then show ?case by (intro exec_measure) (simp_all add: exw_inv_def)
next
  case (e_complete S t j pad now others hsms ws)
  then show ?case by (intro complete_measure)
qed

section \<open>At rest\<close>

text \<open>While there is work the system has a step: an event can be dispatched, and no worker is stuck.\<close>

lemma dispatch_total:
  assumes inv: "exw_inv N self S" and ev: "ew_events S = e # es"
  shows "\<exists>r ex. STATE_DISPATCH wex_states (hsm_call (wex_code d self) 3) (hsm_current (ew_ex S)) e
    ((ew_ex S)\<lparr>msg_q := q\<rparr>) = Some (r, ex)"
proof -
  let ?ex = "(ew_ex S)\<lparr>msg_q := q\<rparr>"
  have ok: "pool_ok N S" "events_ok S" "job_ok self S"
    using inv by (simp_all add: exw_inv_def)
  consider "ew_waiting S" "e = sig_event SIG_WORK_START" | "ew_waiting S" "e = sig_event HSM_SIG_PERIOD"
    | "ew_waiting S" "e = done_event (ew_job S)" | "hsm_current (ew_ex S) = state_idle" "e = sig_event HSM_SIG_PERIOD"
    | "hsm_current (ew_ex S) = state_idle" "e = sig_event SIG_WORK_START"
    using ok(2) ev unfolding events_ok_def by auto
  then show ?thesis
  proof cases
    case 3
    then show ?thesis
      using complete_dispatch [of ?ex e d self 0] by (simp add: numeral_3_eq_3)
  next
    case 5
    have "job_queue_rep (ex_ws ?ex) []"
      using idle_unused(1) [OF ok(3)] 5(1) pool_okD(4) [OF ok(1)] by simp
    then obtain ex' where "STATE_DISPATCH wex_states (hsm_call (wex_code d self) (Suc (Suc (Suc 0)))) state_idle
        (sig_event SIG_WORK_START) ?ex = Some (0, ex')"
      using start_dispatch [of ?ex "[]" d self 0] 5(1) pool_okD(3,7) [OF ok(1)] by auto
    with 5 show ?thesis by (simp add: numeral_3_eq_3)
  qed (simp_all add: dispatch_ignored)
qed

lemma turn_enabled:
  assumes inv: "exw_inv N self S" and "ew_events S \<noteq> []"
  shows "\<exists>S'. exw_step N self S S'"
proof -
  obtain m ms where ms: "hsm_pending (ew_ex S) = m # ms"
    using assms(2) by (auto simp: ew_events_def neq_Nil_conv)
  have run: "hsm_running (ew_ex S)"
    using inv by (simp add: exw_inv_def events_ok_def)
  fix d now
  obtain q where q: "run_iter wex_states (wex_code d self) 3 now (ew_ex S) =
      Return (Some (hsm_current (ew_ex S), bytes_event m),
        map_option snd (STATE_DISPATCH wex_states (hsm_call (wex_code d self) 3) (hsm_current (ew_ex S)) (bytes_event m)
          ((ew_ex S)\<lparr>msg_q := Some q\<rparr>)))"
    by (rule run_iter_dispatch [OF run ms])
  have "ew_events S = bytes_event m # map bytes_event ms"
    using ms by (simp add: ew_events_def)
  from dispatch_total [OF inv this, of d "Some q"] obtain r ex where
    "STATE_DISPATCH wex_states (hsm_call (wex_code d self) 3) (hsm_current (ew_ex S)) (bytes_event m)
      ((ew_ex S)\<lparr>msg_q := Some q\<rparr>) = Some (r, ex)"
    by blast
  with q have "run_iter wex_states (wex_code d self) 3 now (ew_ex S) = Return (Some (hsm_current (ew_ex S), bytes_event m), Some ex)"
    by simp
  from e_turn [OF this] show ?thesis by blast
qed

lemma worker_enabled:
  assumes inv: "exw_inv N self S" and t: "t < N"
    and work: "ew_pc S t \<noteq> W_wait \<or> jq_contents (ew_ws S) \<noteq> [] \<and> woken_count (ew_pc S) = 0"
  shows "\<exists>S'. exw_step N self S S'"
proof -
  have ok: "pool_ok N S"
    using inv by (simp add: exw_inv_def)
  fix clock :: "int + timespec" and cancelled pad now others
  show ?thesis
  proof (cases "ew_pc S t")
    case W_wait
    then have "jq_contents (ew_ws S) \<noteq> []" "woken_count (ew_pc S) = 0"
      using work by simp_all
    then obtain sem where "osa_sem_wait (work_sem_of (ew_ws S)) (-1) clock = Return (0, sem)"
      using take_returns [OF pool_okD(2) [OF ok], of clock] pool_okD(5) [OF ok] by auto
    from e_take [OF W_wait this] show ?thesis by blast
  next
    case W_woken
    obtain f ws where "worker_fetch t (ew_ws S) = Return (f, ws)"
      by (rule fetch_returns [OF pool_okD(3) [OF ok]])
    from e_fetch [OF W_woken this] show ?thesis by blast
  next
    case (W_run j)
    obtain ret ex where "simulate_heavy_computation cancelled (ew_ex S) = (ret, ex)"
      by (cases "simulate_heavy_computation cancelled (ew_ex S)") blast
    from e_exec [OF W_run this] show ?thesis by blast
  next
    case (W_return j)
    obtain hsms ws where "worker_complete t example_cb pad now j (others(self := osa_hsm_active.truncate (ew_ex S))) (ew_ws S) =
        Return (hsms, ws)"
      using complete_example [OF pool_okD(3) [OF ok], of t pad now j "others(self := osa_hsm_active.truncate (ew_ex S))"]
      by blast
    from e_complete [OF W_return this] show ?thesis by blast
  next
    case W_exit
    then show ?thesis
      using pool_okD(8) [OF ok t] by blast
  qed
qed

lemma rest_unused:
  assumes inv: "exw_inv N self S" and "0 < N" and rest: "\<nexists>S'. exw_step N self S S'"
  shows "ew_events S = []" "jq_contents (ew_ws S) = []" "busy_with (ew_pc S t) = None"
proof -
  have ok: "pool_ok N S"
    using inv by (simp add: exw_inv_def)
  have w: "ew_pc S u = W_wait" if "u < N" for u
    using worker_enabled [OF inv that] rest by blast
  have pc: "ew_pc S u = (if u < N then W_wait else W_exit)" for u
    using w pool_okD(1) [OF ok] by (simp add: inv_queue_def)
  then have "woken_count (ew_pc S) = 0"
    by (simp add: woken_count_def)
  then show "jq_contents (ew_ws S) = []"
    using worker_enabled [OF inv \<open>0 < N\<close>] rest by blast
  show "ew_events S = []"
    using turn_enabled [OF inv] rest by blast
  show "busy_with (ew_pc S t) = None"
    by (simp add: pc)
qed

section \<open>Properties\<close>

interpretation exw: ranked_steps "exw_step N self" "\<lambda>S. exw_inv N self S \<and> self \<noteq> NULL" "exw_measure N" for N self
  by unfold_locales (auto intro: exw_step_inv exw_step_measure)

lemma measure_bound:
  "exw_measure N S \<le> 6 * length (ew_events S) + 3 * length (jq_contents (ew_ws S)) + 2 * tokens (ew_ws S) + 3 * N"
proof -
  have "sum_list (map event_weight es) \<le> 6 * length es" for es
    by (induction es) (simp_all add: event_weight_def)
  moreover have "pc_sum N pc_weight (ew_pc S) \<le> N * 3"
    by (rule pc_sum_bound [OF pc_weight_le])
  ultimately show ?thesis
    unfolding exw_measure_def by (simp add: add_mono)
qed





end
