(* ===== verification/Pool_Start.thy ===== *)
theory Pool_Start
  imports Worker_Steps
begin

text \<open>
  Starting a worker pool and joining its threads, as the programs do that create one: what the operating
  system answers to \<^verbatim>\<open>osa_worker_pool_init\<close> and \<^verbatim>\<open>osa_worker_pool_start\<close>, what the programs rely on, and
  that the handles of the threads of a started pool are live and distinct, so that the joins of
  \<^verbatim>\<open>osa_worker_pool_stop\<close> return once the threads have ended. After a start that failed a handle is unset, and the
  joins are undefined.
\<close>

section \<open>What the operating system answers\<close>

text \<open>The outcomes of the allocations and creations, the addresses \<^verbatim>\<open>calloc\<close> returns for the handles, \<^verbatim>\<open>pthread_create\<close>.\<close>

record pool_os =
  os_dup :: bool
  os_lock :: bool
  os_lock_init :: int
  os_work_sem :: bool
  os_complete_sem :: bool
  os_array :: bool
  os_handles :: "nat \<Rightarrow> ptr"
  os_create :: "nat \<Rightarrow> thread_attr \<Rightarrow> ptr \<Rightarrow> ptr \<Rightarrow> int + nat"

text \<open>
  What the programs rely on: \<^verbatim>\<open>calloc\<close> hands out distinct addresses that are not in use, and an error
  number of \<^verbatim>\<open>pthread_create\<close> is not 0.
\<close>

definition os_contract :: "'a pool_os_scheme \<Rightarrow> thread_sys \<Rightarrow> bool" where
  "os_contract os sys \<longleftrightarrow>
    (\<forall>m n. os_handles os m = os_handles os n \<longrightarrow> os_handles os m = NULL \<or> m = n) \<and>
    (\<forall>m. th_handles sys (os_handles os m) = None) \<and> (\<forall>n a f x. os_create os n a f x \<noteq> Inl 0)"

section \<open>Live handles\<close>

definition live :: "thread_sys \<Rightarrow> ptr \<Rightarrow> bool" where
  "live sys h \<longleftrightarrow> (\<exists>t. th_handles sys h = Some t \<and> \<not> t_detached t)"

lemma create_live:
  assumes "osa_thread_create sys True (Some param) fn arg h pc = (0, t, sys')"
    and "pc (thread_attrs param) fn arg \<noteq> Inl 0"
  shows "live sys' h" "\<And>h'. live sys h' \<Longrightarrow> live sys' h'" "h \<noteq> NULL"
  using assms by (auto simp: osa_thread_create_def live_def c_consts split: if_splits sum.splits)

lemma create_keeps:
  assumes "osa_thread_create sys True (Some param) fn arg h pc = (r, t, sys')"
  shows "live sys h' \<Longrightarrow> live sys' h'" "t = Some h \<Longrightarrow> live sys' h" "t = None \<or> t = Some h"
  using assms by (auto simp: osa_thread_create_def live_def split: if_splits sum.splits)

lemma start_workers_live:
  assumes "start_workers param fn self ct pc i k ws sys = (0, ws', sys')" and "\<And>n a f x. pc n a f x \<noteq> Inl 0"
  shows "(\<forall>h. live sys h \<longrightarrow> live sys' h) \<and> (\<forall>m. i \<le> m \<and> m < i + k \<longrightarrow> live sys' (ct m))"
  using assms(1)
proof (induction k arbitrary: i ws sys)
  case (Suc k)
  obtain ret th sys1 where c: "osa_thread_create sys True (Some param) fn self (ct i) (pc i) = (ret, th, sys1)"
    by (cases "osa_thread_create sys True (Some param) fn self (ct i) (pc i)")
  have ret: "ret = 0" and run: "start_workers param fn self ct pc (Suc i) k (ws[i := th]) sys1 = (0, ws', sys')"
    using Suc.prems c by (auto split: if_splits)
  note new = create_live [OF c [unfolded ret] assms(2)]
  have IH: "(\<forall>h. live sys1 h \<longrightarrow> live sys' h) \<and> (\<forall>m. Suc i \<le> m \<and> m < Suc i + k \<longrightarrow> live sys' (ct m))"
    by (rule Suc.IH [OF run])
  have "live sys' (ct m)" if "i \<le> m" "m < i + Suc k" for m
    using that IH new(1) by (cases "m = i") auto
  then show ?case
    using IH new(2) by blast
qed auto

text \<open>Every thread that has ended can be joined.\<close>

lemma join_prefix:
  assumes "list_all (\<lambda>h. h = NULL \<or> live sys h) hs" and "distinct (filter (\<lambda>h. h \<noteq> NULL) hs)" and "th_terminated sys = (\<lambda>_. True)"
  shows "\<exists>sys'. join_all (map Some hs @ xs) sys = join_all xs sys'"
  using assms
proof (induction hs arbitrary: sys)
  case (Cons h hs)
  show ?case
  proof (cases "h = NULL")
    case True
    then show ?thesis
      using Cons by (simp add: osa_thread_join_def)
  next
    case False
    then obtain t where t: "th_handles sys h = Some t" "\<not> t_detached t"
      using Cons.prems(1) by (auto simp: live_def)
    let ?sys = "sys\<lparr>th_handles := (th_handles sys)(h := None)\<rparr>"
    have "list_all (\<lambda>x. x = NULL \<or> live ?sys x) hs"
      using Cons.prems(1,2) False by (auto simp: list_all_iff live_def)
    then have "\<exists>sys'. join_all (map Some hs @ xs) ?sys = join_all xs sys'"
      using Cons.prems(2,3) False by (intro Cons.IH) simp_all
    then show ?thesis
      using t False Cons.prems(3) by (simp add: osa_thread_join_def)
  qed
qed auto

text \<open>The handles that the stop will join are live and distinct.\<close>

definition joinable :: "osa_worker_pool \<Rightarrow> thread_sys \<Rightarrow> bool" where
  "joinable pool sys \<longleftrightarrow>
    (\<exists>hs. wp_workers pool = Some (map Some hs) \<and> length hs = unat (num_workers pool) \<and>
      list_all (\<lambda>h. h = NULL \<or> live sys h) (hs @ [wp_completion_thread pool]) \<and>
      distinct (filter (\<lambda>h. h \<noteq> NULL) (hs @ [wp_completion_thread pool])))"

lemma distinct_handles:
  assumes "\<And>m n. ct m = ct n \<Longrightarrow> ct m = NULL \<or> m = n"
  shows "distinct (filter (\<lambda>h. h \<noteq> NULL) (map ct [0..<n]))"
proof -
  have "inj_on ct {x. x < n \<and> 0 < ct x}"
    using assms by (fastforce intro!: inj_onI)
  then show ?thesis
    by (simp add: filter_map distinct_map comp_def)
qed

lemma start_joinable:
  assumes start: "osa_worker_pool_start True wfn cfn self (os_handles os) (os_create os) pool sys0 = (0, pool', sys)"
    and contract: "os_contract os sys0" and workers: "wp_workers pool = Some (replicate (unat (num_workers pool)) None)"
    and no: "wp_completion_thread pool = NULL"
  shows "joinable pool' sys" "\<exists>hs h. pool' = pool\<lparr>wp_workers := hs, wp_completion_thread := h\<rparr>"
proof -
  let ?n = "unat (num_workers pool)" and ?ct = "os_handles os"
  have pc: "os_create os n a f x \<noteq> Inl 0" for n a f x
    using contract by (simp add: os_contract_def)
  obtain param ws sys1 ret h where
    s: "start_workers param wfn self ?ct (os_create os) 0 ?n (replicate ?n None) sys0 = (0, ws, sys1)"
    and c: "osa_thread_create sys1 True (Some param) cfn self (?ct ?n) (os_create os ?n) = (ret, h, sys)"
    and p: "pool' = (case h of Some h \<Rightarrow> pool\<lparr>wp_workers := Some ws, wp_completion_thread := h\<rparr> | None \<Rightarrow> pool\<lparr>wp_workers := Some ws\<rparr>)"
    using start workers by (auto simp: osa_worker_pool_start_def Let_def split: prod.splits if_splits option.splits)
  have ws: "ws = map Some (map ?ct [0..<?n])"
    using start_workers_ok [OF s _ pc] by (intro nth_equalityI) simp_all
  have live: "live sys1 (?ct m)" if "m < ?n" for m
    using start_workers_live [OF s pc] that by simp
  have h: "h = None \<or> h = Some (?ct ?n)" "h = Some (?ct ?n) \<Longrightarrow> live sys (?ct ?n)" "live sys1 x \<Longrightarrow> live sys x" for x
    using create_keeps [OF c] by blast+
  have d: "distinct (filter (\<lambda>h. h \<noteq> NULL) (map ?ct [0..<m]))" for m
    using contract by (intro distinct_handles) (auto simp: os_contract_def)
  have "list_all (\<lambda>h. h = NULL \<or> live sys h) (map ?ct [0..<?n])"
    using live h(3) by (auto simp: list_all_iff)
  then show "joinable pool' sys"
    using h(1,2) p ws d [of ?n] d [of "Suc ?n"] no
    by (cases h) (auto simp: joinable_def intro!: exI [of _ "map ?ct [0..<?n]"])
  show "\<exists>hs h. pool' = pool\<lparr>wp_workers := hs, wp_completion_thread := h\<rparr>"
  proof (cases h)
    case None
    then show ?thesis
      using p by (intro exI [of _ "Some ws"] exI [of _ "wp_completion_thread pool"]) simp
  next
    case (Some x)
    then show ?thesis
      using p by (intro exI [of _ "Some ws"] exI [of _ x]) simp
  qed
qed

lemma joinable_threads:
  "pool_threads ws = pool_threads ws' \<Longrightarrow> joinable (ws_pool ws) sys = joinable (ws_pool ws') sys"
  by (simp add: pool_threads_def joinable_def)

lemma join_returns:
  assumes "joinable (ws_pool ws) sys"
  shows "\<exists>ws' sys'. stop_join ws (sys\<lparr>th_terminated := (\<lambda>_. True)\<rparr>) = Some (Return (ws', sys'))"
proof -
  obtain hs where hs: "wp_workers (ws_pool ws) = Some (map Some hs)" "length hs = unat (num_workers (ws_pool ws))"
    "list_all (\<lambda>h. h = NULL \<or> live sys h) (hs @ [wp_completion_thread (ws_pool ws)])"
    "distinct (filter (\<lambda>h. h \<noteq> NULL) (hs @ [wp_completion_thread (ws_pool ws)]))"
    using assms unfolding joinable_def by blast
  let ?sys = "sys\<lparr>th_terminated := (\<lambda>_. True)\<rparr>"
  have "list_all (\<lambda>h. h = NULL \<or> live ?sys h) (hs @ [wp_completion_thread (ws_pool ws)])"
    using hs(3) by (simp add: live_def)
  from join_prefix [OF this hs(4), of "[]"]
  obtain sys' where "join_all (map Some (hs @ [wp_completion_thread (ws_pool ws)])) ?sys = Some (Return sys')"
    by auto
  then show ?thesis
    using hs(1,2) by (simp add: stop_join_def Let_def)
qed

text \<open>A pool that was initialised and started is fresh, and its threads can be joined.\<close>

lemma started_pool:
  assumes init: "osa_worker_pool_init True pool0 name n q (os_dup os) (os_lock os) (os_lock_init os) (os_work_sem os)
      (os_complete_sem os) (os_array os) = (0, p)"
    and start: "osa_worker_pool_start True wfn cfn self (os_handles os) (os_create os) p sys0 = (0, pool, sys)"
    and contract: "os_contract os sys0" and q: "q \<noteq> 0" "unat q \<le> SEM_VALUE_MAX"
  shows "joinable pool sys" "fresh_pool pool" "num_workers pool = (if n = 0 then 4 else if n > 16 then 16 else n)"
    "queue_size pool = q" "map_option sem_value (wp_complete_sem pool) = Some 0"
proof -
  note spec = osa_worker_pool_init_spec [OF init, of 1 1 1 "\<lambda>_. 1" "\<lambda>_ _ _ _. Inr 0" sys0]
  have p: "num_workers p = (if n = 0 then 4 else if n > 16 then 16 else n)" "queue_size p = q"
    "map_option sem_value (wp_complete_sem p) = Some 0" "wp_workers p = Some (replicate (unat (num_workers p)) None)"
    using spec q(1) by simp_all
  have no: "wp_completion_thread p = NULL"
    using init by (auto simp: osa_worker_pool_init_def Let_def osa_mutex_create_def osa_sem_create_def zero_pool_def
        c_consts split: if_splits)
  note j = start_joinable [OF start contract p(4) no]
  show "joinable pool sys"
    by (rule j(1))
  obtain hs h where pool: "pool = p\<lparr>wp_workers := hs, wp_completion_thread := h\<rparr>"
    using j(2) by blast
  have "osa_worker_pool_init True pool0 name n q (os_dup os) True 0 True True True = (0, p)"
    using spec init by simp
  then show "fresh_pool pool"
    unfolding pool by (rule fresh_poolI(1)) (simp add: p(2) q(2))
  show "num_workers pool = (if n = 0 then 4 else if n > 16 then 16 else n)" "queue_size pool = q"
    "map_option sem_value (wp_complete_sem pool) = Some 0"
    using p by (simp_all add: pool)
qed

section \<open>A start that failed\<close>

text \<open>The workers before the failing one are started; the handle of the failing one is not written.\<close>

lemma start_workers_failed:
  assumes "start_workers param fn self ct pc i k ws sys = (r, ws', sys')" and "r \<noteq> 0" and "\<And>n a f x. pc n a f x \<noteq> Inl 0"
    and "i + k \<le> length ws"
  shows "\<exists>m. i \<le> m \<and> m < i + k \<and> length ws' = length ws \<and> (\<forall>j < i. ws' ! j = ws ! j) \<and>
    (\<forall>j. i \<le> j \<and> j < m \<longrightarrow> ws' ! j = Some (ct j) \<and> live sys' (ct j)) \<and> ws' ! m = ws ! m \<and> (\<forall>h. live sys h \<longrightarrow> live sys' h)"
  using assms(1,2,4)
proof (induction k arbitrary: i ws sys)
  case (Suc k)
  obtain ret th sys1 where c: "osa_thread_create sys True (Some param) fn self (ct i) (pc i) = (ret, th, sys1)"
    by (cases "osa_thread_create sys True (Some param) fn self (ct i) (pc i)")
  note old = create_keeps [OF c]
  show ?case
  proof (cases "ret = 0")
    case False
    then have "ws' = ws" "sys' = sys1"
      using Suc.prems(1) c by simp_all
    then show ?thesis
      using old(1) by (intro exI [of _ i]) auto
  next
    case True
    then have run: "start_workers param fn self ct pc (Suc i) k (ws[i := th]) sys1 = (r, ws', sys')"
      using Suc.prems(1) c by simp
    have th: "th = Some (ct i)"
      using c True assms(3) [of i] by (auto simp: osa_thread_create_def c_consts split: if_splits sum.splits)
    obtain m where m: "Suc i \<le> m" "m < Suc i + k" "length ws' = length ws" "\<forall>j < Suc i. ws' ! j = ws[i := th] ! j"
      "\<forall>j. Suc i \<le> j \<and> j < m \<longrightarrow> ws' ! j = Some (ct j) \<and> live sys' (ct j)" "ws' ! m = ws[i := th] ! m"
      "\<forall>h. live sys1 h \<longrightarrow> live sys' h"
      using Suc.IH [OF run Suc.prems(2)] Suc.prems(3) by auto
    have "ws' ! j = Some (ct j) \<and> live sys' (ct j)" if "i \<le> j" "j < m" for j
      using that m(4,5,7) th old(2) Suc.prems(3) by (cases "j = i") auto
    then show ?thesis
      using m old(1) by (intro exI [of _ m]) auto
  qed
qed simp

lemma start_failed_join:
  assumes start: "osa_worker_pool_start True wfn cfn self (os_handles os) (os_create os) pool sys0 = (r, pool', sys)" and "r \<noteq> 0"
    and contract: "os_contract os sys0" and workers: "wp_workers pool = Some (replicate (unat (num_workers pool)) None)"
    and ws: "pool_threads ws = pool_threads \<lparr>ws_pool = pool', ws_store = st\<rparr>"
  shows "r = -1" "wp_lock pool' = wp_lock pool" "stop_join ws (sys\<lparr>th_terminated := (\<lambda>_. True)\<rparr>) = None"
proof -
  let ?n = "unat (num_workers pool)" and ?ct = "os_handles os"
  have pc: "os_create os n a f x \<noteq> Inl 0" for n a f x
    using contract by (simp add: os_contract_def)
  obtain param hs x where s: "start_workers param wfn self ?ct (os_create os) 0 ?n (replicate ?n None) sys0 = (x, hs, sys)"
    and x: "x \<noteq> 0" and r: "r = -1" "pool' = pool\<lparr>wp_workers := Some hs\<rparr>"
    using start \<open>r \<noteq> 0\<close> workers by (auto simp: osa_worker_pool_start_def Let_def split: prod.splits if_splits option.splits)
  show "r = -1" "wp_lock pool' = wp_lock pool"
    using r by simp_all
  obtain m where m: "m < ?n" "length hs = ?n" "\<forall>j < m. hs ! j = Some (?ct j) \<and> live sys (?ct j)" "hs ! m = None"
    using start_workers_failed [OF s x pc] by auto
  let ?sys = "sys\<lparr>th_terminated := (\<lambda>_. True)\<rparr>" and ?ys = "drop (Suc m) hs @ [Some (wp_completion_thread pool)]"
  have "take m hs = map Some (map ?ct [0..<m])"
    using m by (intro nth_equalityI) auto
  then have hs: "hs = map Some (map ?ct [0..<m]) @ None # drop (Suc m) hs"
    using id_take_nth_drop [of m hs] m by simp
  have "list_all (\<lambda>h. h = NULL \<or> live ?sys h) (map ?ct [0..<m])"
    using m(3) by (auto simp: list_all_iff live_def)
  moreover have "distinct (filter (\<lambda>h. h \<noteq> NULL) (map ?ct [0..<m]))"
    using contract by (intro distinct_handles) (auto simp: os_contract_def)
  ultimately obtain sys' where "join_all (map Some (map ?ct [0..<m]) @ None # ?ys) ?sys = join_all (None # ?ys) sys'"
    using join_prefix [of ?sys "map ?ct [0..<m]" "None # ?ys"] by auto
  then have "join_all (hs @ [Some (wp_completion_thread pool)]) ?sys = None"
    by (subst hs) simp
  moreover have "wp_workers (ws_pool ws) = Some hs" "num_workers (ws_pool ws) = num_workers pool"
    "wp_completion_thread (ws_pool ws) = wp_completion_thread pool"
    using ws r(2) by (simp_all add: pool_threads_def)
  ultimately show "stop_join ws ?sys = None"
    using m(2) by (simp add: stop_join_def Let_def)
qed

text \<open>The stop of a pool whose lock is free comes to its joins.\<close>

lemma stop_joins:
  assumes "wp_lock (ws_pool ws) = free_lock"
  obtains ws' where "osa_worker_pool_stop t True ws sys = map_option (map_call (\<lambda>(ws2, sys'). (0, ws2, sys'))) (stop_join ws' sys)"
    "pool_threads ws' = pool_threads ws"
proof -
  let ?ws1 = "upd_pool (\<lambda>p. p\<lparr>wp_lock := free_lock, shutdown := True\<rparr>) ws"
  have s: "stop_signal t ws = Return ?ws1"
    using assms by (simp add: stop_signal_def with_lock_def acquire_def release_def osa_mutex_lock_def osa_mutex_unlock_def)
  have "pool_threads ((stop_post ^^ m) x) = pool_threads x" for m x
    by (induction m) (simp_all add: stop_post_def pool_threads_def)
  then show ?thesis
    using s by (intro that [of "(stop_post ^^ unat (num_workers (ws_pool ?ws1))) ?ws1"])
      (simp_all add: osa_worker_pool_stop_def, simp add: pool_threads_def)
qed

end
