(* ===== verification/Worker_Main.thy ===== *)
theory Worker_Main
  imports Worker_System Pool_Start
begin

text \<open>
  The \<^verbatim>\<open>main\<close> function of the worker example, \<^verbatim>\<open>examples/linux/hsm_worker.c\<close>: the set-up of the pool and of the two
  machines with their timers, one round of its loop, the statistics it prints, and the clean-up. The results of \<^verbatim>\<open>example_create\<close> and of
  the timers are dropped, as in the code. The state is the two machines, which share the pool, the threads of the process
  and the timers, on which \<open>timer_create\<close> and \<open>timer_stop\<close> work.

  The lemma: the set-up leads to the start of the system of \<^verbatim>\<open>Worker_System\<close>.
\<close>

section \<open>The program\<close>

record 't main_sys =
  ms_pool :: osa_worker_pool
  g_example1 :: worker_pool_example
  g_example2 :: worker_pool_example
  ms_threads :: thread_sys
  ms_timers :: 't

text \<open>The addresses and the operations of the platform that \<^verbatim>\<open>main\<close> needs.\<close>

record 't main_env =
  me_worker_fn :: ptr
  me_completion_fn :: ptr
  me_pool :: ptr
  me_run_fn :: ptr
  me_example1 :: ptr
  me_example2 :: ptr
  me_tick_fn :: ptr
  me_timer_create :: "'t timer_create_op"
  me_timer_stop :: "'t timer_stop_op"

text \<open>What the system answers: for the pool, and for the threads of the two machines.\<close>

record main_os = pool_os +
  os_example :: "nat \<Rightarrow> ptr"
  os_example_create :: "nat \<Rightarrow> thread_attr \<Rightarrow> ptr \<Rightarrow> ptr \<Rightarrow> int + nat"

text \<open>A call on an object that is not NULL leaves an object.\<close>

definition kept_obj :: "'a \<Rightarrow> 'a option \<Rightarrow> 'a" where
  "kept_obj x y = (case y of None \<Rightarrow> x | Some z \<Rightarrow> z)"

definition set_period :: "'t main_env \<Rightarrow> ptr \<Rightarrow> uint32 \<Rightarrow> worker_pool_example \<Rightarrow> 't \<Rightarrow> (worker_pool_example \<times> 't) option" where
  "set_period env self period ex tm =
    map_option (\<lambda>(_, ex', tm'). (kept_obj ex ex', tm'))
      (osa_hsm_active_period (me_timer_create env) (me_timer_stop env) (me_tick_fn env) self (Some ex) period tm)"

definition create_examples :: "'t main_env \<Rightarrow> main_os \<Rightarrow> 't main_sys \<Rightarrow> 't main_sys" where
  "create_examples env os S =
    (case example_create ''worker1'' (me_run_fn env) (me_example1 env) (os_example os 0) (os_example_create os 0) (g_example1 S)
            (ms_threads S) of
       (_, ex1, sys1) \<Rightarrow>
         (case example_create ''worker2'' (me_run_fn env) (me_example2 env) (os_example os 1) (os_example_create os 1)
                 (g_example2 S) sys1 of
            (_, ex2, sys2) \<Rightarrow>
              S\<lparr>g_example1 := kept_obj (g_example1 S) ex1, g_example2 := kept_obj (g_example2 S) ex2, ms_threads := sys2\<rparr>))"

text \<open>Up to the loop: \<open>Some (Some r, _)\<close> is an early return, \<open>None\<close> is undefined behaviour.\<close>

definition worker_main_setup :: "'t main_env \<Rightarrow> main_os \<Rightarrow> 't main_sys \<Rightarrow> (int option \<times> 't main_sys) option" where
  "worker_main_setup env os S =
    (case osa_worker_pool_init True (ms_pool S) (Some ''main_pool'') 4 64 (os_dup os) (os_lock os) (os_lock_init os)
            (os_work_sem os) (os_complete_sem os) (os_array os) of
       (ret, pool) \<Rightarrow>
         if ret \<noteq> 0 then Some (Some (-1), S\<lparr>ms_pool := pool\<rparr>)
         else (case osa_worker_pool_start True (me_worker_fn env) (me_completion_fn env) (me_pool env) (os_handles os)
                      (os_create os) pool (ms_threads S) of
                 (ret, pool, sys) \<Rightarrow>
                   let S1 = S\<lparr>ms_pool := pool, ms_threads := sys\<rparr>
                   in if ret \<noteq> 0 then Some (Some (-1), S1)
                      else
                        let S2 = create_examples env os S1
                        in (case set_period env (me_example1 env) 1000 (g_example1 S2) (ms_timers S2) of
                              None \<Rightarrow> None
                            | Some (ex1, tm1) \<Rightarrow>
                                (case set_period env (me_example2 env) 1000 (g_example2 S2) tm1 of
                                   None \<Rightarrow> None
                                 | Some (ex2, tm2) \<Rightarrow>
                                     Some (None, S2\<lparr>g_example1 := ex1, g_example2 := ex2, ms_timers := tm2\<rparr>)))))"

text \<open>One round of the loop: a start event for each machine, and the statistics that are printed.\<close>

definition worker_main_round ::
  "(nat \<Rightarrow> byte) \<Rightarrow> timespec \<Rightarrow> timespec \<Rightarrow> 't main_sys \<Rightarrow> 't main_sys" where
  "worker_main_round pad now1 now2 S =
    (let S1 = S\<lparr>g_example1 := kept_obj (g_example1 S) (snd (example_post_event pad SIG_WORK_START now1 (g_example1 S)))\<rparr>
     in S1\<lparr>g_example2 := kept_obj (g_example2 S1) (snd (example_post_event pad SIG_WORK_START now2 (g_example2 S1)))\<rparr>)"

definition print_worker_pool_stats :: "nat \<Rightarrow> worker_state \<Rightarrow> (osa_worker_pool_stats option \<times> worker_state) call" where
  "print_worker_pool_stats t ws =
    map_call (\<lambda>((r, st), ws'). (if r = 0 then st else None, ws')) (osa_worker_pool_get_stats t True True ws)"

text \<open>After the loop: both timers stop, then the pool.\<close>

definition worker_main_cleanup ::
  "'t main_env \<Rightarrow> nat \<Rightarrow> job_store \<Rightarrow> 't main_sys \<Rightarrow> (int \<times> worker_state \<times> thread_sys) call option" where
  "worker_main_cleanup env t st S =
    (case set_period env (me_example1 env) 0 (g_example1 S) (ms_timers S) of
       None \<Rightarrow> None
     | Some (_, tm1) \<Rightarrow>
         (case set_period env (me_example2 env) 0 (g_example2 S) tm1 of
            None \<Rightarrow> None
          | Some (_, tm2) \<Rightarrow> osa_worker_pool_stop t True \<lparr>ws_pool = ms_pool S, ws_store = st\<rparr> (ms_threads S)))"

section \<open>Properties\<close>

text \<open>What a machine has after \<^verbatim>\<open>example_create\<close>, and keeps when its timer is set.\<close>

definition created :: "worker_pool_example \<Rightarrow> worker_pool_example \<Rightarrow> bool" where
  "created ex ex' \<longleftrightarrow>
    hsm_current ex' = state_idle \<and> msg_q_size ex' = 20 \<and> job_count ex' = job_count ex \<and>
    completed_count ex' = completed_count ex \<and> error_count ex' = error_count ex"

lemma example_created:
  "example_create name run_fn self h pc ex sys = (r, ex', sys') \<Longrightarrow> created ex (kept_obj ex ex')"
  by (auto simp: created_def kept_obj_def example_create_def osa_hsm_active_init_def osa_hsm_active_start_def
      EXAMPLE_TASK_MSG_Q_SIZE_def Let_def split: prod.splits if_splits)

lemma period_created:
  assumes "set_period env self period ex tm = Some (ex', tm')" and "created ex0 ex"
  shows "created ex0 ex'"
  using assms by (auto simp: set_period_def osa_hsm_active_period_def created_def kept_obj_def split: if_splits prod.splits option.splits)

lemma dispatcher_ready:
  assumes "created ex0 ex" and "job_count ex0 = 0" "completed_count ex0 = 0" "error_count ex0 = 0"
    and run: "osa_hsm_active_run_init wex_states (wex_code d self) (Suc n) pid cq cb ex = Some (True, ex')"
    and pool: "fresh_pool pool" "num_workers pool = 4" "queue_size pool = 64" and st: "\<not> g_job_pool_initialized st"
  shows "exw_start 4 \<lparr>ew_ex = ex'\<lparr>ex_ws := \<lparr>ws_pool = pool, ws_store = init_job_pool st\<rparr>\<rparr>,
    ew_pc = (\<lambda>t. if t < 4 then W_wait else W_exit), ew_lost = False\<rparr>" (is "exw_start 4 ?S")
    and "hsm_queue_cap ex' = 20"
proof -
  have "hsm_current ex = state_idle"
    using assms(1) by (simp add: created_def)
  then have init: "STATE_INIT wex_states (hsm_call (wex_code d self) (Suc n)) ex = Some (0, ex\<lparr>operation_progress := 0, operation_result := 0\<rparr>)"
    (is "_ = Some (0, ?ex)")
    by (simp add: STATE_INIT_def state_idle_handler_def sig_event_def)
  have ex': "\<exists>q. ex' = ?ex\<lparr>msg_q := q\<rparr>"
    using run init by (auto simp: osa_hsm_active_run_init_def split: prod.splits if_splits)
  have r: "hsm_running ex'" "hsm_pending ex' = []" "hsm_queue_cap ex' = 20" "hsm_current ex' = state_idle"
    using run_init_spec [OF init, of pid cq cb] run assms(1) by (auto simp: created_def)
  then show "hsm_queue_cap ex' = 20" by simp
  have "hsm_running (ew_ex ?S)" "hsm_pending (ew_ex ?S) = []"
    using r by (simp_all add: hsm_running_def hsm_pending_def)
  moreover have "slot_free (init_job_pool st) i" if "i < OSA_JOB_POOL_SIZE" for i
    using that st by (simp add: slot_free_def init_job_pool_jobs)
  ultimately show "exw_start 4 ?S"
    using r(4) pool ex' assms(1-4) by (auto simp: exw_start_def Let_def created_def)
qed

lemma setup_creates:
  assumes "worker_main_setup env os S0 = Some (None, S)" and "os_contract os (ms_threads S0)"
  shows "fresh_pool (ms_pool S)" "num_workers (ms_pool S) = 4" "queue_size (ms_pool S) = 64"
    "created (g_example1 S0) (g_example1 S)" "created (g_example2 S0) (g_example2 S)"
proof -
  obtain p pool sys where i: "osa_worker_pool_init True (ms_pool S0) (Some ''main_pool'') 4 64 (os_dup os) (os_lock os) (os_lock_init os)
        (os_work_sem os) (os_complete_sem os) (os_array os) = (0, p)"
    and s: "osa_worker_pool_start True (me_worker_fn env) (me_completion_fn env) (me_pool env) (os_handles os) (os_create os) p
        (ms_threads S0) = (0, pool, sys)"
    using assms(1) by (auto simp: worker_main_setup_def Let_def split: prod.splits if_splits)
  let ?S2 = "create_examples env os (S0\<lparr>ms_pool := pool, ms_threads := sys\<rparr>)"
  obtain ex1 tm1 ex2 tm2 where t: "set_period env (me_example1 env) 1000 (g_example1 ?S2) (ms_timers ?S2) = Some (ex1, tm1)"
    "set_period env (me_example2 env) 1000 (g_example2 ?S2) tm1 = Some (ex2, tm2)"
    and S: "S = ?S2\<lparr>g_example1 := ex1, g_example2 := ex2, ms_timers := tm2\<rparr>"
    using assms(1) i s by (auto simp: worker_main_setup_def Let_def split: option.splits)
  have c: "created (g_example1 S0) (g_example1 ?S2)" "created (g_example2 S0) (g_example2 ?S2)" "ms_pool ?S2 = pool"
    by (auto simp: create_examples_def split: prod.splits intro: example_created)
  show "created (g_example1 S0) (g_example1 S)" "created (g_example2 S0) (g_example2 S)"
    using period_created [OF t(1) c(1)] period_created [OF t(2) c(2)] by (simp_all add: S)
  note st = started_pool [OF i s assms(2)]
  show "fresh_pool (ms_pool S)" "num_workers (ms_pool S) = 4" "queue_size (ms_pool S) = 64"
    using st(2-4) c(3) by (simp_all add: S SEM_VALUE_MAX_def)
qed


definition sample_main_env :: "timer_sys main_env" where
  "sample_main_env = \<lparr>me_worker_fn = 3, me_completion_fn = 4, me_pool = 3000, me_run_fn = 5, me_example1 = 9, me_example2 = 10,
     me_tick_fn = 6, me_timer_create = (\<lambda>tm. if tm_heap tm 400 = None then linux_timer_create 400 1 tm else linux_timer_create 401 2 tm),
     me_timer_stop = linux_timer_stop\<rparr>"

definition sample_main_os :: main_os where
  "sample_main_os = \<lparr>os_dup = True, os_lock = True, os_lock_init = 0, os_work_sem = True, os_complete_sem = True, os_array = True,
     os_handles = (\<lambda>m. 100 + m), os_create = (\<lambda>n _ _ _. Inr n), os_example = (\<lambda>m. 200 + m), os_example_create = (\<lambda>n _ _ _. Inr (8 + n))\<rparr>"

definition sample_main :: "timer_sys main_sys" where
  "sample_main = \<lparr>ms_pool = zero_pool, g_example1 = sample_wex, g_example2 = sample_wex,
     ms_threads = \<lparr>th_handles = Map.empty, th_terminated = (\<lambda>_. False)\<rparr>,
     ms_timers = \<lparr>tm_heap = Map.empty, tm_kernel = Map.empty\<rparr>\<rparr>"

lemma sample_main_setup: "\<exists>S. worker_main_setup sample_main_env sample_main_os sample_main = Some (None, S)"
proof -
  have four: "start_workers p f a ct pc i 4 ws sys = start_workers p f a ct pc i (Suc (Suc (Suc (Suc 0)))) ws sys" for p f a ct pc i ws sys
    by (simp add: eval_nat_numeral)
  have period: "\<exists>ex' tm'. set_period sample_main_env self 1000 ex tm = Some (ex', tm')" for self ex tm
    by (simp add: set_period_def osa_hsm_active_period_def split: prod.split)
  obtain p where p: "osa_worker_pool_init True zero_pool (Some ''main_pool'') 4 64 True True 0 True True True = (0, p)"
    by (simp add: osa_worker_pool_init_def Let_def osa_mutex_create_def osa_sem_create_def SEM_VALUE_MAX_def c_consts)
  then have "num_workers p = 4" "wp_workers p = Some (replicate 4 None)"
    by (auto simp: osa_worker_pool_init_def Let_def osa_mutex_create_def osa_sem_create_def SEM_VALUE_MAX_def zero_pool_def c_consts)
  then have "\<exists>pool sys. osa_worker_pool_start True 3 4 3000 (\<lambda>m. 100 + m) (\<lambda>n _ _ _. Inr n) p
      \<lparr>th_handles = Map.empty, th_terminated = (\<lambda>_. False)\<rparr> = (0, pool, sys)"
    by (simp add: osa_worker_pool_start_def Let_def four osa_thread_create_def)
  then obtain pool sys where s: "osa_worker_pool_start True 3 4 3000 (\<lambda>m. 100 + m) (\<lambda>n _ _ _. Inr n) p
      \<lparr>th_handles = Map.empty, th_terminated = (\<lambda>_. False)\<rparr> = (0, pool, sys)"
    by blast
  let ?S2 = "create_examples sample_main_env sample_main_os (sample_main\<lparr>ms_pool := pool, ms_threads := sys\<rparr>)"
  obtain ex1 tm1 where t1: "set_period sample_main_env (me_example1 sample_main_env) 1000 (g_example1 ?S2) (ms_timers ?S2) = Some (ex1, tm1)"
    using period by blast
  obtain ex2 tm2 where t2: "set_period sample_main_env (me_example2 sample_main_env) 1000 (g_example2 ?S2) tm1 = Some (ex2, tm2)"
    using period by blast
  show ?thesis
    using p s t1 t2 by (simp add: worker_main_setup_def Let_def) (simp add: sample_main_def sample_main_env_def sample_main_os_def)
qed

lemma dispatcher_runs:
  assumes "created ex0 ex"
  shows "\<exists>ex'. osa_hsm_active_run_init wex_states (wex_code d self) (Suc n) pid True True ex = Some (True, ex')"
proof -
  have "STATE_INIT wex_states (hsm_call (wex_code d self) (Suc n)) ex = Some (0, ex\<lparr>operation_progress := 0, operation_result := 0\<rparr>)"
    using assms by (simp add: created_def STATE_INIT_def state_idle_handler_def sig_event_def)
  from run_init_spec [OF this, of pid True True] show ?thesis
    using assms by (auto simp: created_def)
qed


end
