(* ===== verification/Worker_Pair.thy ===== *)
theory Worker_Pair
  imports Worker_System
begin

text \<open>
  Two machines of the worker example on one pool, as \<^verbatim>\<open>main\<close> of \<^verbatim>\<open>examples/linux/hsm_worker.c\<close> sets them up. The
  accounting of \<^verbatim>\<open>Worker_System\<close> is for one machine; it does not extend to two, because
  \<^verbatim>\<open>job_pool_alloc\<close> takes every slot whose job is completed, also while the event that reports the job is
  still on its way to its owner. The lemmas follow such a slot through the three turns that it takes to
  put one job into the queue of the pool twice.
\<close>

section \<open>One turn of a machine\<close>

abbreviation wex_turn ::
  "nat \<Rightarrow> ptr \<Rightarrow> hsm_event \<Rightarrow> worker_pool_example \<Rightarrow> (int \<times> worker_pool_example) option" where
  "wex_turn t self e ex \<equiv> STATE_DISPATCH wex_states (hsm_call (wex_code t self) (Suc (Suc (Suc 0)))) (hsm_current ex) e ex"

text \<open>A pool at rest between the turns: unlocked, its slots set up, the jobs \<open>xs\<close> queued, the slot \<open>i\<close> the first free one.\<close>

definition slot_next :: "worker_state \<Rightarrow> ptr list \<Rightarrow> nat \<Rightarrow> bool" where
  "slot_next ws xs i \<longleftrightarrow>
    wp_lock (ws_pool ws) = free_lock \<and> g_job_pool_initialized (ws_store ws) \<and> job_queue_rep ws xs \<and>
    first_free (slot_free (ws_store ws)) 0 OSA_JOB_POOL_SIZE = Some i"

lemma first_free_at:
  "k < i + n \<Longrightarrow> i \<le> k \<Longrightarrow> free k \<Longrightarrow> (\<And>j. i \<le> j \<Longrightarrow> j < k \<Longrightarrow> \<not> free j) \<Longrightarrow> first_free free i n = Some k"
proof (induction free i n rule: first_free.induct)
  case (2 free i n)
  show ?case
  proof (cases "k = i")
    case False
    then have "first_free free (Suc i) n = Some k" "\<not> free i"
      using 2 by auto
    then show ?thesis by simp
  qed (use 2 in simp)
qed simp

lemma walk_cong: "(\<And>q. job_next (jobs st' q) = job_next (jobs st q)) \<Longrightarrow> walk st' p n = walk st p n"
  by (induction n arbitrary: p) simp_all

section \<open>The slot of a reported job\<close>

text \<open>The worker reports the job: the event waits for its owner, the slot is already the next to be given away.\<close>

lemma reported_slot_next:
  fixes ex :: worker_pool_example
  assumes lock: "wp_lock (ws_pool ws) = free_lock" and init: "g_job_pool_initialized (ws_store ws)"
    and rep: "job_queue_rep ws xs" and i: "i < OSA_JOB_POOL_SIZE" "\<forall>k < i. \<not> slot_free (ws_store ws) k"
    and p: "g_job_pool + i \<notin> set xs" "0 \<le> job_result (jobs (ws_store ws) (g_job_pool + i))"
    and to: "target_hsm (jobs (ws_store ws) (g_job_pool + i)) = self" "self \<noteq> NULL"
      "completion_signal (jobs (ws_store ws) (g_job_pool + i)) = SIG_WORK_COMPLETE"
    and ex: "hsm_running ex" "queue_room ex"
  obtains hsms' ws' where
    "worker_complete t example_cb pad now (g_job_pool + i) (hsms(self := osa_hsm_active.truncate ex)) ws = Return (hsms', ws')"
    "done_event (g_job_pool + i) \<in> set (map bytes_event (hsm_pending (hsms' self)))"
    "slot_next ws' xs i" "queue_size (ws_pool ws') = queue_size (ws_pool ws)"
proof -
  let ?p = "g_job_pool + i" and ?h = "osa_hsm_active.truncate ex"
  let ?jb = "jobs (ws_store ws) ?p"
  have e: "completion_event ?p ?jb = done_event ?p"
    using to by (simp add: completion_event_def done_event_def)
  have v: "valid_event (done_event ?p)"
    using i(1) by (simp add: valid_event_def done_event_def c_int_def c_consts sizeof_osa_worker_job_def
        g_job_pool_def OSA_JOB_POOL_SIZE_def)
  have run: "hsm_running ?h"
    using ex(1) by simp
  obtain r h where h: "post_now pad (done_event ?p) now (Some ?h) = (r, Some h)"
    "map bytes_event (hsm_pending h) = map bytes_event (hsm_pending ?h) @ (if queue_room ?h then [done_event ?p] else [])"
    by (rule post_queue [OF run v, of pad now])
  obtain ws' where c: "worker_complete t example_cb pad now ?p (hsms(self := ?h)) ws = Return (hsms(self := h), ws')"
    "\<And>q. jobs (ws_store ws') q = (if q = ?p then ?jb\<lparr>job_state := OSA_JOB_COMPLETED\<rparr> else jobs (ws_store ws) q)"
    "g_job_pool_initialized (ws_store ws') = g_job_pool_initialized (ws_store ws)"
    by (rule complete_example [OF lock, of t pad now ?p "hsms(self := ?h)"]) (use p(2) to e h(1) in simp)
  have "jobs (ws_store ws') x = jobs (ws_store ws) x" if "x \<in> set xs" for x
    using that p(1) by (auto simp: c(2))
  then have kept: "pool_kept ws ws'" "job_queue_rep ws' xs"
    using complete_effect [OF lock rep c(1)] by simp_all
  have "slot_free (ws_store ws') i" "\<forall>k < i. \<not> slot_free (ws_store ws') k"
    using i(2) by (simp_all add: slot_free_def c(2))
  then have "first_free (slot_free (ws_store ws')) 0 OSA_JOB_POOL_SIZE = Some i"
    using i(1) by (intro first_free_at) auto
  then have "slot_next ws' xs i"
    using kept init c(3) by (simp add: slot_next_def pool_kept_def)
  then show ?thesis
    using that [OF c(1)] h(2) ex kept(1) by (simp add: pool_kept_def queue_room_def)
qed

text \<open>The other machine starts a job: it is given that slot.\<close>

lemma start_takes_slot:
  fixes ex :: worker_pool_example
  assumes "hsm_current ex = state_idle" and n: "slot_next (ex_ws ex) xs i"
    and room: "length xs < unat (queue_size (ws_pool (ex_ws ex)))"
  obtains ex' where "wex_turn t self (sig_event SIG_WORK_START) ex = Some (0, ex')"
    "hsm_current ex' = state_processing" "current_job ex' = g_job_pool + i"
    "job_queue_rep (ex_ws ex') (xs @ [g_job_pool + i])"
    "target_hsm (jobs (ws_store (ex_ws ex')) (g_job_pool + i)) = self"
    "wp_lock (ws_pool (ex_ws ex')) = free_lock" "g_job_pool_initialized (ws_store (ex_ws ex'))"
    "queue_size (ws_pool (ex_ws ex')) = queue_size (ws_pool (ex_ws ex))"
    "\<forall>k < i. \<not> slot_free (ws_store (ex_ws ex')) k"
proof -
  have a: "wp_lock (ws_pool (ex_ws ex)) = free_lock" "g_job_pool_initialized (ws_store (ex_ws ex))"
    "job_queue_rep (ex_ws ex) xs" "first_free (slot_free (ws_store (ex_ws ex))) 0 OSA_JOB_POOL_SIZE = Some i"
    using n by (simp_all add: slot_next_def)
  have i: "i < OSA_JOB_POOL_SIZE" "slot_free (ws_store (ex_ws ex)) i" "\<forall>k < i. \<not> slot_free (ws_store (ex_ws ex)) k"
    using first_free_Some [OF a(4)] by auto
  obtain ex' where e: "STATE_DISPATCH wex_states (hsm_call (wex_code t self) (Suc (Suc (Suc 0)))) state_idle
      (sig_event SIG_WORK_START) ex = Some (0, ex')" "job_handed self xs ex ex'"
    by (rule start_dispatch [OF assms(1) a(1-3)])
  let ?q = "current_job ex'"
  have "\<exists>i < OSA_JOB_POOL_SIZE. slot_free (ws_store (ex_ws ex)) i"
    using i by blast
  with e(2) room have q: "in_job_pool ?q" "?q - g_job_pool = i" "hsm_current ex' = state_processing"
    "job_queue_rep (ex_ws ex') (xs @ [?q])" "target_hsm (jobs (ws_store (ex_ws ex')) ?q) = self"
    "\<forall>x. x \<noteq> ?q \<longrightarrow> job_state (jobs (ws_store (ex_ws ex')) x) = job_state (jobs (ws_store (ex_ws ex)) x)"
    "wp_lock (ws_pool (ex_ws ex')) = free_lock" "g_job_pool_initialized (ws_store (ex_ws ex'))"
    "queue_size (ws_pool (ex_ws ex')) = queue_size (ws_pool (ex_ws ex))"
    using a(4) unfolding job_handed_def Let_def by simp_all
  have p: "?q = g_job_pool + i"
    using q(1,2) by (auto simp: in_job_pool_def)
  show ?thesis
    by (rule that [of ex']) (use e(1) assms(1) q i(3) in \<open>simp_all add: p slot_free_def\<close>)
qed

text \<open>The owner handles the report: the slot is free again, with its job still in the queue.\<close>

lemma report_frees_queued:
  fixes ex :: worker_pool_example
  assumes "hsm_current ex = state_processing" and i: "i < OSA_JOB_POOL_SIZE"
    and rep: "job_queue_rep (ex_ws ex) (xs @ [g_job_pool + i])"
    and low: "\<forall>k < i. \<not> slot_free (ws_store (ex_ws ex)) k"
  obtains ex' where "wex_turn t self (done_event (g_job_pool + i)) ex = Some (0, ex')"
    "hsm_current ex' = state_idle" "jq_contents (ex_ws ex') = xs @ [g_job_pool + i]"
    "first_free (slot_free (ws_store (ex_ws ex'))) 0 OSA_JOB_POOL_SIZE = Some i"
    "ws_pool (ex_ws ex') = ws_pool (ex_ws ex)"
    "g_job_pool_initialized (ws_store (ex_ws ex')) = g_job_pool_initialized (ws_store (ex_ws ex))"
proof -
  let ?p = "g_job_pool + i"
  let ?ex = "(working_complete ?p ex)\<lparr>hsm_histroy := state_processing, hsm_current := state_idle,
    operation_progress := 0, operation_result := 0, hsm_error := 0\<rparr>"
  have st: "ex_ws ?ex = (ex_ws ex)\<lparr>ws_store := job_pool_free (ws_store (ex_ws ex)) ?p\<rparr>"
    by (simp add: working_complete_def Let_def osa_worker_job_free_def)
  have free: "jobs (ws_store (ex_ws ?ex)) = (jobs (ws_store (ex_ws ex)))(?p := (jobs (ws_store (ex_ws ex)) ?p)\<lparr>job_state := OSA_JOB_COMPLETED\<rparr>)"
    "g_job_pool_initialized (ws_store (ex_ws ?ex)) = g_job_pool_initialized (ws_store (ex_ws ex))"
    using i unfolding st by (simp_all add: job_pool_free_def)
  have "job_next (jobs (ws_store (ex_ws ?ex)) q) = job_next (jobs (ws_store (ex_ws ex)) q)" for q
    unfolding free(1) by simp
  note walk = walk_cong [of "ws_store (ex_ws ?ex)" "ws_store (ex_ws ex)", OF this]
  have "ws_pool (ex_ws ?ex) = ws_pool (ex_ws ex)"
    unfolding st by simp
  then have "jq_contents (ex_ws ?ex) = jq_contents (ex_ws ex)"
    unfolding jq_contents_def walk by simp
  then have "jq_contents (ex_ws ?ex) = xs @ [?p]"
    using rep_contents [OF rep] by simp
  moreover have "slot_free (ws_store (ex_ws ?ex)) i" "\<forall>k < i. \<not> slot_free (ws_store (ex_ws ?ex)) k"
    using low unfolding slot_free_def free(1) by simp_all
  then have "first_free (slot_free (ws_store (ex_ws ?ex))) 0 OSA_JOB_POOL_SIZE = Some i"
    using i by (intro first_free_at) auto
  moreover have "wex_turn t self (done_event ?p) ex = Some (0, ?ex)"
    using complete_dispatch [OF assms(1), of "done_event ?p" t self 0] assms(1) by simp
  ultimately show ?thesis
    using free(2) st by (intro that [of ?ex]) simp_all
qed

text \<open>The owner starts its next job: the same slot is appended behind itself.\<close>

lemma start_requeues:
  fixes ex :: worker_pool_example
  assumes idle: "hsm_current ex = state_idle" and lock: "wp_lock (ws_pool (ex_ws ex)) = free_lock"
    and init: "g_job_pool_initialized (ws_store (ex_ws ex))"
    and first: "first_free (slot_free (ws_store (ex_ws ex))) 0 OSA_JOB_POOL_SIZE = Some i"
    and tail: "job_queue_tail (ws_pool (ex_ws ex)) = g_job_pool + i"
    and room: "queue_depth (stats (ws_pool (ex_ws ex))) < queue_size (ws_pool (ex_ws ex))"
  obtains ex' where "wex_turn t self (sig_event SIG_WORK_START) ex = Some (0, ex')"
    "hsm_current ex' = state_processing" "current_job ex' = g_job_pool + i"
    "target_hsm (jobs (ws_store (ex_ws ex')) (g_job_pool + i)) = self"
    "job_next (jobs (ws_store (ex_ws ex')) (g_job_pool + i)) = g_job_pool + i"
    "queue_depth (stats (ws_pool (ex_ws ex'))) = queue_depth (stats (ws_pool (ex_ws ex))) + 1"
proof -
  let ?p = "g_job_pool + i"
  obtain st where a: "osa_worker_job_alloc (ws_store (ex_ws ex)) = (?p, st)"
    using job_pool_alloc_cases [OF init] first unfolding osa_worker_job_alloc_def by (metis option.inject option.distinct(1) prod.collapse)
  let ?ws = "(ex_ws ex)\<lparr>ws_store := upd_job ?p (\<lambda>j. j\<lparr>target_hsm := self, completion_signal := SIG_WORK_COMPLETE\<rparr>)
    (osa_worker_job_init st ?p heavy_fn self callback_fn self)\<rparr>"
  let ?lk = "upd_pool (\<lambda>p. p\<lparr>wp_lock := Some \<lparr>m_owner = Some t\<rparr>\<rparr>) ?ws"
  obtain r ws1 where b: "submit_body ?p ?lk = (r, ws1)"
    "with_lock t (submit_body ?p) ?ws = Return (r, upd_pool (\<lambda>p. p\<lparr>wp_lock := free_lock\<rparr>) ws1)"
    by (rule with_lock_free [where body = "submit_body ?p" and ws = ?ws and t = t]) (use lock in simp_all)
  have s: "r = 0" "target_hsm (jobs (ws_store ws1) ?p) = self" "job_next (jobs (ws_store ws1) ?p) = ?p"
    "queue_depth (stats (ws_pool ws1)) = queue_depth (stats (ws_pool (ex_ws ex))) + 1"
    using b(1) room tail by (auto simp: submit_body_def Let_def osa_worker_job_init_def split: if_splits)
  let ?ex = "ex\<lparr>hsm_histroy := hsm_current ex, hsm_current := state_working\<rparr>"
  let ?ex' = "?ex\<lparr>job_count := job_count ex + 1, current_job := ?p,
    ex_ws := upd_pool (\<lambda>p. p\<lparr>wp_lock := free_lock\<rparr>) ws1, hsm_histroy := state_working,
    hsm_current := state_processing, hsm_error := 0\<rparr>"
  have "working_entry t self (hsm_call (wex_code t self) (Suc 0)) ?ex = Some (0, ?ex')"
    using a b(2) s(1)
    by (simp add: working_entry_def Let_def osa_worker_pool_submit_to_hsm_def osa_worker_pool_submit_def)
  from start_dispatch_entry [OF idle this] show ?thesis
    using s idle by (intro that [of ?ex']) simp_all
qed

text \<open>Both turns of the owner.\<close>

lemma report_requeues:
  fixes ex :: worker_pool_example
  assumes "hsm_current ex = state_processing" and i: "i < OSA_JOB_POOL_SIZE"
    and rep: "job_queue_rep (ex_ws ex) (xs @ [g_job_pool + i])"
    and low: "\<forall>k < i. \<not> slot_free (ws_store (ex_ws ex)) k"
    and lock: "wp_lock (ws_pool (ex_ws ex)) = free_lock" and init: "g_job_pool_initialized (ws_store (ex_ws ex))"
    and size: "length xs + 2 \<le> unat (queue_size (ws_pool (ex_ws ex)))"
  obtains ex' ex'' where "wex_turn t self (done_event (g_job_pool + i)) ex = Some (0, ex')"
    "slot_free (ws_store (ex_ws ex')) i" "jq_contents (ex_ws ex') = xs @ [g_job_pool + i]"
    "wex_turn t self (sig_event SIG_WORK_START) ex' = Some (0, ex'')"
    "hsm_current ex'' = state_processing" "current_job ex'' = g_job_pool + i"
    "target_hsm (jobs (ws_store (ex_ws ex'')) (g_job_pool + i)) = self"
    "job_next (jobs (ws_store (ex_ws ex'')) (g_job_pool + i)) = g_job_pool + i"
    "queue_depth (stats (ws_pool (ex_ws ex''))) = of_nat (length xs + 2)"
proof -
  obtain ex' where one: "wex_turn t self (done_event (g_job_pool + i)) ex = Some (0, ex')"
    "hsm_current ex' = state_idle" "jq_contents (ex_ws ex') = xs @ [g_job_pool + i]"
    "first_free (slot_free (ws_store (ex_ws ex'))) 0 OSA_JOB_POOL_SIZE = Some i"
    "ws_pool (ex_ws ex') = ws_pool (ex_ws ex)"
    "g_job_pool_initialized (ws_store (ex_ws ex')) = g_job_pool_initialized (ws_store (ex_ws ex))"
    by (rule report_frees_queued [OF assms(1) i rep low])
  have pool: "wp_lock (ws_pool (ex_ws ex')) = free_lock" "g_job_pool_initialized (ws_store (ex_ws ex'))"
    using one(5,6) lock init by simp_all
  have depth: "queue_depth (stats (ws_pool (ex_ws ex'))) = of_nat (Suc (length xs))"
    "job_queue_tail (ws_pool (ex_ws ex')) = g_job_pool + i"
    using rep unfolding one(5) job_queue_rep_def by simp_all
  have "unat (queue_depth (stats (ws_pool (ex_ws ex')))) = Suc (length xs)"
    using rep_length [OF rep] unfolding one(5) by simp
  then have room: "queue_depth (stats (ws_pool (ex_ws ex'))) < queue_size (ws_pool (ex_ws ex'))"
    using size unfolding word_less_nat_alt one(5) by simp
  obtain ex'' where two: "wex_turn t self (sig_event SIG_WORK_START) ex' = Some (0, ex'')"
    "hsm_current ex'' = state_processing" "current_job ex'' = g_job_pool + i"
    "target_hsm (jobs (ws_store (ex_ws ex'')) (g_job_pool + i)) = self"
    "job_next (jobs (ws_store (ex_ws ex'')) (g_job_pool + i)) = g_job_pool + i"
    "queue_depth (stats (ws_pool (ex_ws ex''))) = queue_depth (stats (ws_pool (ex_ws ex'))) + 1"
    by (rule start_requeues [OF one(2) pool one(4) depth(2) room])
  have "slot_free (ws_store (ex_ws ex')) i"
    using first_free_Some [OF one(4)] by simp
  moreover have "queue_depth (stats (ws_pool (ex_ws ex''))) = of_nat (length xs + 2)"
    by (simp add: two(6) depth(1))
  ultimately show ?thesis
    using that [OF one(1) _ one(3) two(1-5)] by blast
qed

section \<open>Property\<close>

text \<open>
  C28. Two machines of the worker example that share a pool can be given the same job. A worker reports the job \<open>p\<close> of
  the first machine, whose slot is then the first that counts as free; before the first machine handles
  the report, a start event of the second machine takes the slot, and \<open>p\<close> is queued for the second
  machine. The report then makes the first machine free the slot while \<open>p\<close> waits in the queue, and its next start
  event takes the slot again: now both machines wait for \<open>p\<close>, which reports to the first
  only, its successor in the queue is \<open>p\<close> itself, and the queue counts it twice.
\<close>

theorem shared_job_recycled:
  fixes ex1 ex2 :: worker_pool_example and i t1 t2 t :: nat
  assumes "wp_lock (ws_pool ws) = free_lock" and "g_job_pool_initialized (ws_store ws)"
    and "job_queue_rep ws xs" and "length xs + 2 \<le> unat (queue_size (ws_pool ws))"
    and "i < OSA_JOB_POOL_SIZE" and "\<forall>k < i. \<not> slot_free (ws_store ws) k"
    and "g_job_pool + i \<notin> set xs" and "0 \<le> job_result (jobs (ws_store ws) (g_job_pool + i))"
    and "target_hsm (jobs (ws_store ws) (g_job_pool + i)) = self1" and "self1 \<noteq> NULL"
    and "completion_signal (jobs (ws_store ws) (g_job_pool + i)) = SIG_WORK_COMPLETE"
    and "hsm_running ex1" and "queue_room ex1" and "hsm_current ex1 = state_processing" and "hsm_current ex2 = state_idle"
  defines "p \<equiv> g_job_pool + i"
  shows "\<exists>hsms' ws1 ex2' ex1' ex1''.
    worker_complete t example_cb pad now p (hsms(self1 := osa_hsm_active.truncate ex1)) ws = Return (hsms', ws1) \<and>
    done_event p \<in> set (map bytes_event (hsm_pending (hsms' self1))) \<and>
    wex_turn t2 self2 (sig_event SIG_WORK_START) (ex2\<lparr>ex_ws := ws1\<rparr>) = Some (0, ex2') \<and>
    hsm_current ex2' = state_processing \<and> current_job ex2' = p \<and>
    target_hsm (jobs (ws_store (ex_ws ex2')) p) = self2 \<and> jq_contents (ex_ws ex2') = xs @ [p] \<and>
    wex_turn t1 self1 (done_event p) (ex1\<lparr>ex_ws := ex_ws ex2'\<rparr>) = Some (0, ex1') \<and>
    slot_free (ws_store (ex_ws ex1')) i \<and> jq_contents (ex_ws ex1') = xs @ [p] \<and>
    wex_turn t1 self1 (sig_event SIG_WORK_START) ex1' = Some (0, ex1'') \<and>
    hsm_current ex1'' = state_processing \<and> current_job ex1'' = p \<and>
    target_hsm (jobs (ws_store (ex_ws ex1'')) p) = self1 \<and> job_next (jobs (ws_store (ex_ws ex1'')) p) = p \<and>
    queue_depth (stats (ws_pool (ex_ws ex1''))) = of_nat (length xs + 2)"
proof -
  obtain hsms' ws1 where w: "worker_complete t example_cb pad now p (hsms(self1 := osa_hsm_active.truncate ex1)) ws = Return (hsms', ws1)"
    "done_event p \<in> set (map bytes_event (hsm_pending (hsms' self1)))"
    "slot_next ws1 xs i" "queue_size (ws_pool ws1) = queue_size (ws_pool ws)"
    unfolding p_def by (rule reported_slot_next [OF assms(1-3,5-13)])
  have "hsm_current (ex2\<lparr>ex_ws := ws1\<rparr>) = state_idle" "slot_next (ex_ws (ex2\<lparr>ex_ws := ws1\<rparr>)) xs i"
    "length xs < unat (queue_size (ws_pool (ex_ws (ex2\<lparr>ex_ws := ws1\<rparr>))))"
    using assms(4,15) w(3,4) by simp_all
  then obtain ex2' where two: "wex_turn t2 self2 (sig_event SIG_WORK_START) (ex2\<lparr>ex_ws := ws1\<rparr>) = Some (0, ex2')"
    "hsm_current ex2' = state_processing" "current_job ex2' = p" "job_queue_rep (ex_ws ex2') (xs @ [p])"
    "target_hsm (jobs (ws_store (ex_ws ex2')) p) = self2"
    "wp_lock (ws_pool (ex_ws ex2')) = free_lock" "g_job_pool_initialized (ws_store (ex_ws ex2'))"
    "queue_size (ws_pool (ex_ws ex2')) = queue_size (ws_pool (ex_ws (ex2\<lparr>ex_ws := ws1\<rparr>)))"
    "\<forall>k < i. \<not> slot_free (ws_store (ex_ws ex2')) k"
    unfolding p_def by (rule start_takes_slot)
  let ?ex1 = "ex1\<lparr>ex_ws := ex_ws ex2'\<rparr>"
  have "hsm_current ?ex1 = state_processing" "job_queue_rep (ex_ws ?ex1) (xs @ [g_job_pool + i])"
    "\<forall>k < i. \<not> slot_free (ws_store (ex_ws ?ex1)) k" "wp_lock (ws_pool (ex_ws ?ex1)) = free_lock"
    "g_job_pool_initialized (ws_store (ex_ws ?ex1))" "length xs + 2 \<le> unat (queue_size (ws_pool (ex_ws ?ex1)))"
    using assms(4,14) two(4,6-9) w(4) by (simp_all add: p_def)
  note owner = report_requeues [OF this(1) assms(5) this(2-)]
  obtain ex1' ex1'' where "wex_turn t1 self1 (done_event p) ?ex1 = Some (0, ex1')"
    "slot_free (ws_store (ex_ws ex1')) i" "jq_contents (ex_ws ex1') = xs @ [p]"
    "wex_turn t1 self1 (sig_event SIG_WORK_START) ex1' = Some (0, ex1'')"
    "hsm_current ex1'' = state_processing" "current_job ex1'' = p"
    "target_hsm (jobs (ws_store (ex_ws ex1'')) p) = self1" "job_next (jobs (ws_store (ex_ws ex1'')) p) = p"
    "queue_depth (stats (ws_pool (ex_ws ex1''))) = of_nat (length xs + 2)"
    unfolding p_def by (rule owner)
  then show ?thesis
    using w(1,2) two(1-3,5) rep_contents [OF two(4)]
    by (intro exI [of _ hsms'] exI [of _ ws1] exI [of _ ex2'] exI [of _ ex1'] exI [of _ ex1'']) simp
qed

text \<open>The job of the machine at address 9, in the first slot, has been run and is about to be reported; the machine at 10 is idle.\<close>

definition sample_pair_ws :: worker_state where
  "sample_pair_ws = (let ws = ex_ws sample_wex
     in ws\<lparr>ws_store := upd_job g_job_pool (\<lambda>_. zero_job\<lparr>job_id := 1, job_state := OSA_JOB_RUNNING, job_result := 10,
       target_hsm := 9, completion_signal := SIG_WORK_COMPLETE\<rparr>) (ws_store ws)\<rparr>)"

definition sample_waiting :: worker_pool_example where
  "sample_waiting = (ew_ex sample_exw)\<lparr>hsm_current := state_processing, current_job := g_job_pool\<rparr>"

theorem shared_job_recycled_witness:
  "\<exists>hsms' ws1 ex2' ex1' ex1''.
    worker_complete 5 example_cb (\<lambda>_. 0) \<lparr>tv_sec = 0, tv_nsec = 0\<rparr> g_job_pool
      ((\<lambda>_. osa_hsm_active.truncate sample_wex)(9 := osa_hsm_active.truncate sample_waiting)) sample_pair_ws = Return (hsms', ws1) \<and>
    wex_turn 2 10 (sig_event SIG_WORK_START) (sample_wex\<lparr>ex_ws := ws1\<rparr>) = Some (0, ex2') \<and>
    wex_turn 1 9 (done_event g_job_pool) (sample_waiting\<lparr>ex_ws := ex_ws ex2'\<rparr>) = Some (0, ex1') \<and>
    wex_turn 1 9 (sig_event SIG_WORK_START) ex1' = Some (0, ex1'') \<and>
    current_job ex2' = g_job_pool \<and> current_job ex1'' = g_job_pool \<and>
    job_next (jobs (ws_store (ex_ws ex1'')) g_job_pool) = g_job_pool \<and> queue_depth (stats (ws_pool (ex_ws ex1''))) = 2"
proof -
  have "wp_lock (ws_pool sample_pair_ws) = free_lock" "g_job_pool_initialized (ws_store sample_pair_ws)"
    "job_queue_rep sample_pair_ws []" "length ([] :: ptr list) + 2 \<le> unat (queue_size (ws_pool sample_pair_ws))"
    "0 < OSA_JOB_POOL_SIZE" "\<forall>k < 0. \<not> slot_free (ws_store sample_pair_ws) k" "g_job_pool + 0 \<notin> set []"
    "0 \<le> job_result (jobs (ws_store sample_pair_ws) (g_job_pool + 0))"
    "target_hsm (jobs (ws_store sample_pair_ws) (g_job_pool + 0)) = 9" "9 \<noteq> NULL"
    "completion_signal (jobs (ws_store sample_pair_ws) (g_job_pool + 0)) = SIG_WORK_COMPLETE"
    by (simp_all add: sample_pair_ws_def sample_wex_def sample_ws_def zero_pool_def zero_stats_def zero_job_def
        job_queue_rep_def Let_def OSA_JOB_POOL_SIZE_def)
  moreover have "hsm_running sample_waiting" "queue_room sample_waiting" "hsm_current sample_waiting = state_processing"
    using sample_exw_ok
    by (simp_all add: sample_waiting_def hsm_running_def queue_room_def hsm_pending_def hsm_queue_cap_def)
  ultimately show ?thesis
    using shared_job_recycled [of sample_pair_ws "[]" 0 9 sample_waiting sample_wex 5 "\<lambda>_. 0"
        "\<lparr>tv_sec = 0, tv_nsec = 0\<rparr>" "\<lambda>_. osa_hsm_active.truncate sample_wex" 2 10 1] sample_wex_pool(6)
    by simp blast
qed

end
