(* ===== verification/Simulate_Example.thy ===== *)
theory Simulate_Example
  imports Osa_Hsm
begin

text \<open>
  The example of two state machines that exchange events, \<^verbatim>\<open>examples/linux/hsm_simulate.c\<close>: the states
  \<open>init\<close>, \<open>working\<close> and \<open>idle\<close>, and the posts between a machine and its watcher. The object extends
  \<open>osa_hsm_active\<close> by the fields of \<^verbatim>\<open>struct hsm_simulate\<close>, the other machines by address (\<open>None\<close> at NULL)
  and the timers of the platform. What the handlers need of the platform is the record \<open>sim_platform\<close>: the timer
  operations and the tick handler, the padding of events, the clock, and how a post ends that finds
  the queue full and sleeps (its result, and the queue by then). The counters are mathematical integers: the code does not guard
  them against overflow of \<^verbatim>\<open>int\<close>. A machine is not its own watcher. Logging is left out.

  The lemmas: the application is one of the framework (\<open>hsm_app\<close>), a machine keeps its well-formedness
  and every dispatch returns, and a machine that is sent five events becomes idle.
\<close>

section \<open>Data\<close>

definition SIMULATE_SIG_NONE :: int where [c_consts]: "SIMULATE_SIG_NONE = HSM_USER_SIG"
definition SIMULATE_SIG_SEND :: int where [c_consts]: "SIMULATE_SIG_SEND = HSM_USER_SIG + 1"
definition SIMULATE_SIG_RECV :: int where [c_consts]: "SIMULATE_SIG_RECV = HSM_USER_SIG + 2"
definition SIMULATE_SIG_IDLE :: int where [c_consts]: "SIMULATE_SIG_IDLE = HSM_USER_SIG + 3"
definition SIMULATE_SIG_MAX :: int where [c_consts]: "SIMULATE_SIG_MAX = HSM_USER_SIG + 4"

definition SIMULATE_TASK_STACK_SIZE :: int where "SIMULATE_TASK_STACK_SIZE = 1024 * 10"
definition SIMULATE_TASK_PRIO :: int where "SIMULATE_TASK_PRIO = 10"
definition SIMULATE_TASK_MSG_Q_SIZE :: int where "SIMULATE_TASK_MSG_Q_SIZE = 20"

record 't hsm_simulate = osa_hsm_active +
  watcher :: ptr
  cnt :: int
  send_cnt :: int
  sim_world :: "ptr \<rightharpoonup> osa_hsm_active"
  sim_timers :: 't

record 't sim_platform =
  sp_timer_create :: "'t timer_create_op"
  sp_timer_stop :: "'t timer_stop_op"
  sp_tick :: ptr
  sp_pad :: "nat \<Rightarrow> byte"
  sp_now :: timespec
  sp_slept :: "osa_queue_impl \<Rightarrow> int \<times> osa_queue_impl"

definition simulate_init_state :: ptr where "simulate_init_state = 1"
definition simulate_working_state :: ptr where "simulate_working_state = 2"
definition simulate_idle_state :: ptr where "simulate_idle_state = 3"

definition sim_states :: state_table where
  "sim_states =
    [simulate_init_state \<mapsto> \<lparr>st_handler = 11, st_parent = NULL, st_name = ''init''\<rparr>,
     simulate_working_state \<mapsto> \<lparr>st_handler = 12, st_parent = NULL, st_name = ''working''\<rparr>,
     simulate_idle_state \<mapsto> \<lparr>st_handler = 13, st_parent = NULL, st_name = ''idle''\<rparr>]"

text \<open>
  The names of the signals. The table has entries for the signals of the example only, the others are
  NULL; outside the table is a read out of bounds, \<open>None\<close>.
\<close>

definition sim_g_sig_str :: "string option list" where
  "sim_g_sig_str = (replicate (nat SIMULATE_SIG_MAX) None)
    [nat SIMULATE_SIG_RECV := Some ''recv'', nat SIMULATE_SIG_SEND := Some ''send'',
     nat SIMULATE_SIG_IDLE := Some ''idle'']"

definition sim_sig_str :: "int \<Rightarrow> string option" where
  "sim_sig_str signal =
    (if signal < SIMULATE_SIG_MAX
     then (if signal < 0 then None
           else case sim_g_sig_str ! nat signal of Some s \<Rightarrow> Some s | None \<Rightarrow> oas_hsm_sig_str signal)
     else Some ''unknown'')"

section \<open>Posting\<close>

text \<open>A post with a timeout of 5 ms.\<close>

definition post_5 ::
  "'t sim_platform \<Rightarrow> hsm_event \<Rightarrow> 'a osa_hsm_active_scheme option \<Rightarrow> int \<times> 'a osa_hsm_active_scheme option" where
  "post_5 P e hsm =
    (case osa_hsm_active_event_post hsm (sp_pad P) (Some e) 5 (sp_now P) of
       Return r \<Rightarrow> r
     | Park _ \<Rightarrow>
         (case hsm of
            None \<Rightarrow> (-1, None)
          | Some h \<Rightarrow>
              (case msg_q h of
                 None \<Rightarrow> (-1, hsm)
               | Some q \<Rightarrow> (case sp_slept P q of (ret, q') \<Rightarrow> (ret, Some (h\<lparr>msg_q := Some q'\<rparr>))))))"

definition post_watcher ::
  "'t sim_platform \<Rightarrow> hsm_event \<Rightarrow> ('t, 'a) hsm_simulate_scheme \<Rightarrow> int \<times> ('t, 'a) hsm_simulate_scheme" where
  "post_watcher P e simulate =
    (case post_5 P e (sim_world simulate (watcher simulate)) of
       (ret, w) \<Rightarrow> (ret, simulate\<lparr>sim_world := (sim_world simulate)(watcher simulate := w)\<rparr>))"

definition do_period ::
  "'t sim_platform \<Rightarrow> ptr \<Rightarrow> ('t, 'a) hsm_simulate_scheme \<Rightarrow> (int \<times> ('t, 'a) hsm_simulate_scheme) option" where
  "do_period P self simulate =
    (let (ret, sim1) = post_watcher P (sig_event SIMULATE_SIG_SEND) simulate;
         stop = cnt sim1 > 10;
         sim2 = sim1\<lparr>cnt := cnt sim1 + 1\<rparr>
     in if stop
        then (case osa_hsm_active_period (sp_timer_create P) (sp_timer_stop P) (sp_tick P) self (Some sim2) 0
                (sim_timers sim2) of
                Some (ret', Some sim3, sys) \<Rightarrow> Some (ret', sim3\<lparr>sim_timers := sys\<rparr>)
              | _ \<Rightarrow> None)
        else Some (ret, sim2))"

definition do_send ::
  "'t sim_platform \<Rightarrow> ('t, 'a) hsm_simulate_scheme \<Rightarrow> int \<times> ('t, 'a) hsm_simulate_scheme" where
  "do_send P simulate =
    (let (ret, sim1) = post_watcher P (sig_event SIMULATE_SIG_RECV) simulate;
         sim2 = sim1\<lparr>send_cnt := send_cnt sim1 + 1\<rparr>
     in if send_cnt sim2 smod 5 = 0
        then (case post_5 P (sig_event SIMULATE_SIG_IDLE) (Some sim2) of
                (ret', Some sim3) \<Rightarrow> (ret', sim3) | (ret', None) \<Rightarrow> (ret', sim2))
        else (ret, sim2))"

section \<open>Handlers\<close>

definition simulate_init_state_handler :: "('t, 'a) hsm_simulate_scheme handler" where
  "simulate_init_state_handler call event simulate =
    map_option (\<lambda>s. (hsm_error s, s))
      (STATE_TRANSIT sim_states call simulate_working_state (simulate\<lparr>cnt := 0\<rparr>))"

definition simulate_working_state_handler :: "'t sim_platform \<Rightarrow> ptr \<Rightarrow> ('t, 'a) hsm_simulate_scheme handler" where
  "simulate_working_state_handler P self call event simulate =
    (if ev_signal event = HSM_SIG_ENTRY then Some (0, simulate)
     else if ev_signal event = HSM_SIG_PERIOD then map_option (\<lambda>(_, s). (0, s)) (do_period P self simulate)
     else if ev_signal event = SIMULATE_SIG_SEND then Some (0, snd (do_send P simulate))
     else if ev_signal event = SIMULATE_SIG_RECV then Some (0, simulate)
     else if ev_signal event = SIMULATE_SIG_IDLE
     then map_option (\<lambda>s. (hsm_error s, s)) (STATE_TRANSIT sim_states call simulate_idle_state simulate)
     else Some (0, simulate))"

definition simulate_state_idle_handler :: "('t, 'a) hsm_simulate_scheme handler" where
  "simulate_state_idle_handler call event simulate =
    (if ev_signal event = HSM_SIG_ENTRY then Some (0, simulate)
     else if ev_signal event = HSM_SIG_PERIOD then Some (0, simulate)
     else Some (0, simulate))"

definition sim_code :: "'t sim_platform \<Rightarrow> ptr \<Rightarrow> ptr \<rightharpoonup> ('t, 'a) hsm_simulate_scheme handler" where
  "sim_code P self =
    [11 \<mapsto> simulate_init_state_handler, 12 \<mapsto> simulate_working_state_handler P self,
     13 \<mapsto> simulate_state_idle_handler]"

section \<open>Creation and posting from outside\<close>

definition simulate_event_post ::
  "'t sim_platform \<Rightarrow> int \<Rightarrow> ptr \<Rightarrow> ('t, 'a) hsm_simulate_scheme \<Rightarrow> int \<times> ('t, 'a) hsm_simulate_scheme option" where
  "simulate_event_post P signal data simulate =
    post_5 P \<lparr>ev_signal = signal, ev_data = data, ev_size = 0\<rparr> (Some simulate)"

definition simulate_create ::
  "ptr \<Rightarrow> ptr \<Rightarrow> ptr \<Rightarrow> (thread_attr \<Rightarrow> ptr \<Rightarrow> ptr \<Rightarrow> int + nat) \<Rightarrow>
   ('t, 'a) hsm_simulate_scheme \<Rightarrow> thread_sys \<Rightarrow> int \<times> ('t, 'a) hsm_simulate_scheme option \<times> thread_sys" where
  "simulate_create run_fn self calloc_t pthread_create simulate sys =
    (case osa_hsm_active_init simulate simulate_init_state of
       (_, sim1) \<Rightarrow>
         (case osa_hsm_active_start (Some sim1) SIMULATE_TASK_STACK_SIZE SIMULATE_TASK_PRIO
                 SIMULATE_TASK_MSG_Q_SIZE run_fn self calloc_t pthread_create sys of
            (_, sim2, sys') \<Rightarrow> (0, sim2, sys')))"

section \<open>The application keeps the contract\<close>

lemmas sim_handler_defs = simulate_init_state_handler_def simulate_working_state_handler_def
  simulate_state_idle_handler_def

interpretation sim: hsm_app "sim_code P self" for P self
proof
  fix f h
  assume "sim_code P self f = Some h"
  then consider "h = simulate_init_state_handler" | "h = simulate_working_state_handler P self"
    | "h = simulate_state_idle_handler"
    by (auto simp: sim_code_def split: if_splits)
  then show "handler_mono h"
    by cases (auto simp: handler_mono_def sim_handler_defs split: if_splits intro: mono_intros)
qed

lemmas sim_addr_defs = simulate_init_state_def simulate_working_state_def simulate_idle_state_def

lemma sim_states_simps [simp]:
  "sim_states simulate_init_state = Some \<lparr>st_handler = 11, st_parent = NULL, st_name = ''init''\<rparr>"
  "sim_states simulate_working_state = Some \<lparr>st_handler = 12, st_parent = NULL, st_name = ''working''\<rparr>"
  "sim_states simulate_idle_state = Some \<lparr>st_handler = 13, st_parent = NULL, st_name = ''idle''\<rparr>"
  "simulate_init_state \<noteq> simulate_working_state" "simulate_init_state \<noteq> simulate_idle_state"
  "simulate_working_state \<noteq> simulate_idle_state" "simulate_working_state \<noteq> simulate_init_state"
  "simulate_idle_state \<noteq> simulate_init_state" "simulate_idle_state \<noteq> simulate_working_state"
  by (simp_all add: sim_states_def sim_addr_defs)

lemma sim_code_simps [simp]:
  "sim_code P self 11 = Some simulate_init_state_handler"
  "sim_code P self 12 = Some (simulate_working_state_handler P self)"
  "sim_code P self 13 = Some simulate_state_idle_handler"
  by (simp_all add: sim_code_def)

lemma sim_transit_simps [simp]:
  "STATE_TRANSIT sim_states (hsm_call (sim_code P self) (Suc n)) simulate_working_state s =
    Some (s\<lparr>hsm_histroy := hsm_current s, hsm_current := simulate_working_state, hsm_error := 0\<rparr>)"
  "STATE_TRANSIT sim_states (hsm_call (sim_code P self) (Suc n)) simulate_idle_state s =
    Some (s\<lparr>hsm_histroy := hsm_current s, hsm_current := simulate_idle_state, hsm_error := 0\<rparr>)"
  by (simp_all add: STATE_TRANSIT_def STATE_INIT_def simulate_working_state_handler_def
      simulate_state_idle_handler_def sig_event_def)

section \<open>Posts\<close>

text \<open>A post keeps everything of a machine but the contents of its queue.\<close>

lemma post_5_frame:
  obtains r q where "post_5 P e (Some hsm) = (r, Some (hsm\<lparr>msg_q := q\<rparr>))" "q = None \<longleftrightarrow> msg_q hsm = None"
proof (cases "msg_q hsm")
  case None
  then have "post_5 P e (Some hsm) = (-1, Some (hsm\<lparr>msg_q := None\<rparr>))"
    by (simp add: post_5_def osa_hsm_active_event_post_def)
  with None show ?thesis by (intro that) simp_all
next
  case (Some q)
  then have "\<exists>r q'. post_5 P e (Some hsm) = (r, Some (hsm\<lparr>msg_q := Some q'\<rparr>))"
    by (cases "queue_send q (event_bytes (sp_pad P) e) sizeof_hsm_event 5 (sp_now P)")
      (auto simp: post_5_def osa_hsm_active_event_post_def osa_queue_send_def split: prod.splits)
  with Some that show ?thesis by auto
qed

lemma post_5_room:
  assumes "hsm_running hsm" and "length (hsm_pending hsm) < hsm_queue_cap hsm"
  obtains q where "post_5 P e (Some hsm) = (0, Some (hsm\<lparr>msg_q := Some q\<rparr>))"
    "hsm_running (hsm\<lparr>msg_q := Some q\<rparr>)"
    "hsm_pending (hsm\<lparr>msg_q := Some q\<rparr>) = hsm_pending hsm @ [event_bytes (sp_pad P) e]"
    "hsm_queue_cap (hsm\<lparr>msg_q := Some q\<rparr>) = hsm_queue_cap hsm"
  using post_now_room [OF assms, of "sp_pad P" e "sp_now P"]
  by (simp add: post_5_def post_room_timeout [OF assms]) blast

text \<open>The events waiting at the watcher, and the places left there.\<close>

definition watcher_pending :: "('t, 'a) hsm_simulate_scheme \<Rightarrow> byte list list" where
  "watcher_pending s = (case sim_world s (watcher s) of None \<Rightarrow> [] | Some w \<Rightarrow> hsm_pending w)"

definition watcher_room :: "('t, 'a) hsm_simulate_scheme \<Rightarrow> nat \<Rightarrow> bool" where
  "watcher_room s k \<longleftrightarrow>
    (case sim_world s (watcher s) of
       None \<Rightarrow> False
     | Some w \<Rightarrow> hsm_running w \<and> length (hsm_pending w) + k \<le> hsm_queue_cap w)"

lemma post_watcher_room:
  fixes s :: "('t, 'a) hsm_simulate_scheme"
  assumes "watcher_room s (Suc k)"
  obtains world where "post_watcher P e s = (0, s\<lparr>sim_world := world\<rparr>)"
    "watcher_room (s\<lparr>sim_world := world\<rparr>) k"
    "watcher_pending (s\<lparr>sim_world := world\<rparr>) = watcher_pending s @ [event_bytes (sp_pad P) e]"
proof -
  obtain w where w: "sim_world s (watcher s) = Some w" "hsm_running w" "length (hsm_pending w) < hsm_queue_cap w"
    "length (hsm_pending w) + Suc k \<le> hsm_queue_cap w"
    using assms by (auto simp: watcher_room_def split: option.splits)
  obtain q where q: "post_5 P e (Some w) = (0, Some (w\<lparr>msg_q := Some q\<rparr>))"
    "hsm_running (w\<lparr>msg_q := Some q\<rparr>)"
    "hsm_pending (w\<lparr>msg_q := Some q\<rparr>) = hsm_pending w @ [event_bytes (sp_pad P) e]"
    "hsm_queue_cap (w\<lparr>msg_q := Some q\<rparr>) = hsm_queue_cap w"
    by (rule post_5_room [OF w(2,3)])
  show ?thesis
    using w q
    by (intro that [of "(sim_world s)(watcher s := Some (w\<lparr>msg_q := Some q\<rparr>))"])
      (simp_all add: post_watcher_def watcher_room_def watcher_pending_def)
qed

section \<open>Well-formedness\<close>

definition sim_wf :: "(timer_sys, 'a) hsm_simulate_scheme \<Rightarrow> bool" where
  "sim_wf s \<longleftrightarrow>
    hsm_current s \<in> {simulate_init_state, simulate_working_state, simulate_idle_state} \<and>
    (timer_id s = NULL \<or> tm_heap (sim_timers s) (timer_id s) \<noteq> None)"

lemma post_watcher_frame: "\<exists>r world. post_watcher P e s = (r, s\<lparr>sim_world := world\<rparr>)"
  by (auto simp: post_watcher_def split: prod.splits)

lemma do_send_frame:
  "\<exists>world q. snd (do_send P s) = s\<lparr>sim_world := world, send_cnt := send_cnt s + 1, msg_q := q\<rparr> \<and>
    (q = None \<longleftrightarrow> msg_q s = None)"
proof -
  obtain r world where w: "post_watcher P (sig_event SIMULATE_SIG_RECV) s = (r, s\<lparr>sim_world := world\<rparr>)"
    using post_watcher_frame by blast
  let ?s = "s\<lparr>sim_world := world, send_cnt := send_cnt s + 1\<rparr>"
  obtain r' q where q: "post_5 P (sig_event SIMULATE_SIG_IDLE) (Some ?s) = (r', Some (?s\<lparr>msg_q := q\<rparr>))"
    "q = None \<longleftrightarrow> msg_q ?s = None"
    by (rule post_5_frame)
  show ?thesis
  proof (cases "(send_cnt s + 1) smod 5 = 0")
    case True
    then show ?thesis using w q by (intro exI [of _ world] exI [of _ q]) (simp add: do_send_def)
  next
    case False
    then show ?thesis using w by (intro exI [of _ world] exI [of _ "msg_q s"]) (simp add: do_send_def)
  qed
qed

lemma do_period_frame:
  assumes "sp_timer_stop P = linux_timer_stop" and "sim_wf s"
  shows "\<exists>r s'. do_period P self s = Some (r, s') \<and> sim_wf s' \<and> hsm_current s' = hsm_current s \<and>
    watcher s' = watcher s \<and> msg_q s' = msg_q s"
proof -
  obtain r world where w: "post_watcher P (sig_event SIMULATE_SIG_SEND) s = (r, s\<lparr>sim_world := world\<rparr>)"
    using post_watcher_frame by blast
  show ?thesis
    using assms w
    by (auto simp: do_period_def osa_hsm_active_period_def linux_timer_stop_def osa_timer_stop_def sim_wf_def Let_def
        split: option.splits)
qed

section \<open>Properties\<close>

text \<open>
  C29. The machines of the example are well formed for ever: in each of its three states a machine with
  a valid timer handle handles every event, the dispatch returns with two nested handler calls, and the
  machine is well formed again. It moves only from \<open>init\<close> to \<open>working\<close> and from \<open>working\<close> to \<open>idle\<close>,
  and \<open>idle\<close> is final: no event changes anything there.
\<close>

theorem sim_dispatch_sound:
  assumes "sim_wf s" and "sp_timer_stop P = linux_timer_stop"
  shows "\<exists>s'. STATE_DISPATCH sim_states (hsm_call (sim_code P self) (Suc (Suc n))) (hsm_current s) e s = Some (0, s') \<and>
    sim_wf s' \<and> watcher s' = watcher s \<and> (msg_q s' = None \<longleftrightarrow> msg_q s = None) \<and>
    (if hsm_current s = simulate_init_state then hsm_current s' = simulate_working_state \<and> cnt s' = 0
     else if hsm_current s = simulate_idle_state then s' = s
     else hsm_current s' =
       (if ev_signal e = SIMULATE_SIG_IDLE then simulate_idle_state else simulate_working_state))"
proof -
  consider "hsm_current s = simulate_init_state" | "hsm_current s = simulate_working_state"
    | "hsm_current s = simulate_idle_state"
    using assms(1) by (auto simp: sim_wf_def)
  then show ?thesis
  proof cases
    case 1
    then show ?thesis
      using assms(1) by (simp add: STATE_DISPATCH_def simulate_init_state_handler_def sim_wf_def del: hsm_call.simps(2)
          add: hsm_call.simps(2) [of _ "Suc n"])
  next
    case 2
    obtain r s1 where p: "do_period P self s = Some (r, s1)" "sim_wf s1" "hsm_current s1 = hsm_current s"
      "watcher s1 = watcher s" "msg_q s1 = msg_q s"
      using do_period_frame [OF assms(2,1)] by blast
    obtain world q where d: "snd (do_send P s) = s\<lparr>sim_world := world, send_cnt := send_cnt s + 1, msg_q := q\<rparr>"
      "q = None \<longleftrightarrow> msg_q s = None"
      using do_send_frame [of P s] by auto
    show ?thesis
      using 2 p d assms(1)
      by (simp add: STATE_DISPATCH_def simulate_working_state_handler_def sim_wf_def c_consts del: hsm_call.simps(2)
          add: hsm_call.simps(2) [of _ "Suc n"])
  next
    case 3
    then show ?thesis
      using assms(1) by (simp add: STATE_DISPATCH_def simulate_state_idle_handler_def del: hsm_call.simps(2)
          add: hsm_call.simps(2) [of _ "Suc n"])
  qed
qed

definition sample_platform :: "timer_sys sim_platform" where
  "sample_platform = \<lparr>sp_timer_create = linux_timer_create 100 1, sp_timer_stop = linux_timer_stop, sp_tick = 50,
     sp_pad = (\<lambda>_. 0), sp_now = \<lparr>tv_sec = 0, tv_nsec = 0\<rparr>, sp_slept = (\<lambda>q. (- ETIMEDOUT, q))\<rparr>"

text \<open>The second machine of the example, just started: the watcher at address 9 has a queue of 20.\<close>

definition sample_queue :: "osa_queue_impl option" where
  "sample_queue = snd (osa_queue_create True (Some ''q'') sizeof_hsm_event 20 True True)"

definition sample_sim :: "timer_sys hsm_simulate" where
  "sample_sim = \<lparr>hsm_error = 0, hsm_current = simulate_working_state, hsm_histroy = simulate_init_state,
     hsm_name = Some ''thread2'', task_ref = 1, msg_q = sample_queue, msg_q_size = 20, timer_id = 0, tick_period = 0,
     watcher = 9, cnt = 0, send_cnt = 0, sim_world = [9 \<mapsto> sample_hsm\<lparr>msg_q := sample_queue\<rparr>],
     sim_timers = \<lparr>tm_heap = Map.empty, tm_kernel = Map.empty\<rparr>\<rparr>"

lemma sample_queue_running:
  "hsm_running (sample_hsm\<lparr>msg_q := sample_queue\<rparr>)" "hsm_pending (sample_hsm\<lparr>msg_q := sample_queue\<rparr>) = []"
  "hsm_queue_cap (sample_hsm\<lparr>msg_q := sample_queue\<rparr>) = 20"
  "hsm_running sample_sim" "hsm_pending sample_sim = []" "hsm_queue_cap sample_sim = 20"
  by (simp_all add: sample_sim_def sample_queue_def hsm_running_def hsm_pending_def hsm_queue_cap_def
      osa_queue_create_def open_inv_def queue_inv_def queue_contents_def queue_cap_def sizeof_hsm_event_def)

theorem sim_dispatch_sound_witness:
  "\<exists>s'. STATE_DISPATCH sim_states (hsm_call (sim_code sample_platform 8) (Suc (Suc 0))) simulate_working_state
      (sig_event SIMULATE_SIG_IDLE) sample_sim = Some (0, s') \<and> hsm_current s' = simulate_idle_state"
proof -
  have "sim_wf sample_sim" "sp_timer_stop sample_platform = linux_timer_stop"
    by (simp_all add: sim_wf_def sample_sim_def sample_platform_def)
  from sim_dispatch_sound [OF this, of 8 0 "sig_event SIMULATE_SIG_IDLE"] show ?thesis
    by (auto simp: sample_sim_def sig_event_def sim_addr_defs)
qed

text \<open>
  A tick of the periodic timer in \<open>working\<close>, with room at the watcher: the watcher has one more event
  to handle, \<^verbatim>\<open>SIMULATE_SIG_SEND\<close>, and the tick is counted; from the twelfth tick on the machine stops its
  timer, and no other.
\<close>

theorem sim_period_spec:
  assumes "hsm_current s = simulate_working_state" and "watcher_room s (Suc k)"
    and "sp_timer_stop P = linux_timer_stop" and "timer_id s \<noteq> NULL"
    and "tm_heap (sim_timers s) (timer_id s) = Some t"
  shows "\<exists>s'. STATE_DISPATCH sim_states (hsm_call (sim_code P self) (Suc n)) (hsm_current s)
      (sig_event HSM_SIG_PERIOD) s = Some (0, s') \<and>
    watcher_pending s' = watcher_pending s @ [event_bytes (sp_pad P) (sig_event SIMULATE_SIG_SEND)] \<and>
    watcher_room s' k \<and> hsm_current s' = simulate_working_state \<and> msg_q s' = msg_q s \<and> cnt s' = cnt s + 1 \<and>
    (\<forall>i. armed (sim_timers s') i \<longleftrightarrow> armed (sim_timers s) i \<and> (cnt s \<le> 10 \<or> i \<noteq> tm_timer_id t))"
proof -
  obtain world where w: "post_watcher P (sig_event SIMULATE_SIG_SEND) s = (0, s\<lparr>sim_world := world\<rparr>)"
    "watcher_room (s\<lparr>sim_world := world\<rparr>) k"
    "watcher_pending (s\<lparr>sim_world := world\<rparr>) = watcher_pending s @ [event_bytes (sp_pad P) (sig_event SIMULATE_SIG_SEND)]"
    by (rule post_watcher_room [OF assms(2)])
  let ?s = "s\<lparr>sim_world := world, cnt := cnt s + 1\<rparr>"
  have disp: "STATE_DISPATCH sim_states (hsm_call (sim_code P self) (Suc n)) (hsm_current s)
      (sig_event HSM_SIG_PERIOD) s = map_option (\<lambda>(_, s). (0, s)) (do_period P self s)"
    using assms(1) by (simp add: STATE_DISPATCH_def simulate_working_state_handler_def sig_event_def c_consts)
  show ?thesis
  proof (cases "cnt s > 10")
    case True
    obtain sys where sys: "osa_hsm_active_period (sp_timer_create P) linux_timer_stop (sp_tick P) self (Some ?s) 0 (sim_timers ?s) =
        Some (0, Some (?s\<lparr>tick_period := 0\<rparr>), sys)"
      "\<not> armed sys (tm_timer_id t)" "\<And>i. i \<noteq> tm_timer_id t \<Longrightarrow> armed sys i = armed (sim_timers s) i"
      using period_stop [of ?s "sim_timers ?s" t "sp_timer_create P" "sp_tick P" self] assms(4,5) by auto
    then have "do_period P self s = Some (0, ?s\<lparr>tick_period := 0, sim_timers := sys\<rparr>)"
      using w(1) True assms(3) by (simp add: do_period_def)
    moreover have "armed sys i \<longleftrightarrow> armed (sim_timers s) i \<and> i \<noteq> tm_timer_id t" for i
      using sys(2,3) by (cases "i = tm_timer_id t") auto
    ultimately show ?thesis
      using disp w(2,3) assms(1) True by (simp add: watcher_pending_def watcher_room_def)
  next
    case False
    then have "do_period P self s = Some (0, ?s)"
      using w(1) by (simp add: do_period_def)
    then show ?thesis
      using disp w(2,3) assms(1) False by (simp add: watcher_pending_def watcher_room_def)
  qed
qed

theorem sim_period_spec_witness:
  "\<exists>s'. STATE_DISPATCH sim_states (hsm_call (sim_code sample_platform 8) (Suc 0)) simulate_working_state
      (sig_event HSM_SIG_PERIOD) (sample_sim\<lparr>timer_id := 100, cnt := 11, sim_timers :=
        \<lparr>tm_heap = [100 \<mapsto> \<lparr>tm_timer_id = 1, tm_callback = 50, tm_arg = 8, tm_active = True\<rparr>], tm_kernel = Map.empty\<rparr>\<rparr>) =
      Some (0, s') \<and> \<not> armed (sim_timers s') 1 \<and> length (watcher_pending s') = 1"
proof -
  let ?t = "\<lparr>tm_timer_id = 1, tm_callback = 50, tm_arg = 8, tm_active = True\<rparr> :: osa_timer_impl"
  let ?s = "sample_sim\<lparr>timer_id := 100, cnt := 11, sim_timers := \<lparr>tm_heap = [100 \<mapsto> ?t], tm_kernel = Map.empty\<rparr>\<rparr>"
  have "hsm_current ?s = simulate_working_state" "watcher_room ?s (Suc 0)"
    "sp_timer_stop sample_platform = linux_timer_stop" "timer_id ?s \<noteq> NULL"
    "tm_heap (sim_timers ?s) (timer_id ?s) = Some ?t"
    using sample_queue_running(1-3) by (simp_all add: sample_sim_def sample_platform_def watcher_room_def)
  from sim_period_spec [OF this, of 8 0] show ?thesis
    using sample_queue_running(2) by (auto simp: sample_sim_def watcher_pending_def)
qed

text \<open>One \<^verbatim>\<open>SIMULATE_SIG_SEND\<close>: the watcher is answered, and every fifth time the machine tells itself to become idle.\<close>

lemma sim_send_step:
  assumes "hsm_current s = simulate_working_state" and "hsm_running s" and "watcher_room s (Suc k)"
    and "length (hsm_pending s) < hsm_queue_cap s" and "0 \<le> send_cnt s"
  obtains s' where "STATE_DISPATCH sim_states (hsm_call (sim_code P self) (Suc n)) simulate_working_state
      (sig_event SIMULATE_SIG_SEND) s = Some (0, s')"
    "hsm_current s' = simulate_working_state" "hsm_running s'" "watcher_room s' k" "send_cnt s' = send_cnt s + 1"
    "watcher_pending s' = watcher_pending s @ [event_bytes (sp_pad P) (sig_event SIMULATE_SIG_RECV)]"
    "hsm_queue_cap s' = hsm_queue_cap s"
    "hsm_pending s' = hsm_pending s @
      (if (send_cnt s + 1) mod 5 = 0 then [event_bytes (sp_pad P) (sig_event SIMULATE_SIG_IDLE)] else [])"
proof -
  obtain world where w: "post_watcher P (sig_event SIMULATE_SIG_RECV) s = (0, s\<lparr>sim_world := world\<rparr>)"
    "watcher_room (s\<lparr>sim_world := world\<rparr>) k"
    "watcher_pending (s\<lparr>sim_world := world\<rparr>) = watcher_pending s @ [event_bytes (sp_pad P) (sig_event SIMULATE_SIG_RECV)]"
    by (rule post_watcher_room [OF assms(3)])
  let ?s = "s\<lparr>sim_world := world, send_cnt := send_cnt s + 1\<rparr>"
  have fr: "hsm_running ?s = hsm_running s" "hsm_pending ?s = hsm_pending s" "hsm_queue_cap ?s = hsm_queue_cap s"
    by (simp_all add: hsm_running_def hsm_pending_def hsm_queue_cap_def)
  obtain q where q: "post_5 P (sig_event SIMULATE_SIG_IDLE) (Some ?s) = (0, Some (?s\<lparr>msg_q := Some q\<rparr>))"
    "hsm_running (?s\<lparr>msg_q := Some q\<rparr>)"
    "hsm_pending (?s\<lparr>msg_q := Some q\<rparr>) = hsm_pending s @ [event_bytes (sp_pad P) (sig_event SIMULATE_SIG_IDLE)]"
    "hsm_queue_cap (?s\<lparr>msg_q := Some q\<rparr>) = hsm_queue_cap s"
    by (rule post_5_room [of ?s]) (use assms(2,4) fr in auto)
  have disp: "STATE_DISPATCH sim_states (hsm_call (sim_code P self) (Suc n)) simulate_working_state
      (sig_event SIMULATE_SIG_SEND) s = Some (0, snd (do_send P s))"
    by (simp add: STATE_DISPATCH_def simulate_working_state_handler_def sig_event_def c_consts)
  show ?thesis
  proof (cases "(send_cnt s + 1) mod 5 = 0")
    case True
    then have "snd (do_send P s) = ?s\<lparr>msg_q := Some q\<rparr>"
      using w(1) q(1) assms(5) by (simp add: do_send_def smod_nonneg)
    then show ?thesis
      using disp w(2,3) q True assms(1)
      by (intro that [of "?s\<lparr>msg_q := Some q\<rparr>"]) (simp_all add: watcher_room_def watcher_pending_def)
  next
    case False
    then have "snd (do_send P s) = ?s"
      using w(1) assms(5) by (simp add: do_send_def smod_nonneg)
    then show ?thesis
      using disp w(2,3) False assms(1,2) fr
      by (intro that [of ?s]) (simp_all add: watcher_room_def watcher_pending_def)
  qed
qed

lemma sig_event_valid: "c_int sig \<Longrightarrow> valid_event (sig_event sig)"
  by (simp add: valid_event_def sig_event_def c_int_def)

lemma bytes_sig_event [simp]:
  "bytes_event (event_bytes pad (sig_event SIMULATE_SIG_SEND)) = sig_event SIMULATE_SIG_SEND"
  "bytes_event (event_bytes pad (sig_event SIMULATE_SIG_IDLE)) = sig_event SIMULATE_SIG_IDLE"
  by (rule bytes_event_bytes, rule sig_event_valid, simp add: c_int_def c_consts)+

text \<open>The end of the run: the machine's own event makes it idle.\<close>

lemma drain_idle:
  assumes "hsm_current s = simulate_working_state" and "hsm_running s"
    and "hsm_pending s = [event_bytes pad (sig_event SIMULATE_SIG_IDLE)]"
  obtains tr s' where
    "hsm_drain sim_states (sim_code P self) (Suc (Suc n)) now 1 s = (tr, Some s')"
    "map snd tr = [sig_event SIMULATE_SIG_IDLE]" "hsm_current s' = simulate_idle_state" "hsm_running s'"
    "hsm_pending s' = []" "watcher_pending s' = watcher_pending s"
proof -
  obtain q where q: "run_iter sim_states (sim_code P self) (Suc (Suc n)) now s =
      Return (Some (hsm_current s, bytes_event (event_bytes pad (sig_event SIMULATE_SIG_IDLE))),
        map_option snd (STATE_DISPATCH sim_states (hsm_call (sim_code P self) (Suc (Suc n))) (hsm_current s)
          (bytes_event (event_bytes pad (sig_event SIMULATE_SIG_IDLE))) (s\<lparr>msg_q := Some q\<rparr>)))"
    "hsm_running (s\<lparr>msg_q := Some q\<rparr>)" "hsm_pending (s\<lparr>msg_q := Some q\<rparr>) = []"
    by (rule run_iter_dispatch [OF assms(2,3)])
  let ?s = "s\<lparr>msg_q := Some q, hsm_histroy := simulate_working_state, hsm_current := simulate_idle_state, hsm_error := 0\<rparr>"
  have "STATE_DISPATCH sim_states (hsm_call (sim_code P self) (Suc (Suc n))) (hsm_current s)
      (sig_event SIMULATE_SIG_IDLE) (s\<lparr>msg_q := Some q\<rparr>) = Some (0, ?s)"
    using assms(1) by (simp add: STATE_DISPATCH_def simulate_working_state_handler_def c_consts sig_event_def
        del: hsm_call.simps(2) add: hsm_call.simps(2) [of _ "Suc n"])
  moreover have run: "hsm_running ?s" "hsm_pending ?s = []"
    using q(2,3) by (simp_all add: hsm_running_def hsm_pending_def)
  ultimately show ?thesis
    using q(1) assms(1) run_iter_empty [OF run, of sim_states "sim_code P self" "Suc (Suc n)" now]
    by (intro that [of "[(simulate_working_state, sig_event SIMULATE_SIG_IDLE)]" ?s])
      (simp_all add: watcher_pending_def)
qed

text \<open>One turn of the dispatcher on a \<^verbatim>\<open>SIMULATE_SIG_SEND\<close>.\<close>

lemma send_turn:
  assumes "hsm_current s = simulate_working_state" and "hsm_running s" and "0 \<le> send_cnt s"
    and "hsm_pending s = event_bytes pad (sig_event SIMULATE_SIG_SEND) # ms" and "watcher_room s (Suc k)"
  obtains s' where "run_iter sim_states (sim_code P self) (Suc n) now s =
      Return (Some (simulate_working_state, sig_event SIMULATE_SIG_SEND), Some s')"
    "hsm_current s' = simulate_working_state" "hsm_running s'" "watcher_room s' k" "send_cnt s' = send_cnt s + 1"
    "watcher_pending s' = watcher_pending s @ [event_bytes (sp_pad P) (sig_event SIMULATE_SIG_RECV)]"
    "hsm_pending s' = ms @
      (if (send_cnt s + 1) mod 5 = 0 then [event_bytes (sp_pad P) (sig_event SIMULATE_SIG_IDLE)] else [])"
proof -
  obtain q where q: "run_iter sim_states (sim_code P self) (Suc n) now s =
      Return (Some (hsm_current s, bytes_event (event_bytes pad (sig_event SIMULATE_SIG_SEND))),
        map_option snd (STATE_DISPATCH sim_states (hsm_call (sim_code P self) (Suc n)) (hsm_current s)
          (bytes_event (event_bytes pad (sig_event SIMULATE_SIG_SEND))) (s\<lparr>msg_q := Some q\<rparr>)))"
    "hsm_running (s\<lparr>msg_q := Some q\<rparr>)" "hsm_pending (s\<lparr>msg_q := Some q\<rparr>) = ms"
    "hsm_queue_cap (s\<lparr>msg_q := Some q\<rparr>) = hsm_queue_cap s"
    by (rule run_iter_dispatch [OF assms(2,4)])
  let ?s = "s\<lparr>msg_q := Some q\<rparr>"
  have "length (hsm_pending s) \<le> hsm_queue_cap s"
    using assms(2) ring.bounded by (auto simp: hsm_running_def hsm_pending_def hsm_queue_cap_def split: option.splits)
  then have room: "length (hsm_pending ?s) < hsm_queue_cap ?s"
    using q(3,4) assms(4) by simp
  have w: "hsm_current ?s = simulate_working_state" "watcher_room ?s (Suc k)" "0 \<le> send_cnt ?s"
    "watcher_pending ?s = watcher_pending s" "send_cnt ?s = send_cnt s"
    using assms by (simp_all add: watcher_room_def watcher_pending_def)
  show ?thesis
    by (rule sim_send_step [OF w(1) q(2) w(2) room w(3), of P self n])
      (rule that, use q(1) assms(1) in simp, simp_all only: q(3) w(4,5))
qed

lemma drain_sends:
  assumes "hsm_current s = simulate_working_state" and "hsm_running s" and "k < 5" and "0 \<le> send_cnt s"
    and "hsm_pending s = replicate (Suc k) (event_bytes pad (sig_event SIMULATE_SIG_SEND))"
    and "(send_cnt s + int (Suc k)) mod 5 = 0" and "watcher_room s (Suc k)"
  shows "\<exists>tr s'. hsm_drain sim_states (sim_code P self) (Suc (Suc n)) now (Suc (Suc k)) s = (tr, Some s') \<and>
    map snd tr = replicate (Suc k) (sig_event SIMULATE_SIG_SEND) @ [sig_event SIMULATE_SIG_IDLE] \<and>
    hsm_current s' = simulate_idle_state \<and> hsm_running s' \<and> hsm_pending s' = [] \<and>
    watcher_pending s' = watcher_pending s @ replicate (Suc k) (event_bytes (sp_pad P) (sig_event SIMULATE_SIG_RECV))"
  using assms
proof (induction k arbitrary: s)
  case (0 s)
  obtain s1 where s1: "run_iter sim_states (sim_code P self) (Suc (Suc n)) now s =
      Return (Some (simulate_working_state, sig_event SIMULATE_SIG_SEND), Some s1)"
    "hsm_current s1 = simulate_working_state" "hsm_running s1"
    "watcher_pending s1 = watcher_pending s @ [event_bytes (sp_pad P) (sig_event SIMULATE_SIG_RECV)]"
    "hsm_pending s1 = [event_bytes (sp_pad P) (sig_event SIMULATE_SIG_IDLE)]"
    by (rule send_turn [OF 0(1,2,4), where k = 0 and ms = "[]" and pad = pad]) (use 0 in auto)
  obtain tr s' where "hsm_drain sim_states (sim_code P self) (Suc (Suc n)) now 1 s1 = (tr, Some s')"
    "map snd tr = [sig_event SIMULATE_SIG_IDLE]" "hsm_current s' = simulate_idle_state" "hsm_running s'"
    "hsm_pending s' = []" "watcher_pending s' = watcher_pending s1"
    by (rule drain_idle [OF s1(2,3,5)])
  with s1 show ?case by simp
next
  case (Suc k s)
  have c: "(send_cnt s + 1) mod 5 \<noteq> 0"
    using Suc.prems(3,6) by presburger
  obtain s1 where s1: "run_iter sim_states (sim_code P self) (Suc (Suc n)) now s =
      Return (Some (simulate_working_state, sig_event SIMULATE_SIG_SEND), Some s1)"
    "hsm_current s1 = simulate_working_state" "hsm_running s1" "watcher_room s1 (Suc k)" "send_cnt s1 = send_cnt s + 1"
    "watcher_pending s1 = watcher_pending s @ [event_bytes (sp_pad P) (sig_event SIMULATE_SIG_RECV)]"
    "hsm_pending s1 = replicate (Suc k) (event_bytes pad (sig_event SIMULATE_SIG_SEND))"
    by (rule send_turn [OF Suc.prems(1,2,4), where k = "Suc k" and pad = pad
          and ms = "replicate (Suc k) (event_bytes pad (sig_event SIMULATE_SIG_SEND))"])
      (use Suc.prems c in auto)
  have "k < 5" "0 \<le> send_cnt s1" "(send_cnt s1 + int (Suc k)) mod 5 = 0"
    using Suc.prems(3,4,6) s1(5) by (simp_all add: algebra_simps)
  from Suc.IH [OF s1(2,3) this(1,2) s1(7) this(3) s1(4)] show ?case
    using s1(1,6) by auto
qed

text \<open>
  Five \<^verbatim>\<open>SIMULATE_SIG_SEND\<close> events put a machine to rest: the dispatcher handles them in turn, answers
  each with a \<^verbatim>\<open>SIMULATE_SIG_RECV\<close> to the watcher, handles the \<^verbatim>\<open>SIMULATE_SIG_IDLE\<close> that the machine posted to
  itself with the fifth, and sleeps on its empty queue, in the state \<open>idle\<close>.
\<close>

theorem sim_goes_idle:
  assumes "hsm_current s = simulate_working_state" and "hsm_running s" and "0 \<le> send_cnt s"
    and "send_cnt s mod 5 = 0" and "watcher_room s 5"
    and "hsm_pending s = replicate 5 (event_bytes pad (sig_event SIMULATE_SIG_SEND))"
  shows "\<exists>tr s'. hsm_drain sim_states (sim_code P self) (Suc (Suc n)) now 6 s = (tr, Some s') \<and>
    map snd tr = replicate 5 (sig_event SIMULATE_SIG_SEND) @ [sig_event SIMULATE_SIG_IDLE] \<and>
    hsm_current s' = simulate_idle_state \<and> hsm_running s' \<and> hsm_pending s' = [] \<and>
    watcher_pending s' = watcher_pending s @ replicate 5 (event_bytes (sp_pad P) (sig_event SIMULATE_SIG_RECV))"
proof -
  have n: "Suc 4 = 5" "Suc (Suc 4) = 6" by simp_all
  from drain_sends [OF assms(1,2) _ assms(3), of 4 pad P self n now, unfolded n] assms(4-6) show ?thesis by simp
qed

text \<open>The sample machine after five posts.\<close>

lemma post_sends:
  fixes P :: "'t sim_platform"
  assumes "hsm_running s" and "length (hsm_pending s) + k \<le> hsm_queue_cap s"
  shows "\<exists>q. hsm_running (s\<lparr>msg_q := q\<rparr>) \<and> hsm_queue_cap (s\<lparr>msg_q := q\<rparr>) = hsm_queue_cap s \<and>
    hsm_pending (s\<lparr>msg_q := q\<rparr>) = hsm_pending s @ replicate k (event_bytes (sp_pad P) e)"
  using assms(2)
proof (induction k)
  case 0
  have "s\<lparr>msg_q := msg_q s\<rparr> = s" by simp
  then show ?case using assms(1) by (metis append_Nil2 replicate_0)
next
  case (Suc k)
  then obtain q where q: "hsm_running (s\<lparr>msg_q := q\<rparr>)" "hsm_queue_cap (s\<lparr>msg_q := q\<rparr>) = hsm_queue_cap s"
    "hsm_pending (s\<lparr>msg_q := q\<rparr>) = hsm_pending s @ replicate k (event_bytes (sp_pad P) e)"
    by auto
  obtain q' where "hsm_running (s\<lparr>msg_q := q\<rparr>\<lparr>msg_q := Some q'\<rparr>)"
    "hsm_queue_cap (s\<lparr>msg_q := q\<rparr>\<lparr>msg_q := Some q'\<rparr>) = hsm_queue_cap s"
    "hsm_pending (s\<lparr>msg_q := q\<rparr>\<lparr>msg_q := Some q'\<rparr>) =
      hsm_pending s @ replicate k (event_bytes (sp_pad P) e) @ [event_bytes (sp_pad P) e]"
    using post_5_room [OF q(1), of P e] q(2,3) Suc.prems by auto
  then show ?case
    by (intro exI [of _ "Some q'"]) (simp add: replicate_append_same)
qed

theorem sim_goes_idle_witness:
  "\<exists>q tr s'. hsm_drain sim_states (sim_code sample_platform 8) (Suc (Suc 0)) \<lparr>tv_sec = 0, tv_nsec = 0\<rparr> 6
      (sample_sim\<lparr>msg_q := q\<rparr>) = (tr, Some s') \<and> length tr = 6 \<and> hsm_current s' = simulate_idle_state \<and>
    length (watcher_pending s') = 5"
proof -
  obtain q where q: "hsm_running (sample_sim\<lparr>msg_q := q\<rparr>)" "hsm_pending (sample_sim\<lparr>msg_q := q\<rparr>) =
      replicate 5 (event_bytes (sp_pad sample_platform) (sig_event SIMULATE_SIG_SEND))"
    using post_sends [OF sample_queue_running(4), of 5 sample_platform "sig_event SIMULATE_SIG_SEND"]
      sample_queue_running(5,6) by auto
  have "hsm_current (sample_sim\<lparr>msg_q := q\<rparr>) = simulate_working_state" "0 \<le> send_cnt (sample_sim\<lparr>msg_q := q\<rparr>)"
    "send_cnt (sample_sim\<lparr>msg_q := q\<rparr>) mod 5 = 0" "watcher_room (sample_sim\<lparr>msg_q := q\<rparr>) 5"
    "watcher_pending (sample_sim\<lparr>msg_q := q\<rparr>) = []"
    using sample_queue_running(1-3) by (simp_all add: sample_sim_def watcher_room_def watcher_pending_def)
  from sim_goes_idle [OF this(1) q(1) this(2-4) q(2), of sample_platform 8 0 "\<lparr>tv_sec = 0, tv_nsec = 0\<rparr>"] this(5)
  obtain tr s' where run: "hsm_drain sim_states (sim_code sample_platform 8) (Suc (Suc 0)) \<lparr>tv_sec = 0, tv_nsec = 0\<rparr> 6
      (sample_sim\<lparr>msg_q := q\<rparr>) = (tr, Some s')"
    "map snd tr = replicate 5 (sig_event SIMULATE_SIG_SEND) @ [sig_event SIMULATE_SIG_IDLE]"
    "hsm_current s' = simulate_idle_state"
    "watcher_pending s' = replicate 5 (event_bytes (sp_pad sample_platform) (sig_event SIMULATE_SIG_RECV))"
    by auto
  have "length tr = 6"
    using arg_cong [OF run(2), of length] by simp
  with run show ?thesis by (intro exI [of _ q]) auto
qed

end
