(* ===== verification/Simulate_System.thy ===== *)
theory Simulate_System
  imports Simulate_Example
begin

text \<open>
  The program of \<^verbatim>\<open>examples/linux/hsm_simulate.c\<close> as a whole: its \<^verbatim>\<open>main\<close> function, the dispatcher threads of the two
  machines and the periodic timer of the first, in every interleaving. A turn of a dispatcher is two steps, the
  receive and the dispatch (\<open>run_iter_split\<close>): a handler that sleeps on the full queue of its watcher, having
  changed nothing yet, is one that waits between the two, until there is room, or gives up after 5 ms. The posts of one
  dispatch are one step. An expiry of the timer and the call of its handler are two steps, so that
  calls may be under way when the timer is stopped.

  The lemmas: which events reach which machine, what the counters count, that all comes to an end when the
  timer stops, and how.
\<close>

section \<open>State\<close>

datatype machine = One | Two

fun other :: "machine \<Rightarrow> machine" where
  "other One = Two"
| "other Two = One"

text \<open>The addresses of \<^verbatim>\<open>g_simulate1\<close> and \<^verbatim>\<open>g_simulate2\<close>.\<close>

fun sim_addr :: "machine \<Rightarrow> ptr" where
  "sim_addr One = 4096"
| "sim_addr Two = 8192"

text \<open>A dispatcher before its loop, at the receive, with an event it has received, and one that is not there.\<close>

datatype disp_pc = D_start | D_loop | D_got hsm_event | D_exit

text \<open>
  The machines, their dispatchers, the timers, the timers that expired and whose handler has not run yet, and whether a handler
  posted to a queue that was full or not there yet.
\<close>

record sim_sys =
  ss_obj :: "machine \<Rightarrow> timer_sys hsm_simulate"
  ss_pc :: "machine \<Rightarrow> disp_pc"
  ss_timers :: timer_sys
  ss_expired :: "ptr list"
  ss_lost :: bool

text \<open>A machine sees the queue of its watcher and the timers, and changes them.\<close>

definition sim_load :: "machine \<Rightarrow> sim_sys \<Rightarrow> timer_sys hsm_simulate" where
  "sim_load w S = (ss_obj S w)\<lparr>sim_world := [sim_addr (other w) \<mapsto> osa_hsm_active.truncate (ss_obj S (other w))],
     sim_timers := ss_timers S\<rparr>"

definition sim_store :: "machine \<Rightarrow> timer_sys hsm_simulate \<Rightarrow> sim_sys \<Rightarrow> sim_sys" where
  "sim_store w s S =
    (let v = ss_obj S (other w);
         q = (case sim_world s (sim_addr (other w)) of None \<Rightarrow> msg_q v | Some h \<Rightarrow> msg_q h)
     in S\<lparr>ss_obj := (ss_obj S)(w := s, other w := v\<lparr>msg_q := q\<rparr>), ss_timers := sim_timers s\<rparr>)"

section \<open>The steps\<close>

definition sim_depth :: nat where "sim_depth = Suc (Suc 0)"

definition disp_start :: "timer_sys sim_platform \<Rightarrow> string \<Rightarrow> bool \<Rightarrow> bool \<Rightarrow> machine \<Rightarrow> sim_sys \<Rightarrow> sim_sys option" where
  "disp_start P pid cq cb w S =
    (if ss_pc S w = D_start
     then (case osa_hsm_active_run_init sim_states (sim_code P (sim_addr w)) sim_depth pid cq cb (sim_load w S) of
             None \<Rightarrow> None
           | Some (go, s) \<Rightarrow> Some ((sim_store w s S)\<lparr>ss_pc := (ss_pc S)(w := if go then D_loop else D_exit)\<rparr>))
     else None)"

definition disp_receive :: "timespec \<Rightarrow> machine \<Rightarrow> sim_sys \<Rightarrow> sim_sys option" where
  "disp_receive now w S =
    (if ss_pc S w = D_loop
     then (case osa_queue_receive (msg_q (ss_obj S w)) True sizeof_hsm_event (-1) now of
             Park _ \<Rightarrow> None
           | Return (ret, m, q) \<Rightarrow>
               let S1 = S\<lparr>ss_obj := (ss_obj S)(w := (ss_obj S w)\<lparr>msg_q := q\<rparr>)\<rparr>
               in Some (if ret \<noteq> 0 then S1 else S1\<lparr>ss_pc := (ss_pc S)(w := D_got (bytes_event (the m)))\<rparr>))
     else None)"

text \<open>Whether the handler of an event posts to a queue without room (in the state \<open>idle\<close> no event makes it post).\<close>

definition posts_in_vain :: "machine \<Rightarrow> hsm_event \<Rightarrow> sim_sys \<Rightarrow> bool" where
  "posts_in_vain w e S \<longleftrightarrow>
    hsm_current (ss_obj S w) = simulate_working_state \<and>
    (ev_signal e \<in> {HSM_SIG_PERIOD, SIMULATE_SIG_SEND} \<and> \<not> queue_room (ss_obj S (other w)) \<or>
     ev_signal e = SIMULATE_SIG_SEND \<and> \<not> queue_room (ss_obj S w))"

definition disp_handle :: "timer_sys sim_platform \<Rightarrow> machine \<Rightarrow> sim_sys \<Rightarrow> sim_sys option" where
  "disp_handle P w S =
    (case ss_pc S w of
       D_got e \<Rightarrow>
         (case STATE_DISPATCH sim_states (hsm_call (sim_code P (sim_addr w)) sim_depth) (hsm_current (ss_obj S w)) e (sim_load w S) of
            None \<Rightarrow> None
          | Some (_, s) \<Rightarrow>
              Some ((sim_store w s S)\<lparr>ss_pc := (ss_pc S)(w := D_loop), ss_lost := (ss_lost S \<or> posts_in_vain w e S)\<rparr>))
     | _ \<Rightarrow> None)"

text \<open>The handler of the timer that expired first.\<close>

definition timer_called :: "timer_sys sim_platform \<Rightarrow> timespec \<Rightarrow> sim_sys \<Rightarrow> sim_sys option" where
  "timer_called P now S =
    (case ss_expired S of
       [] \<Rightarrow> None
     | h # hs \<Rightarrow>
         let S1 = S\<lparr>ss_expired := hs\<rparr>;
             tick = (\<lambda>w. case oas_hsm_timer_handler (sp_pad P) now (Some (ss_obj S w)) of
                       None \<Rightarrow> S1 | Some s \<Rightarrow> S1\<lparr>ss_obj := (ss_obj S)(w := s)\<rparr>)
         in Some (case posix_timer_callback (ss_timers S) h of
                    None \<Rightarrow> S1
                  | Some (fn, arg) \<Rightarrow>
                      if fn \<noteq> sp_tick P then S1
                      else if arg = sim_addr One then tick One
                      else if arg = sim_addr Two then tick Two
                      else S1))"

inductive sim_move :: "timer_sys sim_platform \<Rightarrow> sim_sys \<Rightarrow> sim_sys \<Rightarrow> bool" for P where
  m_start: "disp_start P pid cq cb w S = Some S' \<Longrightarrow> sim_move P S S'"
| m_receive: "disp_receive now w S = Some S' \<Longrightarrow> sim_move P S S'"
| m_handle: "disp_handle P w S = Some S' \<Longrightarrow> sim_move P S S'"
| m_timer: "timer_called P now S = Some S' \<Longrightarrow> sim_move P S S'"

inductive sim_step :: "timer_sys sim_platform \<Rightarrow> sim_sys \<Rightarrow> sim_sys \<Rightarrow> bool" for P where
  s_move: "sim_move P S S' \<Longrightarrow> sim_step P S S'"
| s_expire: "tm_heap (ss_timers S) h = Some t \<Longrightarrow> armed (ss_timers S) (tm_timer_id t) \<Longrightarrow>
    sim_step P S (S\<lparr>ss_expired := ss_expired S @ [h]\<rparr>)"

section \<open>The program\<close>

definition zero_simulate :: "timer_sys hsm_simulate" where
  "zero_simulate = \<lparr>hsm_error = 0, hsm_current = NULL, hsm_histroy = NULL, hsm_name = None, task_ref = NULL, msg_q = None,
     msg_q_size = 0, timer_id = NULL, tick_period = 0, watcher = NULL, cnt = 0, send_cnt = 0, sim_world = Map.empty,
     sim_timers = \<lparr>tm_heap = Map.empty, tm_kernel = Map.empty\<rparr>\<rparr>"

text \<open>
  The set-up of \<^verbatim>\<open>main\<close>, which then sleeps for ever: what \<^verbatim>\<open>calloc\<close> and \<^verbatim>\<open>pthread_create\<close> answer for the thread of a machine
  are \<open>cal\<close> and \<open>crt\<close>. The results of \<^verbatim>\<open>simulate_create\<close> and of the timer are dropped. A machine has a dispatcher when its thread was created.
\<close>

definition simulate_main ::
  "timer_sys sim_platform \<Rightarrow> ptr \<Rightarrow> (machine \<Rightarrow> ptr) \<Rightarrow> (machine \<Rightarrow> thread_attr \<Rightarrow> ptr \<Rightarrow> ptr \<Rightarrow> int + nat) \<Rightarrow>
   thread_sys \<Rightarrow> timer_sys \<Rightarrow> sim_sys option" where
  "simulate_main P run_fn cal crt threads timers =
    (case simulate_create run_fn (sim_addr One) (cal One) (crt One)
            (zero_simulate\<lparr>hsm_name := Some ''thread1'', watcher := sim_addr Two\<rparr>) threads of
       (_, s1, threads1) \<Rightarrow>
         (case osa_hsm_active_period (sp_timer_create P) (sp_timer_stop P) (sp_tick P) (sim_addr One) s1 200 timers of
            Some (_, Some s1', timers') \<Rightarrow>
              (case simulate_create run_fn (sim_addr Two) (cal Two) (crt Two)
                      (zero_simulate\<lparr>hsm_name := Some ''thread2'', watcher := sim_addr One\<rparr>) threads1 of
                 (_, Some s2, threads2) \<Rightarrow>
                   let obj = (\<lambda>w. case w of One \<Rightarrow> s1' | Two \<Rightarrow> s2)
                   in Some \<lparr>ss_obj = obj, ss_pc = (\<lambda>w. if task_ref (obj w) = NULL then D_exit else D_start),
                            ss_timers = timers', ss_expired = [], ss_lost = False\<rparr>
               | _ \<Rightarrow> None)
          | _ \<Rightarrow> None))"

section \<open>A turn of the dispatcher\<close>

lemma other_simps [simp]: "other w \<noteq> w" "w \<noteq> other w" "other (other w) = w" "sim_addr (other w) \<noteq> sim_addr w"
  by (cases w; simp)+

lemma world_queue: "(s :: (timer_sys, 'a) hsm_simulate_scheme)\<lparr>sim_world := x, sim_timers := t, msg_q := q\<rparr> =
    s\<lparr>msg_q := q, sim_world := x, sim_timers := t\<rparr>"
  by (cases s) simp

text \<open>A receive and the dispatch that follows it are a turn of the loop.\<close>

theorem run_iter_split:
  assumes "ss_pc S w = D_loop" and "disp_receive now w S = Some S1" and "disp_handle P w S1 = Some S2"
    and "msg_q (ss_obj S w) \<noteq> None"
  shows "\<exists>d s. run_iter sim_states (sim_code P (sim_addr w)) sim_depth now (sim_load w S) = Return (Some d, Some s) \<and>
    ss_obj S2 = ss_obj (sim_store w s S1) \<and> ss_timers S2 = ss_timers (sim_store w s S1)"
  using assms
  by (auto simp: disp_receive_def disp_handle_def run_iter_def sim_load_def world_queue Let_def split: call.splits prod.splits if_splits
      option.splits disp_pc.splits)

section \<open>Posts\<close>

text \<open>A queue that is not there yet, or is open.\<close>

definition queue_ok :: "'a osa_hsm_active_scheme \<Rightarrow> bool" where
  "queue_ok hsm \<longleftrightarrow> msg_q hsm = None \<or> hsm_running hsm"

definition hsm_events :: "'a osa_hsm_active_scheme \<Rightarrow> hsm_event list" where
  "hsm_events hsm = map bytes_event (hsm_pending hsm)"

definition gives_up :: "'t sim_platform \<Rightarrow> bool" where
  "gives_up P \<longleftrightarrow> sp_slept P = (\<lambda>q. (- ETIMEDOUT, q))"

lemma post_5_no_room:
  assumes "gives_up P" and "hsm_running hsm" and "\<not> queue_room hsm"
  shows "post_5 P e (Some hsm) = (- ETIMEDOUT, Some hsm)"
proof -
  obtain q where q: "msg_q hsm = Some q" "open_inv q" "q_msg_size q = sizeof_hsm_event"
    using assms(2) by (auto simp: hsm_running_def split: option.splits)
  then have "queue_full q" and "\<not> q_closed q"
    using assms(3) ring.bounded [OF q(2)] queue_full_iff
    by (auto simp: hsm_pending_def hsm_queue_cap_def open_inv_def queue_room_def)
  then show ?thesis
    using assms(1) q
    by (simp add: post_5_def osa_hsm_active_event_post_def osa_queue_send_def queue_send_cases gives_up_def)
qed

lemma post_5_events:
  assumes "gives_up P" and "queue_ok hsm" and "valid_event e"
  obtains r q where "post_5 P e (Some hsm) = (r, Some (hsm\<lparr>msg_q := q\<rparr>))" "q = None \<longleftrightarrow> msg_q hsm = None"
    "queue_ok (hsm\<lparr>msg_q := q\<rparr>)" "hsm_queue_cap (hsm\<lparr>msg_q := q\<rparr>) = hsm_queue_cap hsm"
    "hsm_events (hsm\<lparr>msg_q := q\<rparr>) = hsm_events hsm @ (if queue_room hsm then [e] else [])"
proof -
  consider "msg_q hsm = None" | "hsm_running hsm" "queue_room hsm" | "hsm_running hsm" "\<not> queue_room hsm"
    using assms(2) by (auto simp: queue_ok_def)
  then show ?thesis
  proof cases
    case 1
    then have "post_5 P e (Some hsm) = (-1, Some (hsm\<lparr>msg_q := None\<rparr>))" "\<not> queue_room hsm"
      by (simp_all add: post_5_def osa_hsm_active_event_post_def queue_room_def hsm_queue_cap_def)
    with 1 show ?thesis
      by (intro that [of "-1" None]) (simp_all add: queue_ok_def hsm_events_def hsm_pending_def hsm_queue_cap_def)
  next
    case 2
    then have "length (hsm_pending hsm) < hsm_queue_cap hsm"
      by (simp add: queue_room_def)
    from post_5_room [OF 2(1) this, of P e]
    obtain q where q: "post_5 P e (Some hsm) = (0, Some (hsm\<lparr>msg_q := Some q\<rparr>))" "hsm_running (hsm\<lparr>msg_q := Some q\<rparr>)"
      "hsm_pending (hsm\<lparr>msg_q := Some q\<rparr>) = hsm_pending hsm @ [event_bytes (sp_pad P) e]"
      "hsm_queue_cap (hsm\<lparr>msg_q := Some q\<rparr>) = hsm_queue_cap hsm"
      by metis
    moreover have "msg_q hsm \<noteq> None"
      using 2(1) by (auto simp: hsm_running_def split: option.splits)
    ultimately show ?thesis
      using 2 bytes_event_bytes [OF assms(3)] by (intro that [of 0 "Some q"]) (simp_all add: queue_ok_def hsm_events_def)
  next
    case 3
    then have "post_5 P e (Some hsm) = (- ETIMEDOUT, Some (hsm\<lparr>msg_q := msg_q hsm\<rparr>))"
      using post_5_no_room [OF assms(1) 3] by simp
    with 3 assms(2) show ?thesis
      by (intro that [of "- ETIMEDOUT" "msg_q hsm"]) simp_all
  qed
qed

section \<open>The handlers in the system\<close>

lemma load_simps [simp]:
  "hsm_current (sim_load w S) = hsm_current (ss_obj S w)" "watcher (sim_load w S) = watcher (ss_obj S w)"
  "cnt (sim_load w S) = cnt (ss_obj S w)" "send_cnt (sim_load w S) = send_cnt (ss_obj S w)" "msg_q (sim_load w S) = msg_q (ss_obj S w)"
  "timer_id (sim_load w S) = timer_id (ss_obj S w)" "sim_timers (sim_load w S) = ss_timers S"
  "sim_world (sim_load w S) = [sim_addr (other w) \<mapsto> osa_hsm_active.truncate (ss_obj S (other w))]"
  by (simp_all add: sim_load_def)

lemma store_simps [simp]:
  "ss_obj (sim_store w s S) w = s" "ss_timers (sim_store w s S) = sim_timers s" "ss_pc (sim_store w s S) = ss_pc S"
  "ss_expired (sim_store w s S) = ss_expired S" "ss_lost (sim_store w s S) = ss_lost S"
  "ss_obj (sim_store w s S) (other w) = (ss_obj S (other w))\<lparr>msg_q :=
    (case sim_world s (sim_addr (other w)) of None \<Rightarrow> msg_q (ss_obj S (other w)) | Some h \<Rightarrow> msg_q h)\<rparr>"
  by (simp_all add: sim_store_def Let_def)

text \<open>A machine and the same machine after a post to it.\<close>

definition posted :: "'a osa_hsm_active_scheme \<Rightarrow> hsm_event list \<Rightarrow> 'a osa_hsm_active_scheme \<Rightarrow> bool" where
  "posted v es v' \<longleftrightarrow> v' = v\<lparr>msg_q := msg_q v'\<rparr> \<and> (msg_q v' = None \<longleftrightarrow> msg_q v = None) \<and> queue_ok v' \<and>
    hsm_queue_cap v' = hsm_queue_cap v \<and> hsm_events v' = hsm_events v @ es"

abbreviation if_room :: "'a osa_hsm_active_scheme \<Rightarrow> hsm_event \<Rightarrow> hsm_event list" where
  "if_room v e \<equiv> if queue_room v then [e] else []"

lemma load_post:
  assumes "gives_up P" and "queue_ok (ss_obj S (other w))" and "watcher (ss_obj S w) = sim_addr (other w)" and "valid_event e"
  obtains r q where "post_watcher P e (sim_load w S) =
      (r, (sim_load w S)\<lparr>sim_world := [sim_addr (other w) \<mapsto> (osa_hsm_active.truncate (ss_obj S (other w)))\<lparr>msg_q := q\<rparr>]\<rparr>)"
    "posted (ss_obj S (other w)) (if_room (ss_obj S (other w)) e) ((ss_obj S (other w))\<lparr>msg_q := q\<rparr>)"
proof -
  let ?v = "ss_obj S (other w)"
  have "queue_ok (osa_hsm_active.truncate ?v)"
    using assms(2) by (simp add: queue_ok_def)
  from post_5_events [OF assms(1) this assms(4)] obtain r q where
    q: "post_5 P e (Some (osa_hsm_active.truncate ?v)) = (r, Some ((osa_hsm_active.truncate ?v)\<lparr>msg_q := q\<rparr>))" "q = None \<longleftrightarrow> msg_q ?v = None"
    "queue_ok ((osa_hsm_active.truncate ?v)\<lparr>msg_q := q\<rparr>)"
    "hsm_queue_cap ((osa_hsm_active.truncate ?v)\<lparr>msg_q := q\<rparr>) = hsm_queue_cap (osa_hsm_active.truncate ?v)"
    "hsm_events ((osa_hsm_active.truncate ?v)\<lparr>msg_q := q\<rparr>) =
      hsm_events (osa_hsm_active.truncate ?v) @ if_room (osa_hsm_active.truncate ?v) e"
    by auto
  show ?thesis
    using q assms(3)
    by (intro that [of r q]) (simp_all add: post_watcher_def posted_def queue_ok_def hsm_events_def hsm_pending_def hsm_running_def
        queue_room_def hsm_queue_cap_def)
qed

lemma sig_valid [simp]:
  "valid_event (sig_event SIMULATE_SIG_SEND)" "valid_event (sig_event SIMULATE_SIG_RECV)" "valid_event (sig_event SIMULATE_SIG_IDLE)"
  "valid_event (sig_event HSM_SIG_PERIOD)"
  by (simp_all add: valid_event_def sig_event_def c_int_def c_consts)

text \<open>What one handler does, in the state \<open>working\<close> and for its signal.\<close>

lemma working_dispatch:
  assumes "hsm_current s = simulate_working_state"
  shows "STATE_DISPATCH sim_states (hsm_call (sim_code P self) sim_depth) (hsm_current s) e s =
    simulate_working_state_handler P self (hsm_call (sim_code P self) (Suc 0)) e s"
  using assms by (simp add: STATE_DISPATCH_def sim_depth_def)

lemma sig_neq [simp]:
  "ev_signal (sig_event x) = x" "HSM_SIG_PERIOD \<noteq> HSM_SIG_ENTRY" "SIMULATE_SIG_SEND \<noteq> HSM_SIG_ENTRY" "SIMULATE_SIG_SEND \<noteq> HSM_SIG_PERIOD"
  "SIMULATE_SIG_RECV \<noteq> HSM_SIG_ENTRY" "SIMULATE_SIG_RECV \<noteq> HSM_SIG_PERIOD" "SIMULATE_SIG_RECV \<noteq> SIMULATE_SIG_SEND"
  "SIMULATE_SIG_IDLE \<noteq> HSM_SIG_ENTRY" "SIMULATE_SIG_IDLE \<noteq> HSM_SIG_PERIOD" "SIMULATE_SIG_IDLE \<noteq> SIMULATE_SIG_SEND"
  "SIMULATE_SIG_IDLE \<noteq> SIMULATE_SIG_RECV"
  "HSM_SIG_PERIOD \<noteq> SIMULATE_SIG_SEND" "HSM_SIG_PERIOD \<noteq> SIMULATE_SIG_RECV" "HSM_SIG_PERIOD \<noteq> SIMULATE_SIG_IDLE"
  "SIMULATE_SIG_RECV \<noteq> SIMULATE_SIG_IDLE" "SIMULATE_SIG_SEND \<noteq> SIMULATE_SIG_RECV" "SIMULATE_SIG_SEND \<noteq> SIMULATE_SIG_IDLE"
  by (simp_all add: sig_event_def c_consts)

definition timer_ok :: "timer_sys sim_platform \<Rightarrow> sim_sys \<Rightarrow> bool" where
  "timer_ok P S \<longleftrightarrow>
    (let h = timer_id (ss_obj S One)
     in h \<noteq> NULL \<and> set (ss_expired S) \<subseteq> {h} \<and>
        (\<exists>t. tm_heap (ss_timers S) = [h \<mapsto> t] \<and> tm_callback t = sp_tick P \<and> tm_arg t = sim_addr One \<and>
          (armed (ss_timers S) (tm_timer_id t) \<longleftrightarrow> cnt (ss_obj S One) \<le> 11)))"

definition sim_linux :: "timer_sys sim_platform \<Rightarrow> bool" where
  "sim_linux P \<longleftrightarrow> gives_up P \<and> sp_timer_stop P = linux_timer_stop \<and> sp_tick P \<noteq> NULL"

lemma stop_timer:
  assumes "timer_ok P S" and "sim_linux P" and s: "timer_id s = timer_id (ss_obj S One)"
  obtains tm where "osa_hsm_active_period (sp_timer_create P) (sp_timer_stop P) (sp_tick P) self (Some s) 0 (ss_timers S) =
      Some (0, Some (s\<lparr>tick_period := 0\<rparr>), tm)"
    "\<forall>S'. ss_timers S' = tm \<and> timer_id (ss_obj S' One) = timer_id (ss_obj S One) \<and> ss_expired S' = ss_expired S \<and>
      11 < cnt (ss_obj S' One) \<longrightarrow> timer_ok P S'"
proof -
  obtain t where t: "tm_heap (ss_timers S) = [timer_id s \<mapsto> t]" "timer_id s \<noteq> NULL"
    "tm_callback t = sp_tick P" "tm_arg t = sim_addr One"
    using assms(1) s by (auto simp: timer_ok_def Let_def)
  let ?tm = "(ss_timers S)\<lparr>tm_heap := [timer_id s \<mapsto> t\<lparr>tm_active := False\<rparr>],
    tm_kernel := (tm_kernel (ss_timers S))(tm_timer_id t \<mapsto> zero_itimerspec)\<rparr>"
  have un: "\<not> armed ?tm (tm_timer_id t)"
    by (simp add: armed_def zero_itimerspec_def zero_timespec_def nanoseconds_def)
  have stop: "osa_hsm_active_period (sp_timer_create P) (sp_timer_stop P) (sp_tick P) self (Some s) 0 (ss_timers S) =
      Some (0, Some (s\<lparr>tick_period := 0\<rparr>), ?tm)"
    using t assms(2) by (simp add: osa_hsm_active_period_def sim_linux_def linux_timer_stop_def osa_timer_stop_def)
  have "\<forall>S'. ss_timers S' = ?tm \<and> timer_id (ss_obj S' One) = timer_id (ss_obj S One) \<and> ss_expired S' = ss_expired S \<and>
      11 < cnt (ss_obj S' One) \<longrightarrow> timer_ok P S'"
    using t un assms(1) s by (auto simp: timer_ok_def Let_def)
  with stop show ?thesis by (rule that)
qed

text \<open>A tick at the first machine.\<close>

lemma handle_period:
  assumes P: "sim_linux P" and pc: "ss_pc S One = D_got (sig_event HSM_SIG_PERIOD)" and tm: "timer_ok P S"
    and cur: "hsm_current (ss_obj S One) = simulate_working_state" and w: "watcher (ss_obj S One) = sim_addr Two"
    and q: "queue_ok (ss_obj S Two)"
  obtains S' x t p where "disp_handle P One S = Some S'" "ss_pc S' = (ss_pc S)(One := D_loop)" "timer_ok P S'"
    "posted (ss_obj S Two) (if_room (ss_obj S Two) (sig_event SIMULATE_SIG_SEND)) (ss_obj S' Two)"
    "ss_lost S' \<longleftrightarrow> ss_lost S \<or> \<not> queue_room (ss_obj S Two)" "ss_expired S' = ss_expired S"
    "ss_obj S' One = (ss_obj S One)\<lparr>cnt := cnt (ss_obj S One) + 1, tick_period := p, sim_world := x, sim_timers := t\<rparr>"
proof -
  let ?l = "sim_load One S"
  have g: "gives_up P" using P by (simp add: sim_linux_def)
  obtain r q' where post: "post_watcher P (sig_event SIMULATE_SIG_SEND) ?l =
      (r, ?l\<lparr>sim_world := [sim_addr Two \<mapsto> (osa_hsm_active.truncate (ss_obj S Two))\<lparr>msg_q := q'\<rparr>]\<rparr>)"
    "posted (ss_obj S Two) (if_room (ss_obj S Two) (sig_event SIMULATE_SIG_SEND)) ((ss_obj S Two)\<lparr>msg_q := q'\<rparr>)"
    using load_post [OF g, of S One "sig_event SIMULATE_SIG_SEND"] q w by auto
  let ?s = "?l\<lparr>sim_world := [sim_addr Two \<mapsto> (osa_hsm_active.truncate (ss_obj S Two))\<lparr>msg_q := q'\<rparr>], cnt := cnt (ss_obj S One) + 1\<rparr>"
  have disp: "STATE_DISPATCH sim_states (hsm_call (sim_code P (sim_addr One)) sim_depth) (hsm_current (ss_obj S One))
      (sig_event HSM_SIG_PERIOD) ?l = map_option (\<lambda>(_, s). (0, s)) (do_period P (sim_addr One) ?l)"
    using working_dispatch [of ?l] cur by (simp add: simulate_working_state_handler_def)
  have tid: "timer_id ?s = timer_id (ss_obj S One)" by simp
  obtain tm' where stop: "osa_hsm_active_period (sp_timer_create P) (sp_timer_stop P) (sp_tick P) (sim_addr One) (Some ?s) 0 (ss_timers S) =
      Some (0, Some (?s\<lparr>tick_period := 0\<rparr>), tm')"
    "\<forall>S'. ss_timers S' = tm' \<and> timer_id (ss_obj S' One) = timer_id (ss_obj S One) \<and> ss_expired S' = ss_expired S \<and>
      11 < cnt (ss_obj S' One) \<longrightarrow> timer_ok P S'"
    by (rule stop_timer [OF tm P tid, where self = "sim_addr One"])
  have per: "do_period P (sim_addr One) ?l =
      (if 10 < cnt (ss_obj S One) then Some (0, ?s\<lparr>tick_period := 0, sim_timers := tm'\<rparr>) else Some (r, ?s))"
    using post(1) stop(1) by (simp add: do_period_def)
  define s' where "s' = (if 10 < cnt (ss_obj S One) then ?s\<lparr>tick_period := 0, sim_timers := tm'\<rparr> else ?s)"
  define S' where "S' = (sim_store One s' S)\<lparr>ss_pc := (ss_pc S)(One := D_loop),
    ss_lost := (ss_lost S \<or> posts_in_vain One (sig_event HSM_SIG_PERIOD) S)\<rparr>"
  have "disp_handle P One S = Some S'"
    using pc disp per by (simp add: disp_handle_def S'_def s'_def)
  moreover have obj: "ss_obj S' One = s'" "ss_obj S' Two = (ss_obj S Two)\<lparr>msg_q := q'\<rparr>"
    using store_simps(6) [of One s' S] by (auto simp: S'_def s'_def)
  moreover have "\<exists>x t p. s' = (ss_obj S One)\<lparr>cnt := cnt (ss_obj S One) + 1, tick_period := p, sim_world := x, sim_timers := t\<rparr>"
    by (cases "ss_obj S One") (auto simp: s'_def sim_load_def)
  then obtain x t p where "s' = (ss_obj S One)\<lparr>cnt := cnt (ss_obj S One) + 1, tick_period := p, sim_world := x, sim_timers := t\<rparr>" by blast
  moreover have "timer_ok P S'"
  proof (cases "10 < cnt (ss_obj S One)")
    case True
    then show ?thesis by (intro stop(2) [rule_format]) (simp add: S'_def s'_def)
  next
    case False
    then show ?thesis using tm by (simp add: timer_ok_def S'_def s'_def)
  qed
  moreover have "ss_lost S' \<longleftrightarrow> ss_lost S \<or> \<not> queue_room (ss_obj S Two)"
    using cur by (auto simp: S'_def posts_in_vain_def)
  ultimately show ?thesis
    using post(2) by (intro that [of S']) (simp_all add: S'_def)
qed

text \<open>A \<^verbatim>\<open>SIMULATE_SIG_SEND\<close> at the second machine.\<close>

lemma handle_send:
  assumes P: "sim_linux P" and pc: "ss_pc S Two = D_got (sig_event SIMULATE_SIG_SEND)"
    and cur: "hsm_current (ss_obj S Two) = simulate_working_state" and w: "watcher (ss_obj S Two) = sim_addr One"
    and q: "queue_ok (ss_obj S One)" "queue_ok (ss_obj S Two)" and pos: "0 \<le> send_cnt (ss_obj S Two)"
  obtains S' q' x t where "disp_handle P Two S = Some S'" "ss_pc S' = (ss_pc S)(Two := D_loop)"
    "ss_timers S' = ss_timers S" "ss_expired S' = ss_expired S"
    "posted (ss_obj S One) (if_room (ss_obj S One) (sig_event SIMULATE_SIG_RECV)) (ss_obj S' One)"
    "ss_lost S' \<longleftrightarrow> ss_lost S \<or> \<not> queue_room (ss_obj S One) \<or> \<not> queue_room (ss_obj S Two)"
    "ss_obj S' Two = (ss_obj S Two)\<lparr>msg_q := q', send_cnt := send_cnt (ss_obj S Two) + 1, sim_world := x, sim_timers := t\<rparr>"
    "posted (ss_obj S Two) (if (send_cnt (ss_obj S Two) + 1) mod 5 = 0 then if_room (ss_obj S Two) (sig_event SIMULATE_SIG_IDLE) else [])
      ((ss_obj S Two)\<lparr>msg_q := q'\<rparr>)"
proof -
  let ?l = "sim_load Two S" and ?c = "send_cnt (ss_obj S Two) + 1"
  have g: "gives_up P" using P by (simp add: sim_linux_def)
  obtain r q1 where post: "post_watcher P (sig_event SIMULATE_SIG_RECV) ?l =
      (r, ?l\<lparr>sim_world := [sim_addr One \<mapsto> (osa_hsm_active.truncate (ss_obj S One))\<lparr>msg_q := q1\<rparr>]\<rparr>)"
    "posted (ss_obj S One) (if_room (ss_obj S One) (sig_event SIMULATE_SIG_RECV)) ((ss_obj S One)\<lparr>msg_q := q1\<rparr>)"
    using load_post [OF g, of S Two "sig_event SIMULATE_SIG_RECV"] q w by auto
  let ?s = "?l\<lparr>sim_world := [sim_addr One \<mapsto> (osa_hsm_active.truncate (ss_obj S One))\<lparr>msg_q := q1\<rparr>], send_cnt := ?c\<rparr>"
  have same: "hsm_pending ?s = hsm_pending (ss_obj S Two)" "queue_room ?s = queue_room (ss_obj S Two)" "queue_ok ?s"
    "hsm_events ?s = hsm_events (ss_obj S Two)"
    using q(2) by (simp_all add: hsm_pending_def queue_room_def hsm_queue_cap_def queue_ok_def hsm_running_def hsm_events_def)
  obtain r2 q2 where idle: "post_5 P (sig_event SIMULATE_SIG_IDLE) (Some ?s) = (r2, Some (?s\<lparr>msg_q := q2\<rparr>))" "q2 = None \<longleftrightarrow> msg_q ?s = None"
    "queue_ok (?s\<lparr>msg_q := q2\<rparr>)" "hsm_queue_cap (?s\<lparr>msg_q := q2\<rparr>) = hsm_queue_cap ?s"
    "hsm_events (?s\<lparr>msg_q := q2\<rparr>) = hsm_events ?s @ if_room ?s (sig_event SIMULATE_SIG_IDLE)"
    by (rule post_5_events [OF g same(3) sig_valid(3)])
  define q' where "q' = (if ?c mod 5 = 0 then q2 else msg_q (ss_obj S Two))"
  have snd: "snd (do_send P ?l) = ?s\<lparr>msg_q := q'\<rparr>"
    using post(1) idle(1) pos by (simp add: do_send_def q'_def smod_nonneg)
  have disp: "STATE_DISPATCH sim_states (hsm_call (sim_code P (sim_addr Two)) sim_depth) (hsm_current (ss_obj S Two))
      (sig_event SIMULATE_SIG_SEND) ?l = Some (0, snd (do_send P ?l))"
    using working_dispatch [of ?l] cur by (simp add: simulate_working_state_handler_def)
  define S' where "S' = (sim_store Two (?s\<lparr>msg_q := q'\<rparr>) S)\<lparr>ss_pc := (ss_pc S)(Two := D_loop),
    ss_lost := (ss_lost S \<or> posts_in_vain Two (sig_event SIMULATE_SIG_SEND) S)\<rparr>"
  have h: "disp_handle P Two S = Some S'"
    using pc disp snd by (simp add: disp_handle_def S'_def)
  have one: "ss_obj S' One = (ss_obj S One)\<lparr>msg_q := q1\<rparr>"
    using store_simps(6) [of Two "?s\<lparr>msg_q := q'\<rparr>" S] by (simp add: S'_def)
  have two: "ss_obj S' Two = (ss_obj S Two)\<lparr>msg_q := q', send_cnt := ?c,
      sim_world := [sim_addr One \<mapsto> (osa_hsm_active.truncate (ss_obj S One))\<lparr>msg_q := q1\<rparr>], sim_timers := ss_timers S\<rparr>"
    by (cases "ss_obj S Two") (simp add: S'_def sim_load_def)
  have "posted (ss_obj S Two) (if ?c mod 5 = 0 then if_room (ss_obj S Two) (sig_event SIMULATE_SIG_IDLE) else [])
      ((ss_obj S Two)\<lparr>msg_q := q'\<rparr>)"
    using idle(2-5) q(2) same(2,4)
    by (simp add: posted_def q'_def queue_ok_def hsm_running_def hsm_events_def hsm_pending_def hsm_queue_cap_def)
  moreover have "ss_lost S' \<longleftrightarrow> ss_lost S \<or> \<not> queue_room (ss_obj S One) \<or> \<not> queue_room (ss_obj S Two)"
    using cur by (auto simp: S'_def posts_in_vain_def)
  ultimately show ?thesis
    using h one two post(2) by (intro that [OF h _ _ _ _ _ two]) (simp_all add: S'_def)
qed

text \<open>A \<^verbatim>\<open>SIMULATE_SIG_IDLE\<close> at the second machine, and the events that change nothing.\<close>

lemma store_load:
  assumes "sim_world s = sim_world (sim_load w S)" and "sim_timers s = ss_timers S"
  shows "sim_store w s S = S\<lparr>ss_obj := (ss_obj S)(w := s)\<rparr>"
proof -
  have "(ss_obj S)(w := s, other w := ss_obj S (other w)) = (ss_obj S)(w := s)" by (auto simp: fun_upd_twist)
  then show ?thesis
    using assms by (simp add: sim_store_def Let_def)
qed

lemma handle_idle:
  assumes "ss_pc S w = D_got (sig_event SIMULATE_SIG_IDLE)" and "hsm_current (ss_obj S w) = simulate_working_state"
  shows "disp_handle P w S = Some (S\<lparr>ss_pc := (ss_pc S)(w := D_loop), ss_obj := (ss_obj S)(w :=
    (sim_load w S)\<lparr>hsm_histroy := simulate_working_state, hsm_current := simulate_idle_state, hsm_error := 0\<rparr>)\<rparr>)"
proof -
  let ?s = "(sim_load w S)\<lparr>hsm_histroy := simulate_working_state, hsm_current := simulate_idle_state, hsm_error := 0\<rparr>"
  have "STATE_DISPATCH sim_states (hsm_call (sim_code P (sim_addr w)) sim_depth) (hsm_current (ss_obj S w))
      (sig_event SIMULATE_SIG_IDLE) (sim_load w S) = Some (0, ?s)"
    using working_dispatch [of "sim_load w S"] assms(2) sim_transit_simps(2) [of P "sim_addr w" 0 "sim_load w S"]
    by (simp add: simulate_working_state_handler_def)
  then show ?thesis
    using assms store_load [of ?s w S] by (simp add: disp_handle_def posts_in_vain_def)
qed

lemma handle_ignored:
  assumes "ss_pc S w = D_got e"
    and "hsm_current (ss_obj S w) = simulate_idle_state \<or> hsm_current (ss_obj S w) = simulate_working_state \<and> e = sig_event SIMULATE_SIG_RECV"
  shows "disp_handle P w S = Some (S\<lparr>ss_pc := (ss_pc S)(w := D_loop), ss_obj := (ss_obj S)(w := sim_load w S)\<rparr>)"
proof -
  have "STATE_DISPATCH sim_states (hsm_call (sim_code P (sim_addr w)) sim_depth) (hsm_current (ss_obj S w)) e (sim_load w S) =
      Some (0, sim_load w S)"
    using assms(2) working_dispatch [of "sim_load w S"]
    by (auto simp: simulate_working_state_handler_def STATE_DISPATCH_def sim_depth_def simulate_state_idle_handler_def)
  then show ?thesis
    using assms store_load [of "sim_load w S" w S] by (auto simp: disp_handle_def posts_in_vain_def)
qed

section \<open>The other steps\<close>

fun got :: "disp_pc \<Rightarrow> hsm_event list" where
  "got (D_got e) = [e]"
| "got _ = []"

text \<open>The events that a machine has still to handle.\<close>

definition to_handle :: "sim_sys \<Rightarrow> machine \<Rightarrow> hsm_event list" where
  "to_handle S w = got (ss_pc S w) @ hsm_events (ss_obj S w)"

fun disp_ok :: "disp_pc \<Rightarrow> timer_sys hsm_simulate \<Rightarrow> bool" where
  "disp_ok D_start s \<longleftrightarrow>
    hsm_current s = simulate_init_state \<and> msg_q s = None \<and> msg_q_size s = SIMULATE_TASK_MSG_Q_SIZE \<and> cnt s = 0 \<and> send_cnt s = 0"
| "disp_ok D_exit s \<longleftrightarrow> msg_q s = None \<and> hsm_current s \<noteq> simulate_idle_state \<and> cnt s = 0"
| "disp_ok _ s \<longleftrightarrow> hsm_running s \<and> hsm_queue_cap s = nat SIMULATE_TASK_MSG_Q_SIZE \<and> hsm_current s \<in> {simulate_working_state, simulate_idle_state}"

lemma disp_ok_queue: "disp_ok pc s \<Longrightarrow> queue_ok s"
  by (cases pc) (auto simp: queue_ok_def)

lemma events_none [simp]: "msg_q s = None \<Longrightarrow> hsm_events s = []"
  by (simp add: hsm_events_def hsm_pending_def)

lemma postedE:
  assumes "posted v es v'"
  obtains q where "v' = v\<lparr>msg_q := q\<rparr>" "q = None \<longleftrightarrow> msg_q v = None" "queue_ok v'" "hsm_queue_cap v' = hsm_queue_cap v"
    "hsm_events v' = hsm_events v @ es"
  using assms by (intro that [of "msg_q v'"]) (simp_all add: posted_def)

lemma disp_ok_posted:
  assumes "posted s es s'" and "disp_ok pc s"
  shows "disp_ok pc s'"
proof -
  obtain q where q: "s' = s\<lparr>msg_q := q\<rparr>" "q = None \<longleftrightarrow> msg_q s = None" "queue_ok s'" "hsm_queue_cap s' = hsm_queue_cap s"
    using assms(1) by (rule postedE)
  moreover have "hsm_running s \<Longrightarrow> msg_q s \<noteq> None"
    by (auto simp: hsm_running_def split: option.splits)
  ultimately show ?thesis
    using assms(2) by (cases pc) (auto simp: queue_ok_def)
qed

text \<open>A machine after its initial transition.\<close>

definition started :: "machine \<Rightarrow> sim_sys \<Rightarrow> osa_queue_impl option \<Rightarrow> timer_sys hsm_simulate" where
  "started w S q = (sim_load w S)\<lparr>cnt := 0, hsm_histroy := simulate_init_state, hsm_current := simulate_working_state,
    hsm_error := 0, msg_q := q\<rparr>"

lemma start_effect:
  assumes "disp_ok (ss_pc S w) (ss_obj S w)" and "ss_pc S w = D_start"
  obtains q go where "disp_start P pid cq cb w S =
      Some (S\<lparr>ss_pc := (ss_pc S)(w := if go then D_loop else D_exit), ss_obj := (ss_obj S)(w := started w S q)\<rparr>)"
    "go \<longleftrightarrow> cq \<and> cb" "if go then disp_ok D_loop (started w S q) \<and> hsm_events (started w S q) = [] else q = None"
proof -
  have pre: "hsm_current (sim_load w S) = simulate_init_state" "msg_q (sim_load w S) = None" "msg_q_size (sim_load w S) = 20"
    using assms by (simp_all add: sim_load_def SIMULATE_TASK_MSG_Q_SIZE_def)
  have init: "STATE_INIT sim_states (hsm_call (sim_code P (sim_addr w)) sim_depth) (sim_load w S) = Some (0, started w S None)"
    using pre(1,2) sim_transit_simps(1) [of P "sim_addr w" 0 "(sim_load w S)\<lparr>cnt := 0\<rparr>"]
    by (simp add: STATE_INIT_def sim_depth_def simulate_init_state_handler_def started_def)
  obtain go s where run: "osa_hsm_active_run_init sim_states (sim_code P (sim_addr w)) sim_depth pid cq cb (sim_load w S) = Some (go, s)"
    "go \<longleftrightarrow> cq \<and> cb" "if go then hsm_running s \<and> hsm_pending s = [] \<and> hsm_queue_cap s = 20 else s = started w S None"
    using run_init_spec [OF init, of pid cq cb] pre(3) by (auto simp: started_def split: if_splits)
  obtain q where s: "s = started w S q" "\<not> go \<longrightarrow> q = None"
    using run(1) init by (auto simp: osa_hsm_active_run_init_def started_def split: prod.splits if_splits)
  have "sim_store w s S = S\<lparr>ss_obj := (ss_obj S)(w := s)\<rparr>"
    by (rule store_load) (simp_all add: s started_def)
  then have "disp_start P pid cq cb w S =
      Some (S\<lparr>ss_pc := (ss_pc S)(w := if go then D_loop else D_exit), ss_obj := (ss_obj S)(w := started w S q)\<rparr>)"
    using run(1) s(1) assms(2) by (simp add: disp_start_def)
  moreover have "if go then disp_ok D_loop (started w S q) \<and> hsm_events (started w S q) = [] else q = None"
    using run(3) s by (auto simp: hsm_events_def SIMULATE_TASK_MSG_Q_SIZE_def) (simp_all add: started_def)
  ultimately show ?thesis
    using run(2) by (intro that)
qed

lemma receive_effect:
  assumes "disp_ok (ss_pc S w) (ss_obj S w)" and "disp_receive now w S = Some S'"
  obtains e q where "ss_pc S w = D_loop" "S' = S\<lparr>ss_obj := (ss_obj S)(w := (ss_obj S w)\<lparr>msg_q := q\<rparr>), ss_pc := (ss_pc S)(w := D_got e)\<rparr>"
    "disp_ok (D_got e) ((ss_obj S w)\<lparr>msg_q := q\<rparr>)" "hsm_events (ss_obj S w) = e # hsm_events ((ss_obj S w)\<lparr>msg_q := q\<rparr>)"
proof -
  have pc: "ss_pc S w = D_loop"
    using assms(2) by (auto simp: disp_receive_def split: if_splits)
  then have run: "hsm_running (ss_obj S w)" and ok: "disp_ok D_loop (ss_obj S w)"
    using assms(1) by simp_all
  show ?thesis
  proof (cases "hsm_pending (ss_obj S w)")
    case Nil
    then show ?thesis
      using receive_sleeps [OF run, of now] assms(2) pc by (simp add: disp_receive_def)
  next
    case (Cons m ms)
    from receive_next [OF run Cons, of now] obtain q where
      "osa_queue_receive (msg_q (ss_obj S w)) True sizeof_hsm_event (-1) now = Return (0, Some m, Some q)"
      "hsm_running ((ss_obj S w)\<lparr>msg_q := Some q\<rparr>)" "hsm_pending ((ss_obj S w)\<lparr>msg_q := Some q\<rparr>) = ms"
      "hsm_queue_cap ((ss_obj S w)\<lparr>msg_q := Some q\<rparr>) = hsm_queue_cap (ss_obj S w)"
      by metis
    with Cons pc ok assms(2) show ?thesis
      by (intro that [of "bytes_event m" "Some q"]) (simp_all add: disp_receive_def hsm_events_def)
  qed
qed

lemma receive_enabled:
  assumes "hsm_running (ss_obj S w)" and "ss_pc S w = D_loop" and "hsm_events (ss_obj S w) \<noteq> []"
  shows "\<exists>S'. disp_receive now w S = Some S'"
proof -
  obtain m ms where "hsm_pending (ss_obj S w) = m # ms"
    using assms(3) by (cases "hsm_pending (ss_obj S w)") (simp_all add: hsm_events_def)
  then obtain q where "osa_queue_receive (msg_q (ss_obj S w)) True sizeof_hsm_event (-1) now = Return (0, Some m, Some q)"
    using receive_next [OF assms(1)] by metis
  then show ?thesis
    using assms(2) by (simp add: disp_receive_def Let_def)
qed

text \<open>The handler of the timer posts a tick to the first machine.\<close>

lemma post_now_cap:
  assumes "hsm_running hsm" and "post_now pad e now (Some hsm) = (r, Some h)"
  shows "hsm_queue_cap h = hsm_queue_cap hsm"
proof (cases "queue_room hsm")
  case True
  then have "length (hsm_pending hsm) < hsm_queue_cap hsm"
    by (simp add: queue_room_def)
  from post_now_room [OF assms(1) this, of pad e now] show ?thesis
    using assms(2) by auto
next
  case False
  then have "h = hsm"
    using post_now_no_room [OF assms(1)] assms(2) by (simp add: queue_room_def)
  then show ?thesis by simp
qed

lemma tick_posts:
  assumes "queue_ok s"
  obtains s' where "oas_hsm_timer_handler pad now (Some s) = Some s'" "posted s (if_room s (sig_event HSM_SIG_PERIOD)) s'"
proof (cases "msg_q s")
  case None
  then have "oas_hsm_timer_handler pad now (Some s) = Some s" "\<not> queue_room s"
    by (simp_all add: oas_hsm_timer_handler_def post_now_def osa_hsm_active_event_post_def queue_room_def hsm_queue_cap_def)
  with assms show ?thesis by (intro that [of s]) (simp_all add: posted_def)
next
  case (Some q0)
  then have run: "hsm_running s"
    using assms by (simp add: queue_ok_def)
  obtain r h where h: "post_now pad (sig_event HSM_SIG_PERIOD) now (Some s) = (r, Some h)" "h = s\<lparr>msg_q := msg_q h\<rparr>" "hsm_running h"
    "map bytes_event (hsm_pending h) = map bytes_event (hsm_pending s) @ if_room s (sig_event HSM_SIG_PERIOD)"
    by (rule post_queue [OF run sig_valid(4)])
  then have "msg_q h \<noteq> None"
    by (auto simp: hsm_running_def split: option.splits)
  moreover have "hsm_queue_cap h = hsm_queue_cap s"
    by (rule post_now_cap [OF run h(1)])
  ultimately show ?thesis
    using h Some
    by (intro that [of h]) (simp_all add: oas_hsm_timer_handler_def posted_def queue_ok_def hsm_events_def)
qed

lemma timer_effect:
  assumes "timer_ok P S" and "sim_linux P" and "queue_ok (ss_obj S One)" and "ss_expired S = h # hs"
  obtains s where "timer_called P now S = Some (S\<lparr>ss_expired := hs, ss_obj := (ss_obj S)(One := s)\<rparr>)"
    "posted (ss_obj S One) (if_room (ss_obj S One) (sig_event HSM_SIG_PERIOD)) s"
proof -
  have "posix_timer_callback (ss_timers S) h = Some (sp_tick P, sim_addr One)"
    using assms(1,2,4) by (auto simp: timer_ok_def sim_linux_def posix_timer_callback_def Let_def)
  moreover obtain s where "oas_hsm_timer_handler (sp_pad P) now (Some (ss_obj S One)) = Some s"
    "posted (ss_obj S One) (if_room (ss_obj S One) (sig_event HSM_SIG_PERIOD)) s"
    by (rule tick_posts [OF assms(3)])
  ultimately show ?thesis
    using assms(4) by (intro that [of s]) (simp_all add: timer_called_def Let_def)
qed

section \<open>The invariant\<close>

text \<open>Which events reach which machine, and what only the other machine does.\<close>

definition roles_ok :: "sim_sys \<Rightarrow> bool" where
  "roles_ok S \<longleftrightarrow>
    set (to_handle S One) \<subseteq> {sig_event HSM_SIG_PERIOD, sig_event SIMULATE_SIG_RECV} \<and>
    set (to_handle S Two) \<subseteq> {sig_event SIMULATE_SIG_SEND, sig_event SIMULATE_SIG_IDLE} \<and>
    hsm_current (ss_obj S One) \<noteq> simulate_idle_state \<and> send_cnt (ss_obj S One) = 0 \<and> cnt (ss_obj S Two) = 0"

definition sends :: "sim_sys \<Rightarrow> int" where
  "sends S = int (count_list (to_handle S Two) (sig_event SIMULATE_SIG_SEND))"

text \<open>The ticks of the first machine, the sends that the second has handled, and those that it has still to handle.\<close>

definition counts_ok :: "sim_sys \<Rightarrow> bool" where
  "counts_ok S \<longleftrightarrow>
    (let n = send_cnt (ss_obj S Two); idle = (hsm_current (ss_obj S Two) = simulate_idle_state);
         told = (sig_event SIMULATE_SIG_IDLE \<in> set (to_handle S Two))
     in 0 \<le> n \<and> n + sends S \<le> cnt (ss_obj S One) \<and> (told \<or> idle \<longrightarrow> 5 \<le> n) \<and>
        (\<not> ss_lost S \<and> \<not> idle \<longrightarrow> n + sends S = cnt (ss_obj S One) \<and> (5 \<le> n \<longrightarrow> told)))"

definition sim_inv :: "timer_sys sim_platform \<Rightarrow> sim_sys \<Rightarrow> bool" where
  "sim_inv P S \<longleftrightarrow>
    (\<forall>w. disp_ok (ss_pc S w) (ss_obj S w) \<and> watcher (ss_obj S w) = sim_addr (other w)) \<and>
    timer_ok P S \<and> roles_ok S \<and> counts_ok S"

lemma sim_invD:
  assumes "sim_inv P S"
  shows "disp_ok (ss_pc S w) (ss_obj S w)" "watcher (ss_obj S w) = sim_addr (other w)" "queue_ok (ss_obj S w)"
    "timer_ok P S" "roles_ok S" "counts_ok S"
  using assms by (auto simp: sim_inv_def intro: disp_ok_queue)

lemma all_machines: "(\<forall>w. Q w) \<longleftrightarrow> Q One \<and> Q Two"
  by (metis machine.exhaust)

lemma sig_event_eq [simp]: "sig_event x = sig_event y \<longleftrightarrow> x = y"
  by (simp add: sig_event_def)

lemma view_same:
  assumes "\<And>v. to_handle S' v = to_handle S v" "\<And>v. hsm_current (ss_obj S' v) = simulate_idle_state \<longleftrightarrow> hsm_current (ss_obj S v) = simulate_idle_state"
    and "\<And>v. cnt (ss_obj S' v) = cnt (ss_obj S v)" "\<And>v. send_cnt (ss_obj S' v) = send_cnt (ss_obj S v)" and "ss_lost S' = ss_lost S"
  shows "roles_ok S' = roles_ok S" "counts_ok S' = counts_ok S"
  using assms by (simp_all add: roles_ok_def counts_ok_def sends_def)

lemma timer_same:
  assumes "timer_id (ss_obj S' One) = timer_id (ss_obj S One)" "ss_timers S' = ss_timers S" "set (ss_expired S') \<subseteq> set (ss_expired S)"
    and "cnt (ss_obj S' One) = cnt (ss_obj S One)" and "timer_ok P S"
  shows "timer_ok P S'"
  using assms by (auto simp: timer_ok_def Let_def)

lemma start_inv:
  assumes inv: "sim_inv P S" and "disp_start P pid cq cb w S = Some S'"
  shows "sim_inv P S'"
proof -
  have pc: "ss_pc S w = D_start"
    using assms(2) by (auto simp: disp_start_def split: if_splits)
  obtain q go where st: "S' = S\<lparr>ss_pc := (ss_pc S)(w := if go then D_loop else D_exit), ss_obj := (ss_obj S)(w := started w S q)\<rparr>"
    "if go then disp_ok D_loop (started w S q) \<and> hsm_events (started w S q) = [] else q = None"
    using start_effect [OF sim_invD(1) [OF inv] pc, of P pid cq cb] assms(2) by (metis option.inject)
  have pre: "hsm_current (ss_obj S w) = simulate_init_state" "msg_q (ss_obj S w) = None" "cnt (ss_obj S w) = 0" "send_cnt (ss_obj S w) = 0"
    using sim_invD(1) [OF inv, of w] pc by simp_all
  have s: "cnt (started w S q) = 0" "send_cnt (started w S q) = 0" "hsm_current (started w S q) = simulate_working_state"
    "watcher (started w S q) = watcher (ss_obj S w)" "timer_id (started w S q) = timer_id (ss_obj S w)" "hsm_events (started w S q) = []"
    using st(2) pre by (auto simp: started_def split: if_splits)
  have d: "disp_ok (if go then D_loop else D_exit) (started w S q)"
    using st(2) s(3) by (auto simp: started_def)
  have ev: "to_handle S' v = to_handle S v" for v
    using pc s(6) pre(2) by (auto simp: to_handle_def st(1))
  then have "roles_ok S'" "counts_ok S'"
    using sim_invD(5,6) [OF inv] s pre by (subst view_same; simp add: st(1))+
  moreover have "timer_ok P S'"
    by (rule timer_same [OF _ _ _ _ sim_invD(4) [OF inv]]) (use s pre in \<open>auto simp: st(1)\<close>)
  ultimately show ?thesis
    using sim_invD(1,2) [OF inv] d s(4) by (auto simp: sim_inv_def st(1))
qed

lemma receive_inv:
  assumes inv: "sim_inv P S" and "disp_receive now w S = Some S'"
  shows "sim_inv P S'"
proof -
  obtain e q where r: "ss_pc S w = D_loop" "S' = S\<lparr>ss_obj := (ss_obj S)(w := (ss_obj S w)\<lparr>msg_q := q\<rparr>), ss_pc := (ss_pc S)(w := D_got e)\<rparr>"
    "disp_ok (D_got e) ((ss_obj S w)\<lparr>msg_q := q\<rparr>)" "hsm_events (ss_obj S w) = e # hsm_events ((ss_obj S w)\<lparr>msg_q := q\<rparr>)"
    by (rule receive_effect [OF sim_invD(1) [OF inv] assms(2)])
  have ev: "to_handle S' v = to_handle S v" for v
    using r(1,4) by (auto simp: to_handle_def r(2))
  then have "roles_ok S'" "counts_ok S'"
    using sim_invD(5,6) [OF inv] by (subst view_same; simp add: r(2))+
  moreover have "timer_ok P S'"
    by (rule timer_same [OF _ _ _ _ sim_invD(4) [OF inv]]) (simp_all add: r(2))
  ultimately show ?thesis
    using sim_invD(1,2) [OF inv] r(1,3) sim_invD(1) [OF inv, of w] by (auto simp: sim_inv_def r(2))
qed

lemma timer_inv:
  assumes inv: "sim_inv P S" and "sim_linux P" and "timer_called P now S = Some S'"
  shows "sim_inv P S'"
proof -
  obtain h hs where e: "ss_expired S = h # hs"
    using assms(3) by (auto simp: timer_called_def split: list.splits)
  obtain s where s: "timer_called P now S = Some (S\<lparr>ss_expired := hs, ss_obj := (ss_obj S)(One := s)\<rparr>)"
    "posted (ss_obj S One) (if_room (ss_obj S One) (sig_event HSM_SIG_PERIOD)) s"
    by (rule timer_effect [OF sim_invD(4) [OF inv] assms(2) sim_invD(3) [OF inv] e])
  then have S': "S' = S\<lparr>ss_expired := hs, ss_obj := (ss_obj S)(One := s)\<rparr>"
    using assms(3) by simp
  obtain q where q: "s = (ss_obj S One)\<lparr>msg_q := q\<rparr>" "hsm_events s = hsm_events (ss_obj S One) @ if_room (ss_obj S One) (sig_event HSM_SIG_PERIOD)"
    using s(2) by (rule postedE)
  have "disp_ok (ss_pc S One) s"
    by (rule disp_ok_posted [OF s(2) sim_invD(1) [OF inv]])
  moreover have "timer_ok P S'"
    by (rule timer_same [OF _ _ _ _ sim_invD(4) [OF inv]]) (auto simp: S' q(1) e)
  moreover have "to_handle S' One = to_handle S One @ if_room (ss_obj S One) (sig_event HSM_SIG_PERIOD)" "to_handle S' Two = to_handle S Two"
    using q(2) by (simp_all add: to_handle_def S')
  then have "roles_ok S'" "counts_ok S'"
    using sim_invD(5,6) [OF inv] by (auto simp: roles_ok_def counts_ok_def sends_def S' q(1) Let_def)
  ultimately show ?thesis
    using sim_invD(1,2) [OF inv] by (auto simp: sim_inv_def all_machines S' q(1))
qed

text \<open>What a handler may find: the first machine works, the second works or is idle, and each gets only its own events.\<close>

lemma handle_cases:
  assumes inv: "sim_inv P S" and "ss_pc S w = D_got e"
  obtains (period) "w = One" "e = sig_event HSM_SIG_PERIOD" "hsm_current (ss_obj S One) = simulate_working_state"
    | (send) "w = Two" "e = sig_event SIMULATE_SIG_SEND" "hsm_current (ss_obj S Two) = simulate_working_state"
    | (idle) "w = Two" "e = sig_event SIMULATE_SIG_IDLE" "hsm_current (ss_obj S Two) = simulate_working_state"
    | (ignored) "hsm_current (ss_obj S w) = simulate_idle_state \<or> hsm_current (ss_obj S w) = simulate_working_state \<and> e = sig_event SIMULATE_SIG_RECV"
proof -
  have "e \<in> set (to_handle S w)" "hsm_current (ss_obj S w) \<in> {simulate_working_state, simulate_idle_state}"
    using assms(2) sim_invD(1) [OF inv, of w] by (simp_all add: to_handle_def)
  with sim_invD(5) [OF inv] that show ?thesis
    by (cases w) (auto simp: roles_ok_def)
qed

lemma period_inv:
  assumes inv: "sim_inv P S" and P: "sim_linux P" and pc: "ss_pc S One = D_got (sig_event HSM_SIG_PERIOD)"
    and cur: "hsm_current (ss_obj S One) = simulate_working_state" and "disp_handle P One S = Some S'"
  shows "sim_inv P S'" "ss_expired S' = ss_expired S" "ss_pc S' = (ss_pc S)(One := D_loop)"
    "hsm_events (ss_obj S' One) = hsm_events (ss_obj S One)"
    "hsm_events (ss_obj S' Two) = hsm_events (ss_obj S Two) @ if_room (ss_obj S Two) (sig_event SIMULATE_SIG_SEND)"
    "cnt (ss_obj S One) \<le> cnt (ss_obj S' One)"
proof -
  have w: "watcher (ss_obj S One) = sim_addr Two"
    using sim_invD(2) [OF inv, of One] by simp
  obtain S1 x t p where "disp_handle P One S = Some S1" "ss_pc S1 = (ss_pc S)(One := D_loop)" "timer_ok P S1"
    "posted (ss_obj S Two) (if_room (ss_obj S Two) (sig_event SIMULATE_SIG_SEND)) (ss_obj S1 Two)"
    "ss_lost S1 \<longleftrightarrow> ss_lost S \<or> \<not> queue_room (ss_obj S Two)" "ss_expired S1 = ss_expired S"
    "ss_obj S1 One = (ss_obj S One)\<lparr>cnt := cnt (ss_obj S One) + 1, tick_period := p, sim_world := x, sim_timers := t\<rparr>"
    by (rule handle_period [OF P pc sim_invD(4) [OF inv] cur w sim_invD(3) [OF inv]])
  with assms(5) have S': "ss_pc S' = (ss_pc S)(One := D_loop)" "timer_ok P S'"
    "posted (ss_obj S Two) (if_room (ss_obj S Two) (sig_event SIMULATE_SIG_SEND)) (ss_obj S' Two)"
    "ss_lost S' \<longleftrightarrow> ss_lost S \<or> \<not> queue_room (ss_obj S Two)" "ss_expired S' = ss_expired S"
    "ss_obj S' One = (ss_obj S One)\<lparr>cnt := cnt (ss_obj S One) + 1, tick_period := p, sim_world := x, sim_timers := t\<rparr>"
    by simp_all
  obtain q where q: "ss_obj S' Two = (ss_obj S Two)\<lparr>msg_q := q\<rparr>"
    "hsm_events (ss_obj S' Two) = hsm_events (ss_obj S Two) @ if_room (ss_obj S Two) (sig_event SIMULATE_SIG_SEND)"
    using S'(3) by (rule postedE)
  have same: "hsm_events (ss_obj S' One) = hsm_events (ss_obj S One)" "hsm_running (ss_obj S' One) = hsm_running (ss_obj S One)"
    "hsm_queue_cap (ss_obj S' One) = hsm_queue_cap (ss_obj S One)"
    by (simp_all add: S'(6) hsm_events_def hsm_pending_def hsm_running_def hsm_queue_cap_def)
  then show "ss_expired S' = ss_expired S" "ss_pc S' = (ss_pc S)(One := D_loop)"
    "hsm_events (ss_obj S' One) = hsm_events (ss_obj S One)"
    "hsm_events (ss_obj S' Two) = hsm_events (ss_obj S Two) @ if_room (ss_obj S Two) (sig_event SIMULATE_SIG_SEND)"
    "cnt (ss_obj S One) \<le> cnt (ss_obj S' One)"
    using S' q(2) by simp_all
  have ev: "to_handle S One = sig_event HSM_SIG_PERIOD # to_handle S' One"
    "to_handle S' Two = to_handle S Two @ if_room (ss_obj S Two) (sig_event SIMULATE_SIG_SEND)"
    using same q(2) pc by (simp_all add: to_handle_def S'(1))
  have "roles_ok S'"
    using sim_invD(5) [OF inv] by (auto simp: roles_ok_def ev S'(6) q(1))
  moreover have "counts_ok S'"
    using sim_invD(6) [OF inv] by (auto simp: counts_ok_def sends_def ev S'(4,6) q(1) Let_def)
  moreover have "disp_ok (ss_pc S' w) (ss_obj S' w)" "watcher (ss_obj S' w) = sim_addr (other w)" for w
    using disp_ok_posted [OF S'(3) sim_invD(1) [OF inv]] sim_invD(1,2) [OF inv, of w] cur pc
    by (cases w; simp add: S'(1) same(2,3); simp add: S'(6) q(1))+
  ultimately show "sim_inv P S'"
    using S'(2) by (simp add: sim_inv_def)
qed

lemma send_inv:
  assumes inv: "sim_inv P S" and P: "sim_linux P" and pc: "ss_pc S Two = D_got (sig_event SIMULATE_SIG_SEND)"
    and cur: "hsm_current (ss_obj S Two) = simulate_working_state" and "disp_handle P Two S = Some S'"
  shows "sim_inv P S'" "ss_expired S' = ss_expired S" "ss_pc S' = (ss_pc S)(Two := D_loop)"
    "hsm_events (ss_obj S' One) = hsm_events (ss_obj S One) @ if_room (ss_obj S One) (sig_event SIMULATE_SIG_RECV)"
    "hsm_events (ss_obj S' Two) = hsm_events (ss_obj S Two) @
      (if (send_cnt (ss_obj S Two) + 1) mod 5 = 0 then if_room (ss_obj S Two) (sig_event SIMULATE_SIG_IDLE) else [])"
    "cnt (ss_obj S One) \<le> cnt (ss_obj S' One)"
proof -
  let ?c = "send_cnt (ss_obj S Two) + 1"
  let ?idle = "if ?c mod 5 = 0 then if_room (ss_obj S Two) (sig_event SIMULATE_SIG_IDLE) else []"
  have w: "watcher (ss_obj S Two) = sim_addr One"
    using sim_invD(2) [OF inv, of Two] by simp
  have pos: "0 \<le> send_cnt (ss_obj S Two)"
    using sim_invD(6) [OF inv] by (simp add: counts_ok_def Let_def)
  obtain S1 q' x t where "disp_handle P Two S = Some S1" "ss_pc S1 = (ss_pc S)(Two := D_loop)"
    "ss_timers S1 = ss_timers S" "ss_expired S1 = ss_expired S"
    "posted (ss_obj S One) (if_room (ss_obj S One) (sig_event SIMULATE_SIG_RECV)) (ss_obj S1 One)"
    "ss_lost S1 \<longleftrightarrow> ss_lost S \<or> \<not> queue_room (ss_obj S One) \<or> \<not> queue_room (ss_obj S Two)"
    "ss_obj S1 Two = (ss_obj S Two)\<lparr>msg_q := q', send_cnt := ?c, sim_world := x, sim_timers := t\<rparr>"
    "posted (ss_obj S Two) ?idle ((ss_obj S Two)\<lparr>msg_q := q'\<rparr>)"
    by (rule handle_send [OF P pc cur w sim_invD(3,3) [OF inv] pos])
  with assms(5) have S': "ss_pc S' = (ss_pc S)(Two := D_loop)"
    "ss_timers S' = ss_timers S" "ss_expired S' = ss_expired S"
    "posted (ss_obj S One) (if_room (ss_obj S One) (sig_event SIMULATE_SIG_RECV)) (ss_obj S' One)"
    "ss_lost S' \<longleftrightarrow> ss_lost S \<or> \<not> queue_room (ss_obj S One) \<or> \<not> queue_room (ss_obj S Two)"
    "ss_obj S' Two = (ss_obj S Two)\<lparr>msg_q := q', send_cnt := ?c, sim_world := x, sim_timers := t\<rparr>"
    "posted (ss_obj S Two) ?idle ((ss_obj S Two)\<lparr>msg_q := q'\<rparr>)"
    by simp_all
  obtain q where q: "ss_obj S' One = (ss_obj S One)\<lparr>msg_q := q\<rparr>"
    "hsm_events (ss_obj S' One) = hsm_events (ss_obj S One) @ if_room (ss_obj S One) (sig_event SIMULATE_SIG_RECV)"
    using S'(4) by (rule postedE)
  have two: "hsm_events (ss_obj S' Two) = hsm_events (ss_obj S Two) @ ?idle" "hsm_running (ss_obj S' Two) = hsm_running ((ss_obj S Two)\<lparr>msg_q := q'\<rparr>)"
    "hsm_queue_cap (ss_obj S' Two) = hsm_queue_cap ((ss_obj S Two)\<lparr>msg_q := q'\<rparr>)"
    using S'(7) by (simp_all add: S'(6) posted_def hsm_events_def hsm_pending_def hsm_running_def hsm_queue_cap_def)
  then show "ss_expired S' = ss_expired S" "ss_pc S' = (ss_pc S)(Two := D_loop)"
    "hsm_events (ss_obj S' One) = hsm_events (ss_obj S One) @ if_room (ss_obj S One) (sig_event SIMULATE_SIG_RECV)"
    "hsm_events (ss_obj S' Two) = hsm_events (ss_obj S Two) @ ?idle" "cnt (ss_obj S One) \<le> cnt (ss_obj S' One)"
    using S' q by simp_all
  define es where "es = hsm_events (ss_obj S Two)"
  have ev: "to_handle S' One = to_handle S One @ if_room (ss_obj S One) (sig_event SIMULATE_SIG_RECV)"
    "to_handle S Two = sig_event SIMULATE_SIG_SEND # es" "to_handle S' Two = es @ ?idle"
    using two(1) q(2) pc by (simp_all add: to_handle_def S'(1) es_def)
  have "roles_ok S'"
    using sim_invD(5) [OF inv] by (auto simp: roles_ok_def ev S'(6) q(1))
  moreover have "counts_ok S'"
  proof -
    let ?e = "sig_event SIMULATE_SIG_IDLE" and ?k = "int (count_list es (sig_event SIMULATE_SIG_SEND))"
    have told: "?e \<in> set (es @ ?idle) \<longleftrightarrow> ?e \<in> set es \<or> ?c mod 5 = 0 \<and> queue_room (ss_obj S Two)"
      and sends: "sends S' = ?k" "sends S = 1 + ?k"
      using ev by (simp_all add: sends_def)
    have old: "send_cnt (ss_obj S Two) + 1 + ?k \<le> cnt (ss_obj S One)" "?e \<in> set es \<Longrightarrow> 5 \<le> send_cnt (ss_obj S Two)"
      "\<not> ss_lost S \<Longrightarrow> send_cnt (ss_obj S Two) + 1 + ?k = cnt (ss_obj S One)"
      "\<not> ss_lost S \<Longrightarrow> 5 \<le> send_cnt (ss_obj S Two) \<Longrightarrow> ?e \<in> set es"
      using sim_invD(6) [OF inv] cur sends(2) ev(2) by (auto simp: counts_ok_def Let_def)
    have five: "?c mod 5 = 0 \<Longrightarrow> 5 \<le> ?c" "5 \<le> ?c \<Longrightarrow> 5 \<le> send_cnt (ss_obj S Two) \<or> ?c mod 5 = 0"
      using pos by presburger+
    have new: "send_cnt (ss_obj S' Two) = ?c" "hsm_current (ss_obj S' Two) = simulate_working_state" "cnt (ss_obj S' One) = cnt (ss_obj S One)"
      using cur by (simp_all add: S'(6) q(1))
    show ?thesis
      using pos old five unfolding counts_ok_def Let_def new sends(1) ev(3) told S'(5) by auto
  qed
  moreover have "timer_ok P S'"
    by (rule timer_same [OF _ _ _ _ sim_invD(4) [OF inv]]) (simp_all add: S'(2,3) q(1))
  moreover have "disp_ok D_loop ((ss_obj S Two)\<lparr>msg_q := q'\<rparr>)"
    using disp_ok_posted [OF S'(7), of D_loop] sim_invD(1) [OF inv, of Two] pc by simp
  then have "disp_ok (ss_pc S' w) (ss_obj S' w)" "watcher (ss_obj S' w) = sim_addr (other w)" for w
    using disp_ok_posted [OF S'(4) sim_invD(1) [OF inv]] sim_invD(2) [OF inv, of w] two(2,3)
    by (cases w; simp add: S'(1); simp add: S'(6) q(1))+
  ultimately show "sim_inv P S'"
    by (simp add: sim_inv_def)
qed

lemma idle_inv:
  assumes inv: "sim_inv P S" and pc: "ss_pc S Two = D_got (sig_event SIMULATE_SIG_IDLE)"
    and cur: "hsm_current (ss_obj S Two) = simulate_working_state" and "disp_handle P Two S = Some S'"
  shows "sim_inv P S'" "ss_expired S' = ss_expired S" "ss_pc S' = (ss_pc S)(Two := D_loop)"
    "\<And>w. hsm_events (ss_obj S' w) = hsm_events (ss_obj S w)" "cnt (ss_obj S One) \<le> cnt (ss_obj S' One)"
proof -
  let ?s = "(sim_load Two S)\<lparr>hsm_histroy := simulate_working_state, hsm_current := simulate_idle_state, hsm_error := 0\<rparr>"
  have S': "S' = S\<lparr>ss_pc := (ss_pc S)(Two := D_loop), ss_obj := (ss_obj S)(Two := ?s)\<rparr>"
    using handle_idle [OF pc cur] assms(4) by simp
  have same: "hsm_events ?s = hsm_events (ss_obj S Two)" "hsm_running ?s = hsm_running (ss_obj S Two)"
    "hsm_queue_cap ?s = hsm_queue_cap (ss_obj S Two)"
    by (simp_all add: hsm_events_def hsm_pending_def hsm_running_def hsm_queue_cap_def)
  then show "ss_expired S' = ss_expired S" "ss_pc S' = (ss_pc S)(Two := D_loop)"
    "hsm_events (ss_obj S' w) = hsm_events (ss_obj S w)" "cnt (ss_obj S One) \<le> cnt (ss_obj S' One)" for w
    by (simp_all add: S')
  have ev: "to_handle S' One = to_handle S One" "to_handle S Two = sig_event SIMULATE_SIG_IDLE # to_handle S' Two"
    using pc same by (simp_all add: to_handle_def S')
  have "roles_ok S'" "counts_ok S'"
    using sim_invD(5,6) [OF inv] cur by (auto simp: roles_ok_def counts_ok_def sends_def ev Let_def) (simp_all add: S')
  moreover have "timer_ok P S'"
    by (rule timer_same [OF _ _ _ _ sim_invD(4) [OF inv]]) (simp_all add: S')
  moreover have "disp_ok (ss_pc S' w) (ss_obj S' w)" "watcher (ss_obj S' w) = sim_addr (other w)" for w
    using sim_invD(1,2) [OF inv, of w] pc same by (cases w; simp add: S')+
  ultimately show "sim_inv P S'"
    by (simp add: sim_inv_def)
qed

lemma sim_ignored_inv:
  assumes inv: "sim_inv P S" and pc: "ss_pc S w = D_got e"
    and cur: "hsm_current (ss_obj S w) = simulate_idle_state \<or> hsm_current (ss_obj S w) = simulate_working_state \<and> e = sig_event SIMULATE_SIG_RECV"
    and "disp_handle P w S = Some S'"
  shows "sim_inv P S'" "ss_expired S' = ss_expired S" "ss_pc S' = (ss_pc S)(w := D_loop)"
    "\<And>v. hsm_events (ss_obj S' v) = hsm_events (ss_obj S v)" "cnt (ss_obj S One) \<le> cnt (ss_obj S' One)"
proof -
  have S': "S' = S\<lparr>ss_pc := (ss_pc S)(w := D_loop), ss_obj := (ss_obj S)(w := sim_load w S)\<rparr>"
    using handle_ignored [OF pc cur] assms(4) by simp
  have same: "hsm_events (sim_load w S) = hsm_events (ss_obj S w)" "hsm_running (sim_load w S) = hsm_running (ss_obj S w)"
    "hsm_queue_cap (sim_load w S) = hsm_queue_cap (ss_obj S w)"
    by (simp_all add: hsm_events_def hsm_pending_def hsm_running_def hsm_queue_cap_def)
  then show "ss_expired S' = ss_expired S" "ss_pc S' = (ss_pc S)(w := D_loop)"
    "hsm_events (ss_obj S' v) = hsm_events (ss_obj S v)" "cnt (ss_obj S One) \<le> cnt (ss_obj S' One)" for v
    by (simp_all add: S')
  have ev: "to_handle S v = (if v = w then e # to_handle S' v else to_handle S' v)" for v
    using pc same by (simp add: to_handle_def S')
  have fields: "cnt (ss_obj S' v) = cnt (ss_obj S v)" "send_cnt (ss_obj S' v) = send_cnt (ss_obj S v)"
    "hsm_current (ss_obj S' v) = hsm_current (ss_obj S v)" "ss_lost S' = ss_lost S" for v
    by (simp_all add: S')
  have "roles_ok S' \<and> counts_ok S'"
  proof (cases w)
    case One
    then have "to_handle S One = e # to_handle S' One" "to_handle S Two = to_handle S' Two"
      using ev by simp_all
    then show ?thesis
      using sim_invD(5,6) [OF inv] by (simp add: roles_ok_def counts_ok_def sends_def fields)
  next
    case Two
    then have "to_handle S Two = e # to_handle S' Two" "to_handle S One = to_handle S' One"
      using ev by simp_all
    moreover have "hsm_current (ss_obj S Two) = simulate_idle_state"
      using cur Two calculation(1) sim_invD(5) [OF inv] by (auto simp: roles_ok_def)
    ultimately show ?thesis
      using sim_invD(5,6) [OF inv] by (auto simp: roles_ok_def counts_ok_def sends_def fields Let_def split: if_splits)
  qed
  moreover have "timer_ok P S'"
    by (rule timer_same [OF _ _ _ _ sim_invD(4) [OF inv]]) (simp_all add: fields, simp_all add: S')
  moreover have "disp_ok (ss_pc S' v) (ss_obj S' v)" "watcher (ss_obj S' v) = sim_addr (other v)" for v
    using sim_invD(1,2) [OF inv, of v] pc same by (auto simp: S')
  ultimately show "sim_inv P S'"
    by (simp add: sim_inv_def)
qed

lemma expire_inv:
  assumes "sim_inv P S" and "tm_heap (ss_timers S) h = Some t"
  shows "sim_inv P (S\<lparr>ss_expired := ss_expired S @ [h]\<rparr>)" (is "sim_inv P ?S")
proof -
  have "roles_ok ?S" "counts_ok ?S"
    using sim_invD(5,6) [OF assms(1)] by (subst view_same [of _ S]; simp add: to_handle_def)+
  moreover have "timer_ok P ?S"
    using sim_invD(4) [OF assms(1)] assms(2) by (auto simp: timer_ok_def Let_def split: if_splits)
  ultimately show ?thesis
    using assms(1) by (simp add: sim_inv_def)
qed

lemma handle_inv:
  assumes "sim_inv P S" and "sim_linux P" and h: "disp_handle P w S = Some S'"
  shows "sim_inv P S'"
proof -
  obtain e where pc: "ss_pc S w = D_got e"
    using h by (auto simp: disp_handle_def split: disp_pc.splits)
  from assms(1) pc show ?thesis
  proof (cases rule: handle_cases)
    case period
    then show ?thesis using period_inv(1) [OF assms(1,2)] pc h by simp
  next
    case send
    then show ?thesis using send_inv(1) [OF assms(1,2)] pc h by simp
  next
    case idle
    then show ?thesis using idle_inv(1) [OF assms(1)] pc h by simp
  next
    case ignored
    then show ?thesis by (rule sim_ignored_inv(1) [OF assms(1) pc _ h])
  qed
qed

theorem sim_step_inv:
  assumes "sim_step P S S'" and "sim_inv P S" and "sim_linux P"
  shows "sim_inv P S'"
  using assms
  by (auto elim!: sim_step.cases sim_move.cases intro: start_inv receive_inv handle_inv timer_inv expire_inv)

theorem sim_reach_inv:
  assumes "(sim_step P)\<^sup>*\<^sup>* S S'" and "sim_inv P S" and "sim_linux P"
  shows "sim_inv P S'"
  using assms by (induction rule: rtranclp_induct) (auto intro: sim_step_inv)

section \<open>The start\<close>

lemma create_fields:
  assumes "simulate_create run_fn self cal crt s sys = (r, s', sys')" and "task_ref s = NULL"
  obtains ref where "s' = Some (s\<lparr>hsm_current := simulate_init_state, hsm_histroy := simulate_init_state, hsm_error := 0,
      msg_q_size := SIMULATE_TASK_MSG_Q_SIZE, task_ref := ref\<rparr>)"
proof -
  have "\<exists>ref. s' = Some (s\<lparr>hsm_current := simulate_init_state, hsm_histroy := simulate_init_state, hsm_error := 0,
      msg_q_size := SIMULATE_TASK_MSG_Q_SIZE, task_ref := ref\<rparr>)"
    using assms by (cases s) (auto simp: simulate_create_def osa_hsm_active_init_def osa_hsm_active_start_def Let_def split: prod.splits if_splits)
  with that show ?thesis by blast
qed

lemma start_timer:
  assumes "tm_heap timers = Map.empty" and "h \<noteq> NULL" and "fn \<noteq> NULL"
  obtains tm where "osa_hsm_active_period (linux_timer_create h kid) linux_timer_stop fn self (Some s) 200 timers =
      Some (0, Some (s\<lparr>timer_id := h, tick_period := sint (200 :: uint32)\<rparr>), tm)"
    "armed tm kid" "tm_heap tm = [h \<mapsto> \<lparr>tm_timer_id = kid, tm_callback = fn, tm_arg = self, tm_active = True\<rparr>]"
proof -
  have "(200 :: uint32) \<noteq> 0" by simp
  then obtain tm where tm: "osa_hsm_active_period (linux_timer_create h kid) linux_timer_stop fn self (Some s) 200 timers =
      Some (0, Some (s\<lparr>timer_id := h, tick_period := sint (200 :: uint32)\<rparr>), tm)" "armed tm kid"
    using period_start [OF _ assms(3,2)] by metis
  moreover have "tm_heap tm = [h \<mapsto> \<lparr>tm_timer_id = kid, tm_callback = fn, tm_arg = self, tm_active = True\<rparr>]"
    using tm(1) assms by (auto simp: osa_hsm_active_period_def linux_timer_create_def osa_timer_create_def Let_def)
  ultimately show ?thesis by (rule that)
qed

lemma main_inv:
  assumes main: "simulate_main P run_fn cal crt threads timers = Some S" and P: "sim_linux P"
    and tc: "sp_timer_create P = linux_timer_create h kid" and "h \<noteq> NULL" and "tm_heap timers = Map.empty"
  shows "sim_inv P S"
proof -
  let ?z1 = "zero_simulate\<lparr>hsm_name := Some ''thread1'', watcher := sim_addr Two\<rparr>"
    and ?z2 = "zero_simulate\<lparr>hsm_name := Some ''thread2'', watcher := sim_addr One\<rparr>"
  obtain r1 o1 threads1 r2 o2 threads2 where c: "simulate_create run_fn (sim_addr One) (cal One) (crt One) ?z1 threads = (r1, o1, threads1)"
    "simulate_create run_fn (sim_addr Two) (cal Two) (crt Two) ?z2 threads1 = (r2, o2, threads2)"
    by (meson prod_cases3)
  obtain ref1 where o1: "o1 = Some (?z1\<lparr>hsm_current := simulate_init_state, hsm_histroy := simulate_init_state, hsm_error := 0,
      msg_q_size := SIMULATE_TASK_MSG_Q_SIZE, task_ref := ref1\<rparr>)" (is "_ = Some ?s1")
    using create_fields [OF c(1)] by (auto simp: zero_simulate_def)
  obtain ref2 where o2: "o2 = Some (?z2\<lparr>hsm_current := simulate_init_state, hsm_histroy := simulate_init_state, hsm_error := 0,
      msg_q_size := SIMULATE_TASK_MSG_Q_SIZE, task_ref := ref2\<rparr>)" (is "_ = Some ?s2")
    using create_fields [OF c(2)] by (auto simp: zero_simulate_def)
  have tick: "sp_tick P \<noteq> NULL" "sp_timer_stop P = linux_timer_stop"
    using P by (simp_all add: sim_linux_def)
  obtain tm where per: "osa_hsm_active_period (sp_timer_create P) (sp_timer_stop P) (sp_tick P) (sim_addr One) o1 200 timers =
      Some (0, Some (?s1\<lparr>timer_id := h, tick_period := sint (200 :: uint32)\<rparr>), tm)"
    "armed tm kid" "tm_heap tm = [h \<mapsto> \<lparr>tm_timer_id = kid, tm_callback = sp_tick P, tm_arg = sim_addr One, tm_active = True\<rparr>]"
    unfolding o1 tc tick(2) by (rule start_timer [OF assms(5,4) tick(1)])
  have S: "S = \<lparr>ss_obj = (\<lambda>w. case w of One \<Rightarrow> ?s1\<lparr>timer_id := h, tick_period := sint (200 :: uint32)\<rparr> | Two \<Rightarrow> ?s2),
      ss_pc = (\<lambda>w. if (case w of One \<Rightarrow> ref1 | Two \<Rightarrow> ref2) = NULL then D_exit else D_start),
      ss_timers = tm, ss_expired = [], ss_lost = False\<rparr>"
    using main c o1 o2 per(1) by (auto simp: simulate_main_def Let_def fun_eq_iff split: machine.splits)
  have ev: "to_handle S w = []" for w
    by (cases w) (simp_all add: to_handle_def S zero_simulate_def)
  have "roles_ok S" "counts_ok S"
    using ev by (simp_all add: roles_ok_def counts_ok_def sends_def) (simp_all add: S zero_simulate_def)
  moreover have "timer_ok P S"
    using per(2,3) assms(4) unfolding timer_ok_def Let_def
    by (intro conjI exI [of _ "\<lparr>tm_timer_id = kid, tm_callback = sp_tick P, tm_arg = sim_addr One, tm_active = True\<rparr>"])
      (simp_all add: S zero_simulate_def)
  moreover have "disp_ok (ss_pc S w) (ss_obj S w) \<and> watcher (ss_obj S w) = sim_addr (other w)" for w
    by (cases w) (simp_all add: S zero_simulate_def)
  ultimately show ?thesis
    by (simp add: sim_inv_def)
qed

end
