(* ===== verification/Simulate_Run.thy ===== *)
theory Simulate_Run
  imports Simulate_System Ranked_Steps
begin

text \<open>
  The runs of the two machines of \<^verbatim>\<open>examples/linux/hsm_simulate.c\<close>: between two expiries of the timer only finitely much
  happens, no thread is ever stuck, and after twelve ticks everything comes to rest.
\<close>

section \<open>The rank of a state\<close>

text \<open>
  An event is received and handled. Handling a tick may post a send, and handling a send may post an answer and the event that makes
  the machine idle.
\<close>

definition event_rank :: "hsm_event \<Rightarrow> nat" where
  "event_rank e = (if ev_signal e = HSM_SIG_PERIOD then 8 else if ev_signal e = SIMULATE_SIG_SEND then 6 else 2)"

fun disp_rank :: "disp_pc \<Rightarrow> nat" where
  "disp_rank D_start = 1"
| "disp_rank (D_got e) = event_rank e - 1"
| "disp_rank _ = 0"

definition machine_rank :: "sim_sys \<Rightarrow> machine \<Rightarrow> nat" where
  "machine_rank S w = disp_rank (ss_pc S w) + sum_list (map event_rank (hsm_events (ss_obj S w)))"

definition sim_rank :: "sim_sys \<Rightarrow> nat" where
  "sim_rank S = machine_rank S One + machine_rank S Two + 9 * length (ss_expired S)"

lemma event_rank_simps [simp]:
  "event_rank (sig_event HSM_SIG_PERIOD) = 8" "event_rank (sig_event SIMULATE_SIG_SEND) = 6"
  "event_rank (sig_event SIMULATE_SIG_RECV) = 2" "event_rank (sig_event SIMULATE_SIG_IDLE) = 2"
  by (simp_all add: event_rank_def)

lemma event_rank_bounds: "2 \<le> event_rank e" "event_rank e \<le> 8"
  by (simp_all add: event_rank_def)

lemma start_rank:
  assumes inv: "sim_inv P S" and "disp_start P pid cq cb w S = Some S'"
  shows "sim_rank S' < sim_rank S"
proof -
  have pc: "ss_pc S w = D_start"
    using assms(2) by (auto simp: disp_start_def split: if_splits)
  obtain q go where st: "S' = S\<lparr>ss_pc := (ss_pc S)(w := if go then D_loop else D_exit), ss_obj := (ss_obj S)(w := started w S q)\<rparr>"
    "if go then disp_ok D_loop (started w S q) \<and> hsm_events (started w S q) = [] else q = None"
    using start_effect [OF sim_invD(1) [OF inv] pc, of P pid cq cb] assms(2) by (metis option.inject)
  then have "hsm_events (started w S q) = []" by (auto simp: started_def split: if_splits)
  with pc st(1) show ?thesis by (cases w) (simp_all add: sim_rank_def machine_rank_def)
qed

lemma receive_rank:
  assumes inv: "sim_inv P S" and "disp_receive now w S = Some S'"
  shows "sim_rank S' < sim_rank S"
proof -
  obtain e q where r: "ss_pc S w = D_loop" "S' = S\<lparr>ss_obj := (ss_obj S)(w := (ss_obj S w)\<lparr>msg_q := q\<rparr>), ss_pc := (ss_pc S)(w := D_got e)\<rparr>"
    "hsm_events (ss_obj S w) = e # hsm_events ((ss_obj S w)\<lparr>msg_q := q\<rparr>)"
    by (rule receive_effect [OF sim_invD(1) [OF inv] assms(2)])
  define es where "es = hsm_events ((ss_obj S w)\<lparr>msg_q := q\<rparr>)"
  have "hsm_events (ss_obj S w) = e # es"
    using r(3) by (simp add: es_def)
  with r(1) event_rank_bounds(1) [of e] show ?thesis
    by (cases w) (simp_all add: sim_rank_def machine_rank_def r(2) es_def)
qed

lemma timer_rank:
  assumes inv: "sim_inv P S" and "sim_linux P" and "timer_called P now S = Some S'"
  shows "sim_rank S' < sim_rank S"
proof -
  obtain h hs where e: "ss_expired S = h # hs"
    using assms(3) by (auto simp: timer_called_def split: list.splits)
  obtain s where s: "timer_called P now S = Some (S\<lparr>ss_expired := hs, ss_obj := (ss_obj S)(One := s)\<rparr>)"
    "posted (ss_obj S One) (if_room (ss_obj S One) (sig_event HSM_SIG_PERIOD)) s"
    by (rule timer_effect [OF sim_invD(4) [OF inv] assms(2) sim_invD(3) [OF inv] e])
  then show ?thesis
    using assms(3) e by (auto simp: posted_def sim_rank_def machine_rank_def)
qed

lemma handle_rank:
  assumes inv: "sim_inv P S" and P: "sim_linux P" and h: "disp_handle P w S = Some S'"
  shows "sim_rank S' < sim_rank S"
proof -
  obtain e where pc: "ss_pc S w = D_got e"
    using h by (auto simp: disp_handle_def split: disp_pc.splits)
  from inv pc show ?thesis
  proof (cases rule: handle_cases)
    case period
    with pc h have "ss_pc S One = D_got (sig_event HSM_SIG_PERIOD)" "disp_handle P One S = Some S'" by simp_all
    from period_inv(2-5) [OF inv P this(1) period(3) this(2)] this(1) show ?thesis
      by (simp add: sim_rank_def machine_rank_def)
  next
    case send
    with pc h have "ss_pc S Two = D_got (sig_event SIMULATE_SIG_SEND)" "disp_handle P Two S = Some S'" by simp_all
    from send_inv(2-5) [OF inv P this(1) send(3) this(2)] this(1) show ?thesis
      by (simp add: sim_rank_def machine_rank_def)
  next
    case idle
    with pc h have "ss_pc S Two = D_got (sig_event SIMULATE_SIG_IDLE)" "disp_handle P Two S = Some S'" by simp_all
    from idle_inv(2-4) [OF inv this(1) idle(3) this(2)] this(1) show ?thesis
      by (simp add: sim_rank_def machine_rank_def)
  next
    case ignored
    from sim_ignored_inv(2-4) [OF inv pc ignored h] pc event_rank_bounds(1) [of e] show ?thesis
      by (cases w) (simp_all add: sim_rank_def machine_rank_def)
  qed
qed

interpretation sim_moves: ranked_steps "sim_move P" "\<lambda>S. sim_inv P S \<and> sim_linux P" sim_rank for P
proof (unfold_locales, goal_cases)
  case (1 S S')
  then show ?case using sim_step_inv [OF s_move] by blast
next
  case (2 S S')
  then show ?case
    by (auto elim!: sim_move.cases intro: start_rank receive_rank handle_rank timer_rank)
qed

lemma rank_bound:
  "sim_rank S \<le> 9 * (length (ss_expired S) + length (to_handle S One) + length (to_handle S Two)) + 2"
proof -
  have "sum_list (map event_rank es) \<le> 8 * length es" for es
    by (induction es) (auto simp: event_rank_def)
  moreover have "disp_rank pc \<le> 8 * length (got pc) + 1" for pc
    by (cases pc) (auto simp: event_rank_def)
  ultimately have "disp_rank (ss_pc S w) + sum_list (map event_rank (hsm_events (ss_obj S w))) \<le>
      (8 * length (got (ss_pc S w)) + 1) + 8 * length (hsm_events (ss_obj S w))" for w
    by (rule add_mono [rotated])
  then have "machine_rank S w \<le> 8 * length (to_handle S w) + 1" for w
    by (simp add: machine_rank_def to_handle_def algebra_simps)
  from this [of One] this [of Two] show ?thesis
    by (simp add: sim_rank_def)
qed

section \<open>Nothing is stuck\<close>

lemma handle_enabled:
  assumes inv: "sim_inv P S" and P: "sim_linux P" and pc: "ss_pc S w = D_got e"
  shows "\<exists>S'. disp_handle P w S = Some S'"
  using inv pc
proof (cases rule: handle_cases)
  case period
  then show ?thesis
    using handle_period [OF P _ sim_invD(4) [OF inv] _ _ sim_invD(3) [OF inv]] sim_invD(2) [OF inv, of One] pc
    by simp metis
next
  case send
  have "0 \<le> send_cnt (ss_obj S Two)"
    using sim_invD(6) [OF inv] by (simp add: counts_ok_def Let_def)
  with send show ?thesis
    using handle_send [OF P _ _ _ sim_invD(3,3) [OF inv]] sim_invD(2) [OF inv, of Two] pc
    by simp metis
next
  case idle
  then show ?thesis using handle_idle [of S Two P] pc by simp
next
  case ignored
  then show ?thesis using handle_ignored [OF pc] by blast
qed

text \<open>Where no thread moves, the dispatchers wait at empty queues or are gone, and no timer handler waits.\<close>

lemma move_rest:
  assumes inv: "sim_inv P S" and P: "sim_linux P" and rest: "\<nexists>S'. sim_move P S S'"
  shows "ss_pc S w \<in> {D_loop, D_exit}" "to_handle S w = []" "ss_expired S = []"
proof -
  show pc: "ss_pc S w \<in> {D_loop, D_exit}" for w
  proof (cases "ss_pc S w")
    case D_start
    then show ?thesis
      using start_effect [OF sim_invD(1) [OF inv] D_start, of P "[]" True True] rest m_start by metis
  next
    case (D_got e)
    then show ?thesis using handle_enabled [OF inv P D_got] rest m_handle by metis
  qed simp_all
  show "to_handle S w = []"
  proof (cases "ss_pc S w")
    case D_loop
    then have "hsm_events (ss_obj S w) = []"
      using receive_enabled [OF _ D_loop] sim_invD(1) [OF inv, of w] rest m_receive by (metis disp_ok.simps(3))
    with D_loop show ?thesis by (simp add: to_handle_def)
  next
    case D_exit
    then show ?thesis using sim_invD(1) [OF inv, of w] by (simp add: to_handle_def)
  qed (use pc [of w] in auto)
  show "ss_expired S = []"
  proof (cases "ss_expired S")
    case (Cons h hs)
    then show ?thesis
      using timer_effect [OF sim_invD(4) [OF inv] P sim_invD(3) [OF inv] Cons] rest m_timer by metis
  qed simp
qed

section \<open>Coming to rest\<close>

lemma timer_runs:
  assumes "timer_ok P S"
  shows "(\<exists>h t. tm_heap (ss_timers S) h = Some t \<and> armed (ss_timers S) (tm_timer_id t)) \<longleftrightarrow> cnt (ss_obj S One) \<le> 11"
proof -
  obtain t where t: "tm_heap (ss_timers S) = [timer_id (ss_obj S One) \<mapsto> t]"
    "armed (ss_timers S) (tm_timer_id t) \<longleftrightarrow> cnt (ss_obj S One) \<le> 11"
    using assms by (auto simp: timer_ok_def Let_def)
  have "tm_heap (ss_timers S) h = Some t' \<longleftrightarrow> h = timer_id (ss_obj S One) \<and> t' = t" for h t'
    using t(1) by auto
  then show ?thesis
    using t(2) by simp
qed

text \<open>One more tick, from a state in which the first machine waits.\<close>

lemma tick_round:
  assumes inv: "sim_inv P S" and P: "sim_linux P" and pc: "ss_pc S One = D_loop"
    and empty: "hsm_events (ss_obj S One) = []" "ss_expired S = []" and cnt: "cnt (ss_obj S One) \<le> 11"
  obtains S' where "(sim_step P)\<^sup>*\<^sup>* S S'" "ss_pc S' = ss_pc S" "cnt (ss_obj S' One) = cnt (ss_obj S One) + 1"
    "ss_lost S' \<longleftrightarrow> ss_lost S \<or> \<not> queue_room (ss_obj S Two)" "sim_rank S' \<le> sim_rank S + 6"
proof -
  obtain h t where h: "tm_heap (ss_timers S) h = Some t" "armed (ss_timers S) (tm_timer_id t)"
    using timer_runs [OF sim_invD(4) [OF inv]] cnt by blast
  let ?S1 = "S\<lparr>ss_expired := [h]\<rparr>"
  have s1: "sim_step P S ?S1"
    using s_expire [OF h, of P] empty(2) by simp
  have i1: "sim_inv P ?S1"
    by (rule sim_step_inv [OF s1 inv P])
  have e1: "ss_expired ?S1 = h # []" by simp
  obtain s where s: "timer_called P (sp_now P) ?S1 = Some (?S1\<lparr>ss_expired := [], ss_obj := (ss_obj ?S1)(One := s)\<rparr>)"
    "posted (ss_obj ?S1 One) (if_room (ss_obj ?S1 One) (sig_event HSM_SIG_PERIOD)) s"
    by (rule timer_effect [OF sim_invD(4) [OF i1] P sim_invD(3) [OF i1] e1])
  have "queue_room (ss_obj S One)"
    using sim_invD(1) [OF inv, of One] pc empty(1) by (simp add: queue_room_def hsm_events_def SIMULATE_TASK_MSG_Q_SIZE_def)
  then obtain q where q: "s = (ss_obj S One)\<lparr>msg_q := q\<rparr>" "hsm_events s = [sig_event HSM_SIG_PERIOD]"
    using s(2) empty(1) by (auto elim: postedE)
  let ?S2 = "?S1\<lparr>ss_expired := [], ss_obj := (ss_obj ?S1)(One := s)\<rparr>"
  have s2: "sim_step P ?S1 ?S2"
    by (rule s_move [OF m_timer [OF s(1)]])
  have i2: "sim_inv P ?S2"
    by (rule sim_step_inv [OF s2 i1 P])
  have pc2: "ss_pc ?S2 One = D_loop" using pc by simp
  have "hsm_running (ss_obj ?S2 One)"
    using sim_invD(1) [OF i2, of One] pc by simp
  then obtain S3 where S3: "disp_receive (sp_now P) One ?S2 = Some S3"
    using receive_enabled [OF _ pc2] q(2) by fastforce
  obtain e q3 where r: "S3 = ?S2\<lparr>ss_obj := (ss_obj ?S2)(One := (ss_obj ?S2 One)\<lparr>msg_q := q3\<rparr>), ss_pc := (ss_pc ?S2)(One := D_got e)\<rparr>"
    "hsm_events (ss_obj ?S2 One) = e # hsm_events ((ss_obj ?S2 One)\<lparr>msg_q := q3\<rparr>)"
    by (rule receive_effect [OF sim_invD(1) [OF i2] S3])
  have s3: "sim_step P ?S2 S3"
    by (rule s_move [OF m_receive [OF S3]])
  have i3: "sim_inv P S3"
    by (rule sim_step_inv [OF s3 i2 P])
  have pc3: "ss_pc S3 One = D_got (sig_event HSM_SIG_PERIOD)"
    using r q(2) by simp
  have cur3: "hsm_current (ss_obj S3 One) = simulate_working_state"
    using sim_invD(1) [OF i3, of One] sim_invD(5) [OF i3] pc3 by (auto simp: roles_ok_def)
  have w3: "watcher (ss_obj S3 One) = sim_addr Two"
    using sim_invD(2) [OF i3, of One] by simp
  obtain S4 x t' p where S4: "disp_handle P One S3 = Some S4" "ss_pc S4 = (ss_pc S3)(One := D_loop)"
    "ss_lost S4 \<longleftrightarrow> ss_lost S3 \<or> \<not> queue_room (ss_obj S3 Two)"
    "ss_obj S4 One = (ss_obj S3 One)\<lparr>cnt := cnt (ss_obj S3 One) + 1, tick_period := p, sim_world := x, sim_timers := t'\<rparr>"
    by (rule handle_period [OF P pc3 sim_invD(4) [OF i3] cur3 w3 sim_invD(3) [OF i3]])
  have "(sim_step P)\<^sup>*\<^sup>* S S4"
    using s1 s2 s3 s_move [OF m_handle [OF S4(1)]] by (meson converse_rtranclp_into_rtranclp rtranclp.rtrancl_refl)
  moreover have "cnt (ss_obj S3 One) = cnt (ss_obj S One)" "ss_lost S3 = ss_lost S" "ss_obj S3 Two = ss_obj S Two"
    using q(1) by (simp_all add: r(1))
  moreover have "(ss_pc S3)(One := D_loop) = ss_pc S"
    using pc by (auto simp: r(1))
  moreover have "sim_rank ?S1 = sim_rank S + 9"
    using empty(2) by (simp add: sim_rank_def machine_rank_def)
  then have "sim_rank S4 \<le> sim_rank S + 6"
    using timer_rank [OF i1 P s(1)] receive_rank [OF i2 S3] handle_rank [OF i3 P S4(1)] by linarith
  ultimately show ?thesis
    using S4(2-4) by (intro that [of S4]) simp_all
qed

text \<open>A dispatcher in its loop stays there.\<close>

lemma stays_in_loop:
  assumes "sim_move P S S'" and "ss_pc S w \<notin> {D_start, D_exit}"
  shows "ss_pc S' w \<notin> {D_start, D_exit}"
  using assms
  by (cases rule: sim_move.cases)
    (auto simp: disp_start_def disp_receive_def disp_handle_def timer_called_def Let_def
      split: if_splits option.splits prod.splits call.splits disp_pc.splits list.splits)

lemma moves_stay_in_loop:
  "(sim_move P)\<^sup>*\<^sup>* S S' \<Longrightarrow> ss_pc S w \<notin> {D_start, D_exit} \<Longrightarrow> ss_pc S' w \<notin> {D_start, D_exit}"
  by (induction rule: rtranclp_induct) (use stays_in_loop in blast)+

lemma moves_are_steps: "(sim_move P)\<^sup>*\<^sup>* S S' \<Longrightarrow> (sim_step P)\<^sup>*\<^sup>* S S'"
  by (induction rule: rtranclp_induct) (auto intro: s_move rtranclp.rtrancl_into_rtrancl)

lemma move_cnt:
  assumes "sim_move P S S'" and inv: "sim_inv P S" and P: "sim_linux P"
  shows "cnt (ss_obj S One) \<le> cnt (ss_obj S' One)"
  using assms(1)
proof (cases rule: sim_move.cases)
  case (m_start pid cq cb w)
  then have pc: "ss_pc S w = D_start"
    by (auto simp: disp_start_def split: if_splits)
  obtain q go where "S' = S\<lparr>ss_pc := (ss_pc S)(w := if go then D_loop else D_exit), ss_obj := (ss_obj S)(w := started w S q)\<rparr>"
    using start_effect [OF sim_invD(1) [OF inv] pc, of P pid cq cb] m_start by (metis option.inject)
  then show ?thesis
    using sim_invD(1) [OF inv, of w] pc by (auto simp: started_def)
next
  case (m_receive now w)
  obtain e q where "S' = S\<lparr>ss_obj := (ss_obj S)(w := (ss_obj S w)\<lparr>msg_q := q\<rparr>), ss_pc := (ss_pc S)(w := D_got e)\<rparr>"
    by (rule receive_effect [OF sim_invD(1) [OF inv] m_receive])
  then show ?thesis by simp
next
  case (m_handle w)
  obtain e where pc: "ss_pc S w = D_got e"
    using m_handle by (auto simp: disp_handle_def split: disp_pc.splits)
  from inv pc show ?thesis
  proof (cases rule: handle_cases)
    case period
    then show ?thesis using period_inv(6) [OF inv P] pc m_handle by simp
  next
    case send
    then show ?thesis using send_inv(6) [OF inv P] pc m_handle by simp
  next
    case idle
    then show ?thesis using idle_inv(5) [OF inv] pc m_handle by simp
  next
    case ignored
    then show ?thesis by (rule sim_ignored_inv(5) [OF inv pc _ m_handle])
  qed
next
  case (m_timer now)
  then obtain h hs where e: "ss_expired S = h # hs"
    by (auto simp: timer_called_def split: list.splits)
  obtain s where "timer_called P now S = Some (S\<lparr>ss_expired := hs, ss_obj := (ss_obj S)(One := s)\<rparr>)"
    "posted (ss_obj S One) (if_room (ss_obj S One) (sig_event HSM_SIG_PERIOD)) s"
    by (rule timer_effect [OF sim_invD(4) [OF inv] P sim_invD(3) [OF inv] e])
  then show ?thesis using m_timer by (auto elim: postedE)
qed

lemma moves_cnt:
  assumes "(sim_move P)\<^sup>*\<^sup>* S S'" and "sim_inv P S" and "sim_linux P"
  shows "cnt (ss_obj S One) \<le> cnt (ss_obj S' One)"
  using assms
proof (induction rule: rtranclp_induct)
  case (step T U)
  then show ?case
    using move_cnt [OF step(2) sim_reach_inv [OF moves_are_steps [OF step(1)]]] by simp
qed simp

text \<open>No post is lost while few events wait: a queue has 20 places, and a waiting event has a rank of at least 2.\<close>

lemma few_events_room:
  assumes inv: "sim_inv P S" and "ss_pc S w \<notin> {D_start, D_exit}" and "sim_rank S < 40"
  shows "queue_room (ss_obj S w)"
proof -
  have "2 * length es \<le> sum_list (map event_rank es)" for es
    by (induction es) (auto simp: event_rank_def)
  then have "2 * length (hsm_events (ss_obj S w)) \<le> machine_rank S w"
    by (simp add: machine_rank_def trans_le_add2)
  also have "machine_rank S w \<le> sim_rank S"
    by (cases w) (simp_all add: sim_rank_def)
  finally have "length (hsm_events (ss_obj S w)) < 20"
    using assms(3) by simp
  then show ?thesis
    using sim_invD(1) [OF inv, of w] assms(2)
    by (cases "ss_pc S w") (simp_all add: queue_room_def hsm_events_def SIMULATE_TASK_MSG_Q_SIZE_def)
qed

definition both_run :: "sim_sys \<Rightarrow> bool" where
  "both_run S \<longleftrightarrow> (\<forall>w. ss_pc S w \<notin> {D_start, D_exit})"

lemma move_lost:
  assumes "sim_move P S S'" and "sim_inv P S" and "both_run S" and "sim_rank S < 40"
  shows "ss_lost S' = ss_lost S"
proof -
  have "queue_room (ss_obj S w)" for w
    using few_events_room [OF assms(2) _ assms(4)] assms(3) by (simp add: both_run_def)
  with assms(1) show ?thesis
    by (cases rule: sim_move.cases)
      (auto simp: disp_start_def disp_receive_def disp_handle_def timer_called_def posts_in_vain_def Let_def
        split: if_splits option.splits prod.splits call.splits disp_pc.splits list.splits)
qed

lemma moves_lost:
  assumes "(sim_move P)\<^sup>*\<^sup>* S S'" and "sim_inv P S" "sim_linux P" and "both_run S" and "sim_rank S < 40"
  shows "ss_lost S' = ss_lost S \<and> both_run S' \<and> sim_rank S' < 40"
  using assms
proof (induction rule: rtranclp_induct)
  case (step T U)
  then have T: "ss_lost T = ss_lost S" "both_run T" "sim_rank T < 40" "sim_inv P T"
    using sim_reach_inv [OF moves_are_steps [OF step(1)]] by simp_all
  moreover have "both_run U"
    using stays_in_loop [OF step(2)] T(2) by (simp add: both_run_def)
  ultimately show ?case
    using move_lost [OF step(2)] sim_moves.step_rank [of P T U] step(2,5) by simp
qed simp

text \<open>As long as the timer expires, the program can come to rest, and without a loss when the machines keep up with the timer.\<close>

theorem sim_can_rest:
  assumes "sim_inv P S" and P: "sim_linux P" and "both_run S" and "sim_rank S < 40"
  shows "\<exists>S'. (sim_step P)\<^sup>*\<^sup>* S S' \<and> ss_lost S' = ss_lost S \<and> (\<nexists>T. sim_step P S' T)"
  using assms(1,3,4)
proof (induction "nat (12 - cnt (ss_obj S One))" arbitrary: S rule: less_induct)
  case less
  obtain S1 where S1: "(sim_move P)\<^sup>*\<^sup>* S S1" "sim_inv P S1" "\<nexists>T. sim_move P S1 T"
    using sim_moves.comes_to_rest [of P S] less(2) P by metis
  note rest = move_rest [OF S1(2) P S1(3)]
  have keeps: "ss_lost S1 = ss_lost S" "both_run S1" "sim_rank S1 < 40"
    using moves_lost [OF S1(1) less(2) P less(3,4)] by simp_all
  have pc: "ss_pc S1 w = D_loop" and empty: "hsm_events (ss_obj S1 w) = []" for w
    using keeps(2) rest(1,2) [of w] by (auto simp: both_run_def to_handle_def)
  show ?case
  proof (cases "cnt (ss_obj S1 One) \<le> 11")
    case True
    obtain S2 where S2: "(sim_step P)\<^sup>*\<^sup>* S1 S2" "ss_pc S2 = ss_pc S1" "cnt (ss_obj S2 One) = cnt (ss_obj S1 One) + 1"
      "ss_lost S2 \<longleftrightarrow> ss_lost S1 \<or> \<not> queue_room (ss_obj S1 Two)" "sim_rank S2 \<le> sim_rank S1 + 6"
      by (rule tick_round [OF S1(2) P pc empty rest(3) True])
    have "sim_rank S1 = 0"
      using pc empty rest(3) by (simp add: sim_rank_def machine_rank_def)
    moreover have "queue_room (ss_obj S1 Two)"
      using few_events_room [OF S1(2) _ keeps(3)] pc by simp
    moreover have "both_run S2"
      using keeps(2) S2(2) by (simp add: both_run_def)
    moreover have "cnt (ss_obj S One) \<le> cnt (ss_obj S1 One)"
      by (rule moves_cnt [OF S1(1) less(2) P])
    ultimately have "\<exists>S'. (sim_step P)\<^sup>*\<^sup>* S2 S' \<and> ss_lost S' = ss_lost S2 \<and> (\<nexists>T. sim_step P S' T)"
      using less(1) [of S2] S2(3,5) True sim_reach_inv [OF S2(1) S1(2) P] by simp
    moreover have "ss_lost S2 = ss_lost S"
      using S2(4) keeps(1) \<open>queue_room (ss_obj S1 Two)\<close> by simp
    ultimately show ?thesis
      using S2(1) moves_are_steps [OF S1(1)] by (metis rtranclp_trans)
  next
    case False
    then have "\<nexists>T. sim_step P S1 T"
      using timer_runs [OF sim_invD(4) [OF S1(2)]] S1(3) by (metis sim_step.cases)
    then show ?thesis
      using moves_are_steps [OF S1(1)] keeps(1) by metis
  qed
qed

lemma at_rest:
  assumes inv: "sim_inv P S" and P: "sim_linux P" and none: "\<nexists>T. sim_step P S T"
  shows "12 \<le> cnt (ss_obj S One) \<and> ss_pc S One = D_loop \<and> hsm_current (ss_obj S One) = simulate_working_state \<and>
    to_handle S One = [] \<and> to_handle S Two = [] \<and> ss_expired S = [] \<and>
    (\<not> ss_lost S \<longrightarrow> hsm_current (ss_obj S Two) = simulate_idle_state \<and> 5 \<le> send_cnt (ss_obj S Two))"
proof -
  have "\<nexists>T. sim_move P S T"
    using none s_move by metis
  note rest = move_rest [OF inv P this]
  have "\<not> cnt (ss_obj S One) \<le> 11"
    using timer_runs [OF sim_invD(4) [OF inv]] none s_expire by metis
  then have cnt: "12 \<le> cnt (ss_obj S One)" by simp
  have "ss_pc S One \<noteq> D_exit"
    using sim_invD(1) [OF inv, of One] cnt by auto
  then have pc: "ss_pc S One = D_loop"
    using rest(1) [of One] by simp
  have "hsm_current (ss_obj S One) = simulate_working_state"
    using sim_invD(1) [OF inv, of One] sim_invD(5) [OF inv] pc by (auto simp: roles_ok_def)
  moreover have "hsm_current (ss_obj S Two) = simulate_idle_state \<and> 5 \<le> send_cnt (ss_obj S Two)" if "\<not> ss_lost S"
    using sim_invD(6) [OF inv] that cnt rest(2) [of Two] by (auto simp: counts_ok_def sends_def Let_def)
  ultimately show ?thesis
    using cnt pc rest by simp
qed

section \<open>Properties\<close>

text \<open>A start of the program on Linux, with no timer before it, whose timer could be created.\<close>

definition sim_begins :: "timer_sys sim_platform \<Rightarrow> sim_sys \<Rightarrow> bool" where
  "sim_begins P S \<longleftrightarrow>
    sim_linux P \<and> (\<exists>h kid. h \<noteq> NULL \<and> sp_timer_create P = linux_timer_create h kid) \<and>
    (\<exists>run_fn cal crt threads timers. tm_heap timers = Map.empty \<and> simulate_main P run_fn cal crt threads timers = Some S)"

lemma begins_inv:
  assumes "sim_begins P S0" and "(sim_step P)\<^sup>*\<^sup>* S0 S"
  shows "sim_inv P S" "sim_linux P"
  using assms main_inv sim_reach_inv by (auto simp: sim_begins_def)


text \<open>
  C14. The program comes to an end, except that \<^verbatim>\<open>main\<close> sleeps for ever. Between two expiries of the timer it does only finitely much: a run of the dispatchers and
  of the timer handlers already called has at most nine steps for each event that waits and each call under way, and two more
  to start. And when no thread can move and the timer does not expire any more, the first machine has handled at least twelve ticks and
  waits in the state \<open>working\<close> at its empty queue; nothing waits at the second machine, and, if no
  post found its queue full or missing, the second machine is idle.
\<close>

theorem simulate_rest:
  assumes "sim_begins P S0" and "(sim_step P)\<^sup>*\<^sup>* S0 S" and "(sim_move P ^^ n) S S'"
  shows "n \<le> 9 * (length (ss_expired S) + length (to_handle S One) + length (to_handle S Two)) + 2 \<and>
    ((\<nexists>T. sim_step P S' T) \<longrightarrow>
      12 \<le> cnt (ss_obj S' One) \<and> ss_pc S' One = D_loop \<and> hsm_current (ss_obj S' One) = simulate_working_state \<and>
      to_handle S' One = [] \<and> to_handle S' Two = [] \<and> ss_expired S' = [] \<and>
      (\<not> ss_lost S' \<longrightarrow> hsm_current (ss_obj S' Two) = simulate_idle_state \<and> 5 \<le> send_cnt (ss_obj S' Two)))"
proof -
  note inv = begins_inv [OF assms(1,2)]
  have "n + sim_rank S' \<le> sim_rank S" and inv': "sim_inv P S'"
    using sim_moves.run_bound [OF assms(3)] inv by blast+
  then show ?thesis
    using rank_bound [of S] at_rest [OF inv' inv(2)] by fastforce
qed

text \<open>The program on a system where everything succeeds: after both dispatchers have started, nothing waits and nothing is lost.\<close>

definition sample_threads0 :: thread_sys where
  "sample_threads0 = \<lparr>th_handles = Map.empty, th_terminated = (\<lambda>_. False)\<rparr>"

lemma sample_begins:
  obtains S where "sim_begins sample_platform S" "ss_pc S = (\<lambda>_. D_start)" "\<not> ss_lost S"
    "ss_expired S = []" "to_handle S One = []" "to_handle S Two = []"
proof -
  let ?tm = "\<lparr>tm_heap = Map.empty, tm_kernel = Map.empty\<rparr> :: timer_sys" and ?cal = "\<lambda>w. case w of One \<Rightarrow> 7 | Two \<Rightarrow> 8"
  have P: "sim_linux sample_platform" "sp_timer_create sample_platform = linux_timer_create 100 1"
    by (simp_all add: sim_linux_def gives_up_def sample_platform_def)
  have "\<exists>S. simulate_main sample_platform 60 ?cal (\<lambda>_ _ _ _. Inr 3) sample_threads0 ?tm = Some S \<and>
      ss_pc S = (\<lambda>_. D_start) \<and> \<not> ss_lost S \<and> ss_expired S = [] \<and> msg_q (ss_obj S One) = None \<and> msg_q (ss_obj S Two) = None"
    by (simp add: simulate_main_def simulate_create_def osa_hsm_active_init_def osa_hsm_active_start_def osa_thread_create_def
        osa_hsm_active_period_def P(2) linux_timer_create_def osa_timer_create_def zero_simulate_def sample_threads0_def sample_platform_def
        Let_def fun_eq_iff split: machine.split)
  then obtain S where S: "simulate_main sample_platform 60 ?cal (\<lambda>_ _ _ _. Inr 3) sample_threads0 ?tm = Some S"
    "ss_pc S = (\<lambda>_. D_start)" "\<not> ss_lost S" "ss_expired S = []" "msg_q (ss_obj S One) = None" "msg_q (ss_obj S Two) = None"
    by blast
  have "tm_heap ?tm = Map.empty" "(100 :: ptr) \<noteq> NULL"
    by simp_all
  then have "sim_begins sample_platform S"
    using S(1) P unfolding sim_begins_def by metis
  then show ?thesis
    using S by (intro that [of S]) (simp_all add: to_handle_def)
qed

lemma start_succeeds:
  assumes "sim_inv P S" and "ss_pc S w = D_start"
  obtains S' where "sim_move P S S'" "ss_pc S' = (ss_pc S)(w := D_loop)" "ss_lost S' = ss_lost S" "ss_expired S' = ss_expired S"
    "\<forall>v. hsm_events (ss_obj S' v) = hsm_events (ss_obj S v)"
proof -
  obtain q go where st: "disp_start P [] True True w S =
      Some (S\<lparr>ss_pc := (ss_pc S)(w := if go then D_loop else D_exit), ss_obj := (ss_obj S)(w := started w S q)\<rparr>)"
    "go \<longleftrightarrow> True \<and> True" "if go then disp_ok D_loop (started w S q) \<and> hsm_events (started w S q) = [] else q = None"
    by (rule start_effect [OF sim_invD(1) [OF assms(1)] assms(2)])
  have "hsm_events (ss_obj S w) = []"
    using sim_invD(1) [OF assms(1), of w] assms(2) by simp
  with st(2,3) show ?thesis
    by (intro that [OF m_start [OF st(1)]]) auto
qed

lemma sample_started:
  obtains S0 S where "sim_begins sample_platform S0" "(sim_step sample_platform)\<^sup>*\<^sup>* S0 S" "both_run S" "sim_rank S < 40" "\<not> ss_lost S"
proof -
  obtain S0 where S0: "sim_begins sample_platform S0" "ss_pc S0 = (\<lambda>_. D_start)" "\<not> ss_lost S0"
    "ss_expired S0 = []" "to_handle S0 One = []" "to_handle S0 Two = []"
    by (rule sample_begins)
  note inv0 = begins_inv [OF S0(1) rtranclp.rtrancl_refl]
  have pc0: "ss_pc S0 One = D_start" using S0(2) by simp
  obtain S1 where S1: "sim_move sample_platform S0 S1" "ss_pc S1 = (ss_pc S0)(One := D_loop)" "ss_lost S1 = ss_lost S0"
    "ss_expired S1 = ss_expired S0" "\<forall>v. hsm_events (ss_obj S1 v) = hsm_events (ss_obj S0 v)"
    by (rule start_succeeds [OF inv0(1) pc0])
  have inv1: "sim_inv sample_platform S1"
    by (rule sim_step_inv [OF s_move [OF S1(1)] inv0])
  have pc1: "ss_pc S1 Two = D_start" using S0(2) S1(2) by simp
  obtain S2 where S2: "sim_move sample_platform S1 S2" "ss_pc S2 = (ss_pc S1)(Two := D_loop)" "ss_lost S2 = ss_lost S1"
    "ss_expired S2 = ss_expired S1" "\<forall>v. hsm_events (ss_obj S2 v) = hsm_events (ss_obj S1 v)"
    by (rule start_succeeds [OF inv1 pc1])
  have "(sim_step sample_platform)\<^sup>*\<^sup>* S0 S2"
    using s_move [OF S1(1)] s_move [OF S2(1)] by (meson converse_rtranclp_into_rtranclp rtranclp.rtrancl_refl)
  moreover have pc: "ss_pc S2 One = D_loop" "ss_pc S2 Two = D_loop"
    using S1(2) S2(2) by simp_all
  then have "both_run S2"
    by (simp add: both_run_def all_machines)
  moreover have "sim_rank S2 = 0"
    using pc S0(4-6) S1(4,5) S2(4,5) by (simp add: sim_rank_def machine_rank_def to_handle_def)
  ultimately show ?thesis
    using S0(1,3) S1(3) S2(3) by (intro that [of S0 S2]) simp_all
qed


theorem simulate_rest_witness:
  "\<exists>S0 S. sim_begins sample_platform S0 \<and> (sim_step sample_platform)\<^sup>*\<^sup>* S0 S \<and> (\<nexists>S'. sim_step sample_platform S S') \<and>
    \<not> ss_lost S \<and> 12 \<le> cnt (ss_obj S One) \<and> hsm_current (ss_obj S Two) = simulate_idle_state"
proof -
  obtain S0 S1 where S1: "sim_begins sample_platform S0" "(sim_step sample_platform)\<^sup>*\<^sup>* S0 S1" "both_run S1" "sim_rank S1 < 40" "\<not> ss_lost S1"
    by (rule sample_started)
  obtain S where S: "(sim_step sample_platform)\<^sup>*\<^sup>* S1 S" "ss_lost S = ss_lost S1" "\<nexists>T. sim_step sample_platform S T"
    using sim_can_rest [OF begins_inv [OF S1(1,2)] S1(3,4)] by blast
  have reach: "(sim_step sample_platform)\<^sup>*\<^sup>* S0 S"
    using S1(2) S(1) by (rule rtranclp_trans)
  have "(sim_move sample_platform ^^ 0) S S" by simp
  from simulate_rest [OF S1(1) reach this] S(2,3) S1(1,5) reach show ?thesis by blast
qed

end
