(* ===== verification/Pool_Demo.thy ===== *)
theory Pool_Demo
  imports Pool_Start
begin

text \<open>
  The demonstration of the worker pool, \<^verbatim>\<open>examples/linux/worker_pool.c\<close>: \<^verbatim>\<open>main\<close> creates a mutex and a
  pool of two workers, submits five jobs, waits five times for a completion, prints the statistics, stops
  the pool and returns 0 when its own count of executed jobs is 5. \<open>main_setup\<close> is \<^verbatim>\<open>main\<close> up to the
  submissions, with all its early returns; \<open>demo_step\<close> interleaves the rest of \<^verbatim>\<open>main\<close> with the two workers,
  stretch by stretch as in \<^verbatim>\<open>Worker_Threads\<close>. The program installs no signal handler, so no wait is
  interrupted. What is printed of the statistics and the count is part of the state.

  The lemmas: the threads of a successful set-up can be joined; an invariant, kept by every step, finds every
  submitted job queued, with a worker or counted. \<^verbatim>\<open>Pool_Demo_Run\<close> shows that every run ends with 0.
\<close>

section \<open>Setting up\<close>

text \<open>What the operating system answers during the set-up: for the pool, and for the mutex of the program.\<close>

record demo_os = pool_os +
  os_mutex :: bool
  os_mutex_init :: int

text \<open>The addresses of the program: its jobs, its numbers, its functions and the pool; and its main thread.\<close>

record demo_env =
  e_job_items :: ptr
  e_ids :: ptr
  e_test_job_func :: ptr
  e_completion_callback :: ptr
  e_pool :: ptr
  e_worker_fn :: ptr
  e_completion_fn :: ptr
  e_main :: nat

definition main_setup ::
  "demo_env \<Rightarrow> demo_os \<Rightarrow> osa_worker_pool \<Rightarrow> thread_sys \<Rightarrow>
   int option \<times> osa_mutex_internal option \<times> osa_worker_pool \<times> thread_sys" where
  "main_setup env os pool sys =
    (case osa_mutex_create True (os_mutex os) (os_mutex_init os) of
       (r, lock) \<Rightarrow>
         if r \<noteq> 0 then (Some (-1), lock, pool, sys)
         else (case osa_worker_pool_init True pool (Some ''test_pool'') 2 16 (os_dup os) (os_lock os) (os_lock_init os)
                      (os_work_sem os) (os_complete_sem os) (os_array os) of
                 (r, pool) \<Rightarrow>
                   if r \<noteq> 0 then (Some (-1), osa_mutex_destroy lock, pool, sys)
                   else (case osa_worker_pool_start True (e_worker_fn env) (e_completion_fn env) (e_pool env)
                                (os_handles os) (os_create os) pool sys of
                           (r, pool, sys) \<Rightarrow>
                             if r \<noteq> 0 then (Some (-1), osa_mutex_destroy lock, pool, sys)
                             else (None, lock, pool, sys))))"

section \<open>Running\<close>

text \<open>Where \<^verbatim>\<open>main\<close> is: before a submission, a wait, the statistics, the stop with its posts and joins, or done.\<close>

datatype demo_pc = M_submit nat | M_wait nat | M_stats | M_stop | M_post nat | M_join | M_end int

record demo_sys =
  de_pool :: pool_sys
  de_main :: demo_pc
  de_ids :: "ptr \<Rightarrow> int"
  result_lock :: "osa_mutex_internal option"
  demo_job_count :: int
  de_threads :: thread_sys
  de_stats :: "osa_worker_pool_stats option"
  de_shown :: "int option"

abbreviation de_ws :: "demo_sys \<Rightarrow> worker_state" where
  "de_ws S \<equiv> sy_ws (de_pool S)"

definition set_pool :: "worker_state \<Rightarrow> (nat \<Rightarrow> worker_pc) \<Rightarrow> demo_sys \<Rightarrow> demo_sys" where
  "set_pool ws pcs S = S\<lparr>de_pool := (de_pool S)\<lparr>sy_ws := ws, sy_pc := pcs\<rparr>\<rparr>"

definition test_job_func :: "nat \<Rightarrow> ptr \<Rightarrow> demo_sys \<Rightarrow> (int \<times> demo_sys) call" where
  "test_job_func t ctx S =
    (let id = de_ids S ctx
     in case osa_mutex_lock t (result_lock S) of
          Park k \<Rightarrow> Park k
        | Return lock \<Rightarrow>
            Return (id * 10, S\<lparr>demo_job_count := demo_job_count S + 1, result_lock := osa_mutex_unlock lock\<rparr>))"

text \<open>The callback prints only.\<close>

definition completion_callback :: callback where
  "completion_callback fn job result ctx x = x"

text \<open>One round of the loop that submits.\<close>

definition submit_item :: "demo_env \<Rightarrow> nat \<Rightarrow> demo_sys \<Rightarrow> (int \<times> demo_sys) call" where
  "submit_item env i S =
    (let ids = (de_ids S)(e_ids env + i := int i + 1);
         job = e_job_items env + i;
         st = osa_worker_job_init (ws_store (de_ws S)) job (e_test_job_func env) (e_ids env + i)
                (e_completion_callback env) NULL
     in map_call (\<lambda>(r, ws). (r, set_pool ws (sy_pc (de_pool S)) (S\<lparr>de_ids := ids\<rparr>)))
          (osa_worker_pool_submit (e_main env) True job ((de_ws S)\<lparr>ws_store := st\<rparr>)))"

inductive demo_step :: "demo_env \<Rightarrow> demo_sys \<Rightarrow> demo_sys \<Rightarrow> bool" for env where
  m_submit: "de_main S = M_submit i \<Longrightarrow> submit_item env i S = Return (r, S') \<Longrightarrow>
    demo_step env S (S'\<lparr>de_main := (if Suc i < 5 then M_submit (Suc i) else M_wait 0)\<rparr>)"
| m_wait: "de_main S = M_wait i \<Longrightarrow>
    osa_worker_pool_wait (e_main env) True (e_job_items env + i) (-1) clock (de_ws S) = Return (r, ws) \<Longrightarrow>
    demo_step env S ((set_pool ws (sy_pc (de_pool S)) S)\<lparr>de_main := (if Suc i < 5 then M_wait (Suc i) else M_stats)\<rparr>)"
| m_stats: "de_main S = M_stats \<Longrightarrow>
    osa_worker_pool_get_stats (e_main env) True True (de_ws S) = Return ((r, st), ws) \<Longrightarrow>
    demo_step env S ((set_pool ws (sy_pc (de_pool S)) S)\<lparr>de_stats := (if r = 0 then st else None), de_main := M_stop\<rparr>)"
| m_stop: "de_main S = M_stop \<Longrightarrow> stop_signal (e_main env) (de_ws S) = Return ws \<Longrightarrow>
    demo_step env S ((set_pool ws (sy_pc (de_pool S)) S)\<lparr>de_shown := Some (demo_job_count S), de_main := M_post 0\<rparr>)"
| m_post: "de_main S = M_post i \<Longrightarrow>
    demo_step env S (S\<lparr>de_pool := (de_pool S)\<lparr>sy_ws := stop_post (de_ws S), sy_posts := Suc (sy_posts (de_pool S))\<rparr>,
      de_main := (if Suc i < unat (num_workers (ws_pool (de_ws S))) then M_post (Suc i) else M_join)\<rparr>)"
| m_join: "de_main S = M_join \<Longrightarrow> (\<And>t. sy_pc (de_pool S) t = W_exit) \<Longrightarrow> \<not> osa_worker_completion_thread (de_ws S) \<Longrightarrow>
    stop_join (de_ws S) ((de_threads S)\<lparr>th_terminated := (\<lambda>_. True)\<rparr>) = Some (Return (ws, sys)) \<Longrightarrow>
    demo_step env S ((set_pool ws (sy_pc (de_pool S)) S)\<lparr>de_threads := sys, result_lock := osa_mutex_destroy (result_lock S),
      de_main := M_end (if demo_job_count S = 5 then 0 else -1)\<rparr>)"
| d_take: "sy_pc (de_pool S) t = W_wait \<Longrightarrow>
    osa_sem_wait (work_sem_of (de_ws S)) (-1) clock = Return (0, sem) \<Longrightarrow>
    demo_step env S (set_pool (upd_pool (\<lambda>p. p\<lparr>wp_work_sem := sem\<rparr>) (de_ws S)) ((sy_pc (de_pool S))(t := W_woken)) S)"
| d_fetch: "sy_pc (de_pool S) t = W_woken \<Longrightarrow> worker_fetch t (de_ws S) = Return (f, ws) \<Longrightarrow>
    demo_step env S (set_pool ws ((sy_pc (de_pool S))(t := after_fetch f)) S)"
| d_exec: "sy_pc (de_pool S) t = W_run j \<Longrightarrow>
    test_job_func t (job_ctx (jobs (ws_store (de_ws S)) j)) S = Return (ret, S') \<Longrightarrow>
    demo_step env S (set_pool (job_executed j ret (de_ws S)) ((sy_pc (de_pool S))(t := W_return j)) S')"
| d_complete: "sy_pc (de_pool S) t = W_return j \<Longrightarrow>
    worker_complete t completion_callback pad now j (sy_hsms (de_pool S)) (de_ws S) = Return (hsms, ws) \<Longrightarrow>
    demo_step env S (set_pool ws ((sy_pc (de_pool S))(t := W_wait)) (S\<lparr>de_pool := (de_pool S)\<lparr>sy_hsms := hsms\<rparr>\<rparr>))"

text \<open>The state after the set-up: both workers at the semaphore, nothing submitted.\<close>

definition demo_init ::
  "osa_mutex_internal option \<Rightarrow> osa_worker_pool \<Rightarrow> thread_sys \<Rightarrow> job_store \<Rightarrow> (ptr \<Rightarrow> int) \<Rightarrow> hsm_table \<Rightarrow> demo_sys" where
  "demo_init lock pool sys st ids hsms =
    \<lparr>de_pool = pool_start (unat (num_workers pool)) \<lparr>ws_pool = pool, ws_store = st\<rparr> hsms, de_main = M_submit 0,
     de_ids = ids, result_lock = lock, demo_job_count = 0, de_threads = sys, de_stats = None, de_shown = None\<rparr>"

section \<open>The set-up\<close>

text \<open>The objects and functions of the program have addresses.\<close>

definition env_ok :: "demo_env \<Rightarrow> bool" where
  "env_ok env \<longleftrightarrow> e_job_items env \<noteq> NULL \<and> e_test_job_func env \<noteq> NULL \<and> e_worker_fn env \<noteq> NULL"

lemma setup_ok:
  assumes set_up: "main_setup env os pool0 sys0 = (None, lock, pool, sys)" and contract: "os_contract os sys0"
  shows "lock = free_lock" "joinable pool sys" "fresh_pool pool" "num_workers pool = 2" "queue_size pool = 16"
    "map_option sem_value (wp_complete_sem pool) = Some 0"
proof -
  obtain p where l: "osa_mutex_create True (os_mutex os) (os_mutex_init os) = (0, lock)"
    and i: "osa_worker_pool_init True pool0 (Some ''test_pool'') 2 16 (os_dup os) (os_lock os) (os_lock_init os)
        (os_work_sem os) (os_complete_sem os) (os_array os) = (0, p)"
    and s: "osa_worker_pool_start True (e_worker_fn env) (e_completion_fn env) (e_pool env) (os_handles os) (os_create os) p sys0 =
        (0, pool, sys)"
    using set_up by (auto simp: main_setup_def split: prod.splits if_splits)
  show "lock = free_lock"
    using l by (auto simp: osa_mutex_create_def c_consts split: if_splits)
  note st = started_pool [OF i s contract]
  show "joinable pool sys" "fresh_pool pool" "num_workers pool = 2" "queue_size pool = 16"
    "map_option sem_value (wp_complete_sem pool) = Some 0"
    using st by (simp_all add: SEM_VALUE_MAX_def)
qed

section \<open>The invariant\<close>

text \<open>How far \<^verbatim>\<open>main\<close> is.\<close>

fun submitted :: "demo_pc \<Rightarrow> nat" where
  "submitted (M_submit i) = i"
| "submitted _ = 5"

fun waited :: "demo_pc \<Rightarrow> nat" where
  "waited (M_submit _) = 0"
| "waited (M_wait i) = i"
| "waited _ = 5"

fun posted :: "demo_pc \<Rightarrow> nat" where
  "posted (M_post i) = i"
| "posted M_join = 2"
| "posted _ = 0"

fun stopping :: "demo_pc \<Rightarrow> bool" where
  "stopping (M_post _) = True"
| "stopping M_join = True"
| "stopping _ = False"

fun pc_valid :: "demo_pc \<Rightarrow> bool" where
  "pc_valid (M_submit i) = (i < 5)"
| "pc_valid (M_wait i) = (i < 5)"
| "pc_valid (M_post i) = (i < 2)"
| "pc_valid (M_end _) = False"
| "pc_valid _ = True"

text \<open>The workers that hold a job, and those among them that have executed it.\<close>

definition holds :: "worker_pc \<Rightarrow> nat" where
  "holds x = (if busy_with x = None then 0 else 1)"

fun executed :: "worker_pc \<Rightarrow> nat" where
  "executed (W_return _) = 1"
| "executed _ = 0"

definition all_done :: osa_worker_pool_stats where
  "all_done = \<lparr>total_submitted = 5, total_completed = 5, total_cancelled = 0, total_errors = 0, queue_depth = 0, active_workers = 0\<rparr>"

abbreviation de_pc :: "demo_sys \<Rightarrow> nat \<Rightarrow> worker_pc" where
  "de_pc S \<equiv> sy_pc (de_pool S)"

abbreviation de_jq :: "demo_sys \<Rightarrow> ptr list" where
  "de_jq S \<equiv> jq_contents (de_ws S)"

definition ok_pool :: "uint32 \<times> ptr option list option \<times> ptr \<Rightarrow> thread_sys \<Rightarrow> demo_sys \<Rightarrow> bool" where
  "ok_pool T sys S \<longleftrightarrow>
    inv_queue 2 (de_pool S) \<and> inv_tokens 2 (de_pool S) \<and> queue_size (ws_pool (de_ws S)) = 16 \<and>
    shutdown (ws_pool (de_ws S)) = stopping (de_main S) \<and> sy_posts (de_pool S) = posted (de_main S) \<and>
    (\<not> stopping (de_main S) \<longrightarrow> (\<forall>t < 2. de_pc S t \<noteq> W_exit)) \<and>
    pool_threads (de_ws S) = T \<and> de_threads S = sys"

text \<open>Every submitted job is queued, with a worker, or completed; completions not waited for are tokens.\<close>

definition ok_counts :: "demo_sys \<Rightarrow> bool" where
  "ok_counts S \<longleftrightarrow>
    (\<exists>sem. complete_sem_of (de_ws S) = Some sem \<and>
      submitted (de_main S) = length (de_jq S) + pc_sum 2 holds (de_pc S) + waited (de_main S) + sem_value sem \<and>
      demo_job_count S = int (pc_sum 2 executed (de_pc S) + waited (de_main S) + sem_value sem) \<and>
      total_completed (stats (ws_pool (de_ws S))) = of_nat (waited (de_main S) + sem_value sem)) \<and>
    total_submitted (stats (ws_pool (de_ws S))) = of_nat (submitted (de_main S)) \<and>
    total_cancelled (stats (ws_pool (de_ws S))) = 0 \<and> total_errors (stats (ws_pool (de_ws S))) = 0 \<and>
    active_of (de_ws S) = of_nat (pc_sum 2 holds (de_pc S))"

definition ok_jobs :: "demo_env \<Rightarrow> demo_sys \<Rightarrow> bool" where
  "ok_jobs env S \<longleftrightarrow>
    (\<forall>p. in_use (de_pool S) p \<longrightarrow>
      (\<exists>i < submitted (de_main S). p = e_job_items env + i \<and> job_ctx (jobs (ws_store (de_ws S)) p) = e_ids env + i) \<and>
      job_func (jobs (ws_store (de_ws S)) p) = e_test_job_func env) \<and>
    (\<forall>t j. de_pc S t = W_return j \<longrightarrow> 0 \<le> job_result (jobs (ws_store (de_ws S)) j)) \<and>
    (\<forall>i < submitted (de_main S). de_ids S (e_ids env + i) = int i + 1) \<and> result_lock S = free_lock"

fun ok_printed :: "demo_pc \<Rightarrow> osa_worker_pool_stats option \<Rightarrow> int option \<Rightarrow> bool" where
  "ok_printed M_stop st n = (st = Some all_done)"
| "ok_printed (M_post _) st n = (st = Some all_done \<and> n = Some 5)"
| "ok_printed M_join st n = (st = Some all_done \<and> n = Some 5)"
| "ok_printed (M_end r) st n = (r = 0 \<and> st = Some all_done \<and> n = Some 5)"
| "ok_printed _ st n = True"

definition demo_inv :: "demo_env \<Rightarrow> uint32 \<times> ptr option list option \<times> ptr \<Rightarrow> thread_sys \<Rightarrow> demo_sys \<Rightarrow> bool" where
  "demo_inv env T sys S \<longleftrightarrow>
    ok_printed (de_main S) (de_stats S) (de_shown S) \<and>
    (case de_main S of
       M_end r \<Rightarrow> \<forall>t. de_pc S t = W_exit
     | _ \<Rightarrow> pc_valid (de_main S) \<and> ok_pool T sys S \<and> ok_counts S \<and> ok_jobs env S)"

lemma set_pool_simps [simp]:
  "de_pool (set_pool ws pcs S) = (de_pool S)\<lparr>sy_ws := ws, sy_pc := pcs\<rparr>" "de_main (set_pool ws pcs S) = de_main S"
  "de_ids (set_pool ws pcs S) = de_ids S" "result_lock (set_pool ws pcs S) = result_lock S"
  "demo_job_count (set_pool ws pcs S) = demo_job_count S" "de_threads (set_pool ws pcs S) = de_threads S"
  "de_stats (set_pool ws pcs S) = de_stats S" "de_shown (set_pool ws pcs S) = de_shown S"
  by (simp_all add: set_pool_def)

lemma demo_invI:
  assumes "de_main S \<notin> range M_end" "ok_printed (de_main S) (de_stats S) (de_shown S)" "pc_valid (de_main S)"
    "ok_pool T sys S" "ok_counts S" "ok_jobs env S"
  shows "demo_inv env T sys S"
  using assms by (auto simp: demo_inv_def split: demo_pc.split)

lemma demo_invD:
  assumes "demo_inv env T sys S" and "de_main S \<notin> range M_end"
  shows "ok_printed (de_main S) (de_stats S) (de_shown S)" "pc_valid (de_main S)" "ok_pool T sys S" "ok_counts S" "ok_jobs env S"
  using assms by (auto simp: demo_inv_def split: demo_pc.splits)

lemma ok_poolD:
  assumes "ok_pool T sys S"
  shows "inv_queue 2 (de_pool S)" "inv_tokens 2 (de_pool S)" "wp_lock (ws_pool (de_ws S)) = free_lock"
    "job_queue_rep (de_ws S) (de_jq S)" "queue_size (ws_pool (de_ws S)) = 16"
    "shutdown (ws_pool (de_ws S)) = stopping (de_main S)" "sy_posts (de_pool S) = posted (de_main S)"
    "\<And>t. \<not> stopping (de_main S) \<Longrightarrow> t < 2 \<Longrightarrow> de_pc S t \<noteq> W_exit"
    "pool_threads (de_ws S) = T" "de_threads S = sys"
  using assms inv_queueD(1,2) [of 2 "de_pool S"] by (auto simp: ok_pool_def)

text \<open>A step of the pool keeps its part of the invariant.\<close>

lemma ok_pool_step:
  assumes ok: "ok_pool T sys S" and step: "pool_step 2 (de_pool S) s" and s: "sy_ws s = de_ws S'" "sy_pc s = de_pc S'"
    "sy_posts s = sy_posts (de_pool S')"
    and "queue_size (ws_pool (de_ws S')) = 16" "shutdown (ws_pool (de_ws S')) = stopping (de_main S')"
    "sy_posts (de_pool S') = posted (de_main S')" "\<And>t. \<not> stopping (de_main S') \<Longrightarrow> t < 2 \<Longrightarrow> de_pc S' t \<noteq> W_exit"
    "pool_threads (de_ws S') = T" "de_threads S' = sys"
  shows "ok_pool T sys S'"
proof -
  have "inv_queue 2 s" "inv_tokens 2 s"
    using pool_step_queue [OF step] pool_step_tokens [OF step] ok_poolD(1,2) [OF ok] by blast+
  then have "inv_queue 2 (de_pool S')" "inv_tokens 2 (de_pool S')"
    using invs_cong(1,2) [of "de_pool S'" s 2] s by simp_all
  then show ?thesis
    using assms by (simp add: ok_pool_def)
qed

lemma ok_jobs_frame:
  assumes ok: "ok_jobs env S" and use: "\<And>p. in_use (de_pool S') p \<Longrightarrow> in_use (de_pool S) p"
    and pay: "\<And>p. in_use (de_pool S') p \<Longrightarrow> job_ctx (jobs (ws_store (de_ws S')) p) = job_ctx (jobs (ws_store (de_ws S)) p)"
      "\<And>p. in_use (de_pool S') p \<Longrightarrow> job_func (jobs (ws_store (de_ws S')) p) = job_func (jobs (ws_store (de_ws S)) p)"
    and ret: "\<And>t j. de_pc S' t = W_return j \<Longrightarrow> 0 \<le> job_result (jobs (ws_store (de_ws S')) j)"
    and m: "submitted (de_main S') = submitted (de_main S)" "de_ids S' = de_ids S" "result_lock S' = result_lock S"
  shows "ok_jobs env S'"
proof -
  have "(\<exists>i < submitted (de_main S). p = e_job_items env + i \<and> job_ctx (jobs (ws_store (de_ws S')) p) = e_ids env + i) \<and>
      job_func (jobs (ws_store (de_ws S')) p) = e_test_job_func env" if "in_use (de_pool S') p" for p
    using ok use [OF that] pay [OF that] by (simp add: ok_jobs_def)
  then show ?thesis
    using ok ret unfolding ok_jobs_def m by blast
qed

lemma ok_jobs_ret:
  assumes "ok_jobs env S" and "de_pc S t = W_return j"
  shows "0 \<le> job_result (jobs (ws_store (de_ws S)) j)"
  using assms by (simp add: ok_jobs_def)

text \<open>What is in use when one worker moves.\<close>

lemma in_use_moved:
  assumes "in_use (de_pool S') p" and "de_pc S' = (de_pc S)(t := x)" and "set (de_jq S') \<subseteq> set (de_jq S)"
    and "busy_with x = Some p \<Longrightarrow> in_use (de_pool S) p"
  shows "in_use (de_pool S) p"
proof -
  consider "p \<in> set (de_jq S')" | "busy_with x = Some p" | u where "u \<noteq> t" "busy_with (de_pc S u) = Some p"
    using assms(1,2) by (auto simp: in_use_def split: if_splits)
  then show ?thesis
    using assms(3,4) by cases (auto simp: in_use_def)
qed

section \<open>The workers keep the invariant\<close>

lemma demo_worker_bound:
  assumes "demo_inv env T sys S" and "de_pc S t \<noteq> W_exit"
  shows "de_main S \<notin> range M_end" "t < 2"
proof -
  show m: "de_main S \<notin> range M_end"
    using assms by (auto simp: demo_inv_def)
  show "t < 2"
    using ok_poolD(1) [OF demo_invD(3) [OF assms(1) m]] assms(2) by (auto simp: inv_queue_def not_less [symmetric])
qed

lemma take_ok:
  assumes inv: "demo_inv env T sys S" and pc: "de_pc S t = W_wait"
    and sem: "osa_sem_wait (work_sem_of (de_ws S)) (-1) clock = Return (0, sem)"
  shows "demo_inv env T sys (set_pool (upd_pool (\<lambda>p. p\<lparr>wp_work_sem := sem\<rparr>) (de_ws S)) ((de_pc S)(t := W_woken)) S)"
    (is "demo_inv env T sys ?S")
proof -
  note b = demo_worker_bound [OF inv, of t]
  have m: "de_main S \<notin> range M_end" and t: "t < 2"
    using b pc by simp_all
  note ok = demo_invD [OF inv m]
  have step: "pool_step 2 (de_pool S) ((de_pool S)\<lparr>sy_ws := upd_pool (\<lambda>p. p\<lparr>wp_work_sem := sem\<rparr>) (de_ws S),
      sy_pc := (de_pc S)(t := W_woken)\<rparr>)"
    by (rule w_take [OF pc sem])
  have jq: "de_jq ?S = de_jq S"
    using rep_contents [OF sem_rep [OF ok_poolD(1) [OF ok(3)]], of sem] by simp
  show ?thesis
  proof (rule demo_invI)
    show "ok_pool T sys ?S"
      by (rule ok_pool_step [OF ok(3) step]) (use ok_poolD [OF ok(3)] in \<open>auto simp: pool_threads_def\<close>)
    show "ok_counts ?S"
      using ok(4) jq pc_sum_move [OF t, of holds "de_pc S" W_woken] pc_sum_move [OF t, of executed "de_pc S" W_woken] pc
      by (simp add: ok_counts_def holds_def)
    show "ok_jobs env ?S"
    proof (rule ok_jobs_frame [OF ok(5)])
      show "in_use (de_pool S) p" if "in_use (de_pool ?S) p" for p
        by (rule in_use_moved [OF that, where x = W_woken]) (use jq in simp_all)
      show "0 \<le> job_result (jobs (ws_store (de_ws ?S)) j)" if "de_pc ?S u = W_return j" for u j
        using that ok_jobs_ret [OF ok(5), of u j] by (auto split: if_splits)
    qed simp_all
  qed (use ok m in simp_all)
qed

lemma fetch_ok:
  assumes inv: "demo_inv env T sys S" and pc: "de_pc S t = W_woken" and f: "worker_fetch t (de_ws S) = Return (f, ws)"
  shows "demo_inv env T sys (set_pool ws ((de_pc S)(t := after_fetch f)) S)" (is "demo_inv env T sys ?S")
proof -
  note b = demo_worker_bound [OF inv, of t]
  have m: "de_main S \<notin> range M_end" and t: "t < 2"
    using b pc by simp_all
  note ok = demo_invD [OF inv m] and keep = fetch_keeps [OF f]
  note pool = ok_poolD [OF ok(3)]
  note eff = fetch_effect [OF pool(3,4) f]
  have step: "pool_step 2 (de_pool S) ((de_pool S)\<lparr>sy_ws := ws, sy_pc := (de_pc S)(t := after_fetch f)\<rparr>)"
    by (rule w_fetch [OF pc f])
  have kept: "queue_size (ws_pool ws) = 16" "shutdown (ws_pool ws) = stopping (de_main S)"
    using eff pool by (simp_all add: pool_kept_def)
  have exit: "after_fetch f \<noteq> W_exit" if "\<not> stopping (de_main S)"
    using eff pool(6) that by (auto split: list.splits)
  consider (job) j ys where "f = Fetch_job j" "de_jq S = j # ys" "jq_contents ws = ys" "active_of ws = active_of (de_ws S) + 1"
    | (none) "busy_with (after_fetch f) = None" "executed (after_fetch f) = 0" "jq_contents ws = de_jq S" "active_of ws = active_of (de_ws S)"
      "\<And>q. f \<noteq> Fetch_job q"
    using eff by (auto split: if_splits list.splits dest: rep_contents)
  note split = this
  show ?thesis
  proof (rule demo_invI)
    show "ok_pool T sys ?S"
      by (rule ok_pool_step [OF ok(3) step]) (use pool kept keep(4) exit in auto)
    show "ok_counts ?S"
      using split
    proof cases
      case (job j ys)
      then show ?thesis
        using ok(4) keep pc pc_sum_move [OF t, of holds "de_pc S" "W_run j"] pc_sum_move [OF t, of executed "de_pc S" "W_run j"]
        by (auto simp: ok_counts_def holds_def)
    next
      case none
      then show ?thesis
        using ok(4) keep pc pc_sum_move [OF t, of holds "de_pc S" "after_fetch f"] pc_sum_move [OF t, of executed "de_pc S" "after_fetch f"]
        by (simp add: ok_counts_def holds_def)
    qed
    show "ok_jobs env ?S"
    proof (rule ok_jobs_frame [OF ok(5)])
      have sub: "set (jq_contents ws) \<subseteq> set (de_jq S)"
        using split by cases auto
      have new: "in_use (de_pool S) p" if "busy_with (after_fetch f) = Some p" for p
        using split that by cases (auto simp: in_use_def)
      show "in_use (de_pool S) p" if "in_use (de_pool ?S) p" for p
        by (rule in_use_moved [OF that, where x = "after_fetch f"]) (use sub new in simp_all)
      show "0 \<le> job_result (jobs (ws_store (de_ws ?S)) j)" if "de_pc ?S u = W_return j" for u j
      proof -
        have "de_pc S u = W_return j"
          using split that by cases (auto split: if_splits)
        then show ?thesis
          using ok_jobs_ret [OF ok(5)] keep(1) [of j] by simp
      qed
    qed (use keep(1) in simp_all)
  qed (use ok m in simp_all)
qed

lemma exec_ok:
  assumes inv: "demo_inv env T sys S" and env: "env_ok env" and pc: "de_pc S t = W_run j"
    and f: "test_job_func t (job_ctx (jobs (ws_store (de_ws S)) j)) S = Return (ret, S')"
  shows "demo_inv env T sys (set_pool (job_executed j ret (de_ws S)) ((de_pc S)(t := W_return j)) S')" (is "demo_inv env T sys ?S")
proof -
  note b = demo_worker_bound [OF inv, of t]
  have m: "de_main S \<notin> range M_end" and t: "t < 2"
    using b pc by simp_all
  note ok = demo_invD [OF inv m]
  note pool = ok_poolD [OF ok(3)]
  let ?ctx = "job_ctx (jobs (ws_store (de_ws S)) j)"
  have use: "in_use (de_pool S) j"
    using pc unfolding in_use_def by (metis busy_with.simps(1))
  have "result_lock S = free_lock"
    using ok(5) by (simp add: ok_jobs_def)
  then have S': "S' = S\<lparr>demo_job_count := demo_job_count S + 1\<rparr>" "ret = de_ids S ?ctx * 10"
    using f by (auto simp: test_job_func_def Let_def osa_mutex_lock_def osa_mutex_unlock_def)
  have func: "job_func (jobs (ws_store (de_ws S)) j) \<noteq> NULL" and ret: "0 \<le> ret"
    using ok(5) use env S'(2) by (auto simp: ok_jobs_def env_ok_def)
  have step: "pool_step 2 (de_pool S) ((de_pool S)\<lparr>sy_ws := job_executed j ret (de_ws S), sy_pc := (de_pc S)(t := W_return j)\<rparr>)"
    by (rule w_exec [OF pc])
  have jq: "de_jq ?S = de_jq S"
    using rep_contents [OF exec_rep [OF pool(1)], of t j ret] pc by (simp add: S'(1))
  show ?thesis
  proof (rule demo_invI)
    show "ok_pool T sys ?S"
      by (rule ok_pool_step [OF ok(3) step]) (use pool in \<open>auto simp: S'(1) pool_threads_def\<close>)
    show "ok_counts ?S"
      using ok(4) jq pc_sum_move [OF t, of holds "de_pc S" "W_return j"] pc_sum_move [OF t, of executed "de_pc S" "W_return j"] pc
      by (auto simp: ok_counts_def holds_def S'(1))
    show "ok_jobs env ?S"
    proof (rule ok_jobs_frame [OF ok(5)])
      show "in_use (de_pool S) p" if "in_use (de_pool ?S) p" for p
        by (rule in_use_moved [OF that, where x = "W_return j"]) (use jq use in \<open>simp_all add: S'(1)\<close>)
      show "0 \<le> job_result (jobs (ws_store (de_ws ?S)) i)" if "de_pc ?S u = W_return i" for u i
        using that ok_jobs_ret [OF ok(5), of u i] func ret by (auto simp: S'(1) split: if_splits)
    qed (simp_all add: S'(1))
  qed (use ok m in \<open>simp_all add: S'(1)\<close>)
qed

lemma complete_ok:
  assumes inv: "demo_inv env T sys S" and pc: "de_pc S t = W_return j"
    and c: "worker_complete t completion_callback pad now j (sy_hsms (de_pool S)) (de_ws S) = Return (hsms, ws)"
  shows "demo_inv env T sys (set_pool ws ((de_pc S)(t := W_wait)) (S\<lparr>de_pool := (de_pool S)\<lparr>sy_hsms := hsms\<rparr>\<rparr>))"
    (is "demo_inv env T sys ?S")
proof -
  note b = demo_worker_bound [OF inv, of t]
  have m: "de_main S \<notin> range M_end" and t: "t < 2"
    using b pc by simp_all
  note ok = demo_invD [OF inv m]
  note pool = ok_poolD [OF ok(3)]
  let ?jb = "jobs (ws_store (de_ws S)) j"
  have res: "0 \<le> job_result ?jb"
    by (rule ok_jobs_ret [OF ok(5) pc])
  note ws = complete_keeps [OF pool(3) completion_callback_def c]
  note st = ws(1)
  have frame: "jobs (ws_store ws) p = jobs (ws_store (de_ws S)) p" if "p \<in> set (de_jq S)" for p
    using that inv_queue_busy(2) [OF pool(1), of t j] pc st [of p] by auto
  note eff = complete_effect [OF pool(3,4) c frame]
  have jq: "jq_contents ws = de_jq S"
    using eff rep_contents by blast
  have step: "pool_step 2 (de_pool S) ((de_pool S)\<lparr>sy_ws := ws, sy_hsms := hsms, sy_pc := (de_pc S)(t := W_wait)\<rparr>)"
    by (rule w_complete [OF pc c]) (simp add: st)
  obtain sem where sem: "complete_sem_of (de_ws S) = Some sem" "sem_value sem \<le> submitted (de_main S)"
    using ok(4) by (auto simp: ok_counts_def)
  have "submitted (de_main S) \<le> 5"
    using ok(2) by (cases "de_main S") simp_all
  then have post: "complete_sem_of ws = Some (sem\<lparr>sem_value := Suc (sem_value sem)\<rparr>)"
    using ws(2) sem by (simp add: osa_sem_post_def SEM_VALUE_MAX_def)
  show ?thesis
  proof (rule demo_invI)
    show "ok_pool T sys ?S"
      by (rule ok_pool_step [OF ok(3) step]) (use pool eff ws(3) in \<open>auto simp: pool_kept_def\<close>)
    have h: "pc_sum 2 holds (de_pc S) = Suc (pc_sum 2 holds ((de_pc S)(t := W_wait)))"
      using pc_sum_move [OF t, of holds "de_pc S" W_wait] pc by (simp add: holds_def)
    then have "active_of ws = of_nat (pc_sum 2 holds ((de_pc S)(t := W_wait)))"
      using eff ok(4) by (simp add: ok_counts_def)
    then show "ok_counts ?S"
      using ok(4) jq post sem(1) ws(4-7) res pc h pc_sum_move [OF t, of executed "de_pc S" W_wait]
      by (auto simp: ok_counts_def)
    show "ok_jobs env ?S"
    proof (rule ok_jobs_frame [OF ok(5)])
      show "in_use (de_pool S) p" if "in_use (de_pool ?S) p" for p
        by (rule in_use_moved [OF that, where x = W_wait]) (use jq in simp_all)
      show "0 \<le> job_result (jobs (ws_store (de_ws ?S)) i)" if "de_pc ?S u = W_return i" for u i
        using that ok_jobs_ret [OF ok(5), of u i] st [of i] by (auto split: if_splits)
    qed (use st in simp_all)
  qed (use ok m in simp_all)
qed

section \<open>The main thread keeps the invariant\<close>

lemma job_init_fields:
  assumes "job \<noteq> NULL"
  shows "job_ctx (jobs (osa_worker_job_init st job f ctx cb cctx) p) = (if p = job then ctx else job_ctx (jobs st p))"
    "job_func (jobs (osa_worker_job_init st job f ctx cb cctx) p) = (if p = job then f else job_func (jobs st p))"
    "job_result (jobs (osa_worker_job_init st job f ctx cb cctx) p) = (if p = job then 0 else job_result (jobs st p))"
  using assms by (simp_all add: osa_worker_job_init_def Let_def)

text \<open>A submission finds room: the job is new, and goes to the end of the queue.\<close>

lemma submit_item_effect:
  assumes inv: "demo_inv env T sys S" and env: "env_ok env" and m: "de_main S = M_submit i"
    and call: "submit_item env i S = Return (r, S')"
  obtains ws where "S' = set_pool ws (de_pc S) (S\<lparr>de_ids := (de_ids S)(e_ids env + i := int i + 1)\<rparr>)"
    "jq_contents ws = de_jq S @ [e_job_items env + i]" "work_sem_of ws = osa_sem_post (work_sem_of (de_ws S))"
    "inv_queue 2 (de_pool S')" "inv_tokens 2 (de_pool S')"
    "queue_size (ws_pool ws) = 16" "\<not> shutdown (ws_pool ws)" "pool_threads ws = pool_threads (de_ws S)"
    "complete_sem_of ws = complete_sem_of (de_ws S)" "active_of ws = active_of (de_ws S)"
    "total_submitted (stats (ws_pool ws)) = total_submitted (stats (ws_pool (de_ws S))) + 1"
    "total_completed (stats (ws_pool ws)) = total_completed (stats (ws_pool (de_ws S)))"
    "total_cancelled (stats (ws_pool ws)) = total_cancelled (stats (ws_pool (de_ws S)))"
    "total_errors (stats (ws_pool ws)) = total_errors (stats (ws_pool (de_ws S)))"
    "\<And>p. job_ctx (jobs (ws_store ws) p) = (if p = e_job_items env + i then e_ids env + i else job_ctx (jobs (ws_store (de_ws S)) p))"
    "\<And>p. job_func (jobs (ws_store ws) p) =
      (if p = e_job_items env + i then e_test_job_func env else job_func (jobs (ws_store (de_ws S)) p))"
    "\<And>p. job_result (jobs (ws_store ws) p) = (if p = e_job_items env + i then 0 else job_result (jobs (ws_store (de_ws S)) p))"
proof -
  have "de_main S \<notin> range M_end"
    using m by auto
  note ok = demo_invD [OF inv this]
  note pool = ok_poolD [OF ok(3)]
  let ?job = "e_job_items env + i"
  let ?st = "osa_worker_job_init (ws_store (de_ws S)) ?job (e_test_job_func env) (e_ids env + i) (e_completion_callback env) NULL"
  let ?ws0 = "(de_ws S)\<lparr>ws_store := ?st\<rparr>"
  let ?s0 = "(de_pool S)\<lparr>sy_ws := ?ws0\<rparr>"
  have nn: "?job \<noteq> NULL"
    using env by (simp add: env_ok_def)
  obtain ws where sub: "osa_worker_pool_submit (e_main env) True ?job ?ws0 = Return (r, ws)"
    and S': "S' = set_pool ws (de_pc S) (S\<lparr>de_ids := (de_ids S)(e_ids env + i := int i + 1)\<rparr>)"
    using call by (cases "osa_worker_pool_submit (e_main env) True ?job ?ws0") (auto simp: submit_item_def Let_def)
  have fresh: "\<not> in_use (de_pool S) ?job"
    using ok(5) m by (auto simp: ok_jobs_def)
  have st: "jobs ?st q = jobs (ws_store (de_ws S)) q" if "q \<noteq> ?job" for q
    using nn that by (simp add: osa_worker_job_init_def Let_def)
  have frame: "jobs ?st p = jobs (ws_store (de_ws S)) p" if "in_use (de_pool S) p" for p
    using st [of p] fresh that by metis
  have step1: "pool_step 2 (de_pool S) ?s0"
    by (rule w_client [OF frame])
  have inv1: "inv_queue 2 ?s0" "inv_tokens 2 ?s0"
    using pool_step_queue [OF step1 pool(1)] pool_step_tokens [OF step1 pool(1,2)] by simp_all
  have jq0: "jq_contents ?ws0 = de_jq S"
    by (rule rep_contents [OF client_rep [OF pool(1) frame]])
  have new: "?job \<notin> set (jq_contents ?ws0)" and use0: "\<not> in_use ?s0 ?job"
    using fresh jq0 by (simp_all add: in_use_def)
  note eff = submit_effect [OF _ inv_queueD(2) [OF inv1(1), simplified] nn new sub] and keep = submit_keeps [OF sub nn]
  have "length (de_jq S) < 16"
    using ok(2,4) m by (auto simp: ok_counts_def)
  then have r: "r = 0" "jq_contents ws = de_jq S @ [?job]" "work_sem_of ws = osa_sem_post (work_sem_of (de_ws S))"
    and kept: "pool_kept ?ws0 ws" "active_of ws = active_of (de_ws S)"
    using eff pool(3,5) jq0 by (auto dest: rep_contents)
  have step2: "pool_step 2 ?s0 (?s0\<lparr>sy_ws := ws\<rparr>)"
    by (rule w_submit [OF nn use0, where c = "e_main env" and r = r]) (use sub in simp)
  have "inv_queue 2 (?s0\<lparr>sy_ws := ws\<rparr>)" "inv_tokens 2 (?s0\<lparr>sy_ws := ws\<rparr>)"
    using pool_step_queue [OF step2 inv1(1)] pool_step_tokens [OF step2 inv1] by simp_all
  moreover have "job_ctx (jobs (ws_store ws) p) = (if p = ?job then e_ids env + i else job_ctx (jobs (ws_store (de_ws S)) p))"
    "job_func (jobs (ws_store ws) p) = (if p = ?job then e_test_job_func env else job_func (jobs (ws_store (de_ws S)) p))"
    "job_result (jobs (ws_store ws) p) = (if p = ?job then 0 else job_result (jobs (ws_store (de_ws S)) p))" for p
    using keep(1,2,4) [of p] job_init_fields [OF nn] by simp_all
  ultimately show ?thesis
    using r kept pool m keep(5-10)
    by (intro that [OF S']) (simp_all add: S' pool_kept_def pool_threads_def)
qed

lemma submit_ok:
  assumes inv: "demo_inv env T sys S" and env: "env_ok env" and m: "de_main S = M_submit i"
    and call: "submit_item env i S = Return (r, S')"
  shows "demo_inv env T sys (S'\<lparr>de_main := (if Suc i < 5 then M_submit (Suc i) else M_wait 0)\<rparr>)" (is "demo_inv env T sys ?S")
proof -
  have "de_main S \<notin> range M_end"
    using m by auto
  note ok = demo_invD [OF inv this]
  note pool = ok_poolD [OF ok(3)]
  let ?job = "e_job_items env + i"
  show ?thesis
  proof (rule submit_item_effect [OF assms])
    fix ws
    assume S': "S' = set_pool ws (de_pc S) (S\<lparr>de_ids := (de_ids S)(e_ids env + i := int i + 1)\<rparr>)"
      and jq: "jq_contents ws = de_jq S @ [?job]"
      and invs: "inv_queue 2 (de_pool S')" "inv_tokens 2 (de_pool S')"
      and kept: "queue_size (ws_pool ws) = 16" "\<not> shutdown (ws_pool ws)" "pool_threads ws = pool_threads (de_ws S)"
      and counts: "complete_sem_of ws = complete_sem_of (de_ws S)" "active_of ws = active_of (de_ws S)"
        "total_submitted (stats (ws_pool ws)) = total_submitted (stats (ws_pool (de_ws S))) + 1"
        "total_completed (stats (ws_pool ws)) = total_completed (stats (ws_pool (de_ws S)))"
        "total_cancelled (stats (ws_pool ws)) = total_cancelled (stats (ws_pool (de_ws S)))"
        "total_errors (stats (ws_pool ws)) = total_errors (stats (ws_pool (de_ws S)))"
      and job: "\<And>p. job_ctx (jobs (ws_store ws) p) = (if p = ?job then e_ids env + i else job_ctx (jobs (ws_store (de_ws S)) p))"
        "\<And>p. job_func (jobs (ws_store ws) p) = (if p = ?job then e_test_job_func env else job_func (jobs (ws_store (de_ws S)) p))"
        "\<And>p. job_result (jobs (ws_store ws) p) = (if p = ?job then 0 else job_result (jobs (ws_store (de_ws S)) p))"
    have sm: "submitted (de_main ?S) = Suc i" "waited (de_main ?S) = 0" "\<not> stopping (de_main ?S)" "posted (de_main ?S) = 0"
      using m ok(2) by auto
    show ?thesis
    proof (rule demo_invI)
      show "ok_pool T sys ?S"
        using pool m sm kept invs by (simp add: ok_pool_def S')
      show "ok_counts ?S"
        using ok(4) m sm jq counts by (auto simp: ok_counts_def S')
      have use: "in_use (de_pool S) p \<or> p = ?job" if "in_use (de_pool ?S) p" for p
        using that jq by (auto simp: in_use_def S')
      have "(\<exists>k < Suc i. p = e_job_items env + k \<and> job_ctx (jobs (ws_store ws) p) = e_ids env + k) \<and>
          job_func (jobs (ws_store ws) p) = e_test_job_func env" if "in_use (de_pool ?S) p" for p
        using use [OF that] ok(5) m unfolding ok_jobs_def by (auto simp: job intro: less_SucI)
      moreover have "0 \<le> job_result (jobs (ws_store ws) j)" if "de_pc S t = W_return j" for t j
        using ok_jobs_ret [OF ok(5) that] job(3) [of j] by simp
      moreover have "de_ids ?S (e_ids env + k) = int k + 1" if "k < Suc i" for k
        using that ok(5) m by (auto simp: S' ok_jobs_def)
      ultimately show "ok_jobs env ?S"
        using sm(1) ok(5) unfolding ok_jobs_def by (simp add: S')
    qed (use ok m in \<open>auto simp: S'\<close>)
  qed
qed

text \<open>The other stretches of \<^verbatim>\<open>main\<close> leave the jobs and the workers alone.\<close>

lemma main_ok:
  assumes inv: "demo_inv env T sys S" and nend: "de_main S \<notin> range M_end"
    and step: "pool_step 2 (de_pool S) s" and s: "sy_pc s = de_pc S" "ws_store (sy_ws s) = ws_store (de_ws S)"
    and S': "de_pool S' = s" "de_ids S' = de_ids S" "result_lock S' = result_lock S" "demo_job_count S' = demo_job_count S"
      "de_threads S' = de_threads S"
    and jq: "jq_contents (sy_ws s) = de_jq S" and kept: "queue_size (ws_pool (sy_ws s)) = 16" "pool_threads (sy_ws s) = pool_threads (de_ws S)"
      "stats (ws_pool (sy_ws s)) = stats (ws_pool (de_ws S))"
    and pc: "submitted (de_main S) = 5" "submitted (de_main S') = 5" "pc_valid (de_main S')" "de_main S' \<notin> range M_end"
      "stopping (de_main S) \<Longrightarrow> stopping (de_main S')"
    and stop: "shutdown (ws_pool (sy_ws s)) = stopping (de_main S')" "sy_posts s = posted (de_main S')"
    and sem: "\<And>sem. complete_sem_of (de_ws S) = Some sem \<Longrightarrow> \<exists>sem'. complete_sem_of (sy_ws s) = Some sem' \<and>
      waited (de_main S') + sem_value sem' = waited (de_main S) + sem_value sem"
    and printed: "ok_printed (de_main S') (de_stats S') (de_shown S')"
  shows "demo_inv env T sys S'"
proof (rule demo_invI)
  note ok = demo_invD [OF inv nend]
  note pool = ok_poolD [OF ok(3)]
  show "ok_pool T sys S'"
    by (rule ok_pool_step [OF ok(3) step]) (use pool s S' kept stop pc(5) in auto)
  obtain sm where sm: "complete_sem_of (de_ws S) = Some sm"
      "submitted (de_main S) = length (de_jq S) + pc_sum 2 holds (de_pc S) + (waited (de_main S) + sem_value sm)"
      "demo_job_count S = int (pc_sum 2 executed (de_pc S) + (waited (de_main S) + sem_value sm))"
      "total_completed (stats (ws_pool (de_ws S))) = of_nat (waited (de_main S) + sem_value sm)"
    using ok(4) by (auto simp: ok_counts_def add.assoc)
  obtain sm' where sm': "complete_sem_of (sy_ws s) = Some sm'"
      "waited (de_main S') + sem_value sm' = waited (de_main S) + sem_value sm"
    using sem [OF sm(1)] by blast
  have "total_submitted (stats (ws_pool (de_ws S))) = of_nat 5" "total_cancelled (stats (ws_pool (de_ws S))) = 0"
    "total_errors (stats (ws_pool (de_ws S))) = 0" "active_of (de_ws S) = of_nat (pc_sum 2 holds (de_pc S))"
    using ok(4) unfolding ok_counts_def pc(1) by blast+
  then show "ok_counts S'"
    using sm(2-) sm'(1) unfolding ok_counts_def S' s jq kept pc add.assoc sm'(2) [symmetric] by blast
  have "in_use (de_pool S') p = in_use (de_pool S) p" for p
    using jq s S'(1) by (simp add: in_use_def)
  then show "ok_jobs env S'"
    using ok_jobs_ret [OF ok(5)] S' s pc(1,2) by (intro ok_jobs_frame [OF ok(5)]) simp_all
qed (use pc printed in simp_all)

lemma wait_ok:
  assumes inv: "demo_inv env T sys S" and env: "env_ok env" and m: "de_main S = M_wait i"
    and w: "osa_worker_pool_wait (e_main env) True (e_job_items env + i) (-1) clock (de_ws S) = Return (r, ws)"
  shows "demo_inv env T sys ((set_pool ws (de_pc S) S)\<lparr>de_main := (if Suc i < 5 then M_wait (Suc i) else M_stats)\<rparr>)"
    and "jq_contents ws = de_jq S" "work_sem_of ws = work_sem_of (de_ws S)"
proof -
  have nend: "de_main S \<notin> range M_end"
    using m by auto
  note ok = demo_invD [OF inv nend]
  note pool = ok_poolD [OF ok(3)]
  have nn: "e_job_items env + i \<noteq> NULL"
    using env by (simp add: env_ok_def)
  note eff = wait_effect [OF pool(3,4) w]
  obtain sem where sem: "complete_sem_of (de_ws S) = Some sem"
    using ok(4) by (auto simp: ok_counts_def)
  have "0 < sem_value sem" and ws: "ws = upd_pool (\<lambda>p. p\<lparr>wp_complete_sem := Some (sem_take sem)\<rparr>) (de_ws S)"
    using w nn pool(3) sem
    by (auto simp: osa_worker_pool_wait_def with_lock_def acquire_def release_def osa_mutex_lock_def osa_mutex_unlock_def
        osa_sem_wait_def split: if_splits)
  then have take: "Suc (sem_value (sem_take sem)) = sem_value sem"
    by (simp add: sem_take_def)
  show jq: "jq_contents ws = de_jq S" and "work_sem_of ws = work_sem_of (de_ws S)"
    using eff by (auto dest: rep_contents)
  have "pool_step 2 (de_pool S) ((de_pool S)\<lparr>sy_ws := ws\<rparr>)"
    by (rule w_waiter [OF w])
  then show "demo_inv env T sys ((set_pool ws (de_pc S) S)\<lparr>de_main := (if Suc i < 5 then M_wait (Suc i) else M_stats)\<rparr>)"
    by (rule main_ok [OF inv nend])
      (use m ok(2) pool eff jq sem take in \<open>auto simp: ws pool_kept_def pool_threads_def\<close>)
qed

text \<open>After the last wait nothing is left: five completions have been waited for.\<close>

lemma all_waited:
  assumes inv: "demo_inv env T sys S" and "waited (de_main S) = 5" "de_main S \<notin> range M_end"
  shows "de_jq S = []" "pc_sum 2 holds (de_pc S) = 0" "demo_job_count S = 5" "stats (ws_pool (de_ws S)) = all_done"
proof -
  note ok = demo_invD [OF inv assms(3)]
  have s5: "submitted (de_main S) = 5"
    using assms(2) by (cases "de_main S") simp_all
  obtain sem :: osa_sem_internal where sem: "5 = length (de_jq S) + pc_sum 2 holds (de_pc S) + 5 + sem_value sem"
      "demo_job_count S = int (pc_sum 2 executed (de_pc S) + 5 + sem_value sem)"
      "total_completed (stats (ws_pool (de_ws S))) = of_nat (5 + sem_value sem)"
    using ok(4) unfolding ok_counts_def s5 assms(2) by blast
  have rest: "total_submitted (stats (ws_pool (de_ws S))) = of_nat 5" "total_cancelled (stats (ws_pool (de_ws S))) = 0"
    "total_errors (stats (ws_pool (de_ws S))) = 0" "active_of (de_ws S) = of_nat (pc_sum 2 holds (de_pc S))"
    using ok(4) unfolding ok_counts_def s5 by blast+
  show jq: "de_jq S = []" and h: "pc_sum 2 holds (de_pc S) = 0"
    using sem(1) by simp_all
  have "executed x \<le> holds x" for x
    by (cases x) (simp_all add: holds_def)
  then have "pc_sum 2 executed (de_pc S) \<le> pc_sum 2 holds (de_pc S)"
    unfolding pc_sum_def by (intro sum_mono)
  then show "demo_job_count S = 5"
    using sem h by simp
  have "queue_depth (stats (ws_pool (de_ws S))) = 0"
    using ok_poolD(4) [OF ok(3)] jq by (simp add: job_queue_rep_def unat_eq_zero)
  then show "stats (ws_pool (de_ws S)) = all_done"
    using rest sem h by (simp add: all_done_def)
qed

lemma stats_ok:
  assumes inv: "demo_inv env T sys S" and m: "de_main S = M_stats"
    and g: "osa_worker_pool_get_stats (e_main env) True True (de_ws S) = Return ((r, st), ws)"
  shows "demo_inv env T sys ((set_pool ws (de_pc S) S)\<lparr>de_stats := (if r = 0 then st else None), de_main := M_stop\<rparr>)"
    and "ws = de_ws S"
proof -
  have nend: "de_main S \<notin> range M_end"
    using m by auto
  note ok = demo_invD [OF inv nend]
  note pool = ok_poolD [OF ok(3)]
  have ws: "ws = de_ws S" "r = 0" "st = Some (stats (ws_pool (de_ws S)))"
    using g pool(3) by (auto simp: osa_worker_pool_get_stats_def with_lock_def acquire_def release_def osa_mutex_lock_def osa_mutex_unlock_def)
  show "ws = de_ws S" by (rule ws(1))
  have "pool_step 2 (de_pool S) ((de_pool S)\<lparr>sy_ws := (de_ws S)\<lparr>ws_store := ws_store (de_ws S)\<rparr>\<rparr>)"
    by (rule w_client) simp
  then have step: "pool_step 2 (de_pool S) (de_pool S)"
    by simp
  then show "demo_inv env T sys ((set_pool ws (de_pc S) S)\<lparr>de_stats := (if r = 0 then st else None), de_main := M_stop\<rparr>)"
    by (rule main_ok [OF inv nend]) (use m pool all_waited(4) [OF inv] ws in auto)
qed

lemma stop_ok:
  assumes inv: "demo_inv env T sys S" and m: "de_main S = M_stop" and g: "stop_signal (e_main env) (de_ws S) = Return ws"
  shows "demo_inv env T sys ((set_pool ws (de_pc S) S)\<lparr>de_shown := Some (demo_job_count S), de_main := M_post 0\<rparr>)"
    and "jq_contents ws = de_jq S" "work_sem_of ws = work_sem_of (de_ws S)"
proof -
  have nend: "de_main S \<notin> range M_end"
    using m by auto
  note ok = demo_invD [OF inv nend]
  note pool = ok_poolD [OF ok(3)]
  have ws: "ws = upd_pool (\<lambda>p. p\<lparr>wp_lock := free_lock, shutdown := True\<rparr>) (de_ws S)"
    by (rule stop_effect [OF pool(3) g])
  have rep: "job_queue_rep ws (de_jq S)"
    by (rule rep_frame [OF pool(4)]) (simp_all add: ws)
  show jq: "jq_contents ws = de_jq S" and "work_sem_of ws = work_sem_of (de_ws S)"
    by (rule rep_contents [OF rep]) (simp add: ws)
  have "pool_step 2 (de_pool S) ((de_pool S)\<lparr>sy_ws := ws\<rparr>)"
    by (rule w_stop [OF g])
  then show "demo_inv env T sys ((set_pool ws (de_pc S) S)\<lparr>de_shown := Some (demo_job_count S), de_main := M_post 0\<rparr>)"
    by (rule main_ok [OF inv nend])
      (use m pool ok(1) all_waited(3) [OF inv] jq in \<open>auto simp: ws pool_threads_def\<close>)
qed

lemma post_ok:
  assumes inv: "demo_inv env T sys S" and m: "de_main S = M_post i" and T: "fst T = 2"
  shows "demo_inv env T sys (S\<lparr>de_pool := (de_pool S)\<lparr>sy_ws := stop_post (de_ws S), sy_posts := Suc (sy_posts (de_pool S))\<rparr>,
      de_main := (if Suc i < unat (num_workers (ws_pool (de_ws S))) then M_post (Suc i) else M_join)\<rparr>)"
    and "jq_contents (stop_post (de_ws S)) = de_jq S"
proof -
  have nend: "de_main S \<notin> range M_end"
    using m by auto
  note ok = demo_invD [OF inv nend]
  note pool = ok_poolD [OF ok(3)]
  have i: "i < 2" "sy_posts (de_pool S) = i" "shutdown (ws_pool (de_ws S))"
    using ok(2) pool(6,7) m by simp_all
  have n: "num_workers (ws_pool (de_ws S)) = 2"
    using pool(9) T by (auto simp: pool_threads_def)
  have rep: "job_queue_rep (stop_post (de_ws S)) (de_jq S)"
    by (rule rep_frame [OF pool(4)]) (simp_all add: stop_post_def)
  show jq: "jq_contents (stop_post (de_ws S)) = de_jq S"
    by (rule rep_contents [OF rep])
  have "pool_step 2 (de_pool S) ((de_pool S)\<lparr>sy_ws := stop_post (de_ws S), sy_posts := Suc (sy_posts (de_pool S))\<rparr>)"
    by (rule w_post) (use i in simp_all)
  then show "demo_inv env T sys (S\<lparr>de_pool := (de_pool S)\<lparr>sy_ws := stop_post (de_ws S), sy_posts := Suc (sy_posts (de_pool S))\<rparr>,
      de_main := (if Suc i < unat (num_workers (ws_pool (de_ws S))) then M_post (Suc i) else M_join)\<rparr>)"
    by (rule main_ok [OF inv nend]) (use m n pool ok(1) i jq in \<open>auto simp: stop_post_def pool_threads_def\<close>)
qed

lemma join_ok:
  assumes inv: "demo_inv env T sys S" and m: "de_main S = M_join" and out: "\<And>t. de_pc S t = W_exit"
  shows "demo_inv env T sys ((set_pool ws (de_pc S) S)\<lparr>de_threads := ths, result_lock := l,
    de_main := M_end (if demo_job_count S = 5 then 0 else -1)\<rparr>)"
proof -
  have nend: "de_main S \<notin> range M_end"
    using m by auto
  show ?thesis
    using demo_invD(1) [OF inv nend] all_waited(3) [OF inv _ nend] m out by (simp add: demo_inv_def)
qed

lemma demo_step_inv:
  assumes "demo_step env S S'" and "demo_inv env T sys S" and "env_ok env" and "fst T = 2"
  shows "demo_inv env T sys S'"
  using assms
proof (induction rule: demo_step.induct)
  case (m_submit S i r S')
  then show ?case by (intro submit_ok)
next
  case (m_wait S i clock r ws)
  then show ?case by (intro wait_ok(1))
next
  case (m_stats S r st ws)
  then show ?case by (intro stats_ok(1))
next
  case (m_stop S ws)
  then show ?case by (intro stop_ok(1))
next
  case (m_post S i)
  then show ?case by (intro post_ok(1))
next
  case (m_join S ws ths)
  then show ?case by (intro join_ok)
next
  case (d_take S t clock sem)
  then show ?case by (intro take_ok)
next
  case (d_fetch S t f ws)
  then show ?case by (intro fetch_ok)
next
  case (d_exec S t j ret S')
  then show ?case by (intro exec_ok)
next
  case (d_complete S t j pad now hsms ws)
  then show ?case by (intro complete_ok)
qed

end
