(* ===== verification/Pool_Demo_Run.thy ===== *)
theory Pool_Demo_Run
  imports Pool_Demo Ranked_Steps
begin

text \<open>
  The runs of the demonstration of the worker pool: every step lowers a measure and no state before the end
  of \<^verbatim>\<open>main\<close> is stuck, so that every run ends, with the return value 0.
\<close>

section \<open>Progress\<close>

text \<open>The steps left: of \<^verbatim>\<open>main\<close>, of the jobs in the queue, the tokens to take and the workers.\<close>

fun main_weight :: "demo_pc \<Rightarrow> nat" where
  "main_weight (M_submit i) = 14 + 6 * (5 - i)"
| "main_weight (M_wait i) = 9 + (5 - i)"
| "main_weight M_stats = 9"
| "main_weight M_stop = 8"
| "main_weight (M_post i) = 1 + 3 * (2 - i)"
| "main_weight M_join = 1"
| "main_weight (M_end _) = 0"

definition demo_measure :: "demo_sys \<Rightarrow> nat" where
  "demo_measure S =
    main_weight (de_main S) +
    (if de_main S \<in> range M_end then 0
     else 3 * length (de_jq S) + 2 * tokens (de_ws S) + pc_sum 2 pc_weight (de_pc S))"

lemma post_tokens: "work_sem_of ws' = osa_sem_post (work_sem_of ws) \<Longrightarrow> tokens ws' \<le> Suc (tokens ws)"
  by (auto simp: tokens_def osa_sem_post_def split: option.splits)

lemma tokens_same: "work_sem_of ws' = work_sem_of ws \<Longrightarrow> tokens ws' = tokens ws"
  by (simp add: tokens_def)

lemma demo_step_measure:
  assumes "demo_step env S S'" and "demo_inv env T sys S" and "env_ok env" and "fst T = 2"
  shows "demo_measure S' < demo_measure S"
  using assms
proof (induction rule: demo_step.induct)
  case (m_submit S i r S')
  have "i < 5"
    using demo_invD(2) [OF m_submit(3)] m_submit(1) by auto
  moreover obtain ws where ws: "S' = set_pool ws (de_pc S) (S\<lparr>de_ids := (de_ids S)(e_ids env + i := int i + 1)\<rparr>)"
    "jq_contents ws = de_jq S @ [e_job_items env + i]" "work_sem_of ws = osa_sem_post (work_sem_of (de_ws S))"
    by (rule submit_item_effect [OF m_submit(3,4,1,2)]) blast
  ultimately show ?case
    using post_tokens [OF ws(3)] m_submit(1) by (auto simp: demo_measure_def ws(1,2))
next
  case (m_wait S i clock r ws)
  have "i < 5"
    using demo_invD(2) [OF m_wait(3)] m_wait(1) by auto
  then show ?case
    using wait_ok(2) [OF m_wait(3,4,1,2)] tokens_same [OF wait_ok(3) [OF m_wait(3,4,1,2)]] m_wait(1) by (auto simp: demo_measure_def)
next
  case (m_stats S r st ws)
  then show ?case
    using stats_ok(2) [OF m_stats(3,1,2)] by (auto simp: demo_measure_def)
next
  case (m_stop S ws)
  then show ?case
    using stop_ok(2) [OF m_stop(3,1,2)] tokens_same [OF stop_ok(3) [OF m_stop(3,1,2)]] by (auto simp: demo_measure_def)
next
  case (m_post S i)
  have nend: "de_main S \<notin> range M_end"
    using m_post(1) by auto
  have "i < 2" and n: "num_workers (ws_pool (de_ws S)) = 2"
    using demo_invD(2) [OF m_post(2) nend] ok_poolD(9) [OF demo_invD(3) [OF m_post(2) nend]] m_post(1,4)
    by (auto simp: pool_threads_def)
  moreover have "tokens (stop_post (de_ws S)) \<le> Suc (tokens (de_ws S))"
    by (rule post_tokens) (simp add: stop_post_def)
  ultimately show ?case
    using post_ok(2) [OF m_post(2,1,4)] m_post(1) by (auto simp: demo_measure_def)
next
  case (m_join S ws ths)
  then show ?case by (auto simp: demo_measure_def)
next
  case (d_take S t clock sem)
  note b = demo_worker_bound [OF d_take(3), of t]
  have "jq_contents (upd_pool (\<lambda>p. p\<lparr>wp_work_sem := sem\<rparr>) (de_ws S)) = de_jq S"
    using rep_contents [OF sem_rep [OF ok_poolD(1) [OF demo_invD(3) [OF d_take(3)]]], of sem] b d_take(1) by simp
  then show ?case
    using b d_take(1) pc_sum_move [of t 2 pc_weight "de_pc S" W_woken] take_tokens [OF d_take(2)]
    by (simp add: demo_measure_def)
next
  case (d_fetch S t f ws)
  note b = demo_worker_bound [OF d_fetch(3), of t]
  have pool: "ok_pool T sys S"
    using demo_invD(3) [OF d_fetch(3)] b d_fetch(1) by simp
  note eff = fetch_effect [OF ok_poolD(3,4) [OF pool] d_fetch(2)]
  have le: "3 * length (jq_contents ws) + pc_weight (after_fetch f) \<le> 3 * length (de_jq S)"
    using eff by (auto split: list.splits if_splits dest: rep_contents)
  have "tokens ws = tokens (de_ws S)"
    using eff by (simp add: tokens_def)
  moreover have "pc_sum 2 pc_weight ((de_pc S)(t := after_fetch f)) + 1 = pc_sum 2 pc_weight (de_pc S) + pc_weight (after_fetch f)"
    using b d_fetch(1) pc_sum_move [of t 2 pc_weight "de_pc S" "after_fetch f"] by simp
  ultimately show ?case
    using le b(1) d_fetch(1) by (simp add: demo_measure_def)
next
  case (d_exec S t j ret S')
  note b = demo_worker_bound [OF d_exec(3), of t]
  obtain lk n where S': "S' = S\<lparr>demo_job_count := n, result_lock := lk\<rparr>"
    using d_exec(2) by (auto simp: test_job_func_def Let_def split: call.splits)
  have "jq_contents (job_executed j ret (de_ws S)) = de_jq S"
    using rep_contents [OF exec_rep [OF ok_poolD(1) [OF demo_invD(3) [OF d_exec(3)]]], of t j ret] b d_exec(1) by simp
  then show ?case
    using b d_exec(1) pc_sum_move [of t 2 pc_weight "de_pc S" "W_return j"] tokens_same [of "job_executed j ret (de_ws S)" "de_ws S"]
    by (simp add: demo_measure_def S')
next
  case (d_complete S t j pad now hsms ws)
  note b = demo_worker_bound [OF d_complete(3), of t]
  have pool: "ok_pool T sys S"
    using demo_invD(3) [OF d_complete(3)] b d_complete(1) by simp
  have frame: "jobs (ws_store ws) p = jobs (ws_store (de_ws S)) p" if "p \<in> set (de_jq S)" for p
    using that inv_queue_busy(2) [OF ok_poolD(1) [OF pool], of t j] d_complete(1)
      complete_keeps(1) [OF ok_poolD(3) [OF pool] completion_callback_def d_complete(2), of p] by auto
  note eff = complete_effect [OF ok_poolD(3,4) [OF pool] d_complete(2) frame]
  have "jq_contents ws = de_jq S" "tokens ws = tokens (de_ws S)"
    using eff rep_contents by (auto simp: tokens_def)
  then show ?case
    using b d_complete(1) pc_sum_move [of t 2 pc_weight "de_pc S" W_wait] by (simp add: demo_measure_def)
qed

text \<open>A worker with a token or a job goes on.\<close>

lemma worker_goes_on:
  assumes inv: "demo_inv env T sys S" and "de_pc S t \<notin> {W_wait, W_exit}"
  shows "\<exists>S'. demo_step env S S'"
proof -
  have ok: "ok_pool T sys S" "ok_jobs env S"
    using demo_invD(3,5) [OF inv demo_worker_bound(1) [OF inv, of t]] assms(2) by auto
  note free = ok_poolD(3) [OF ok(1)]
  fix pad now
  show ?thesis
  proof (cases "de_pc S t")
    case W_woken
    obtain f ws where "worker_fetch t (de_ws S) = Return (f, ws)"
      by (rule fetch_returns [OF free])
    from d_fetch [OF W_woken this] show ?thesis by blast
  next
    case (W_run j)
    have "result_lock S = free_lock"
      using ok(2) by (simp add: ok_jobs_def)
    then obtain ret S' where "test_job_func t (job_ctx (jobs (ws_store (de_ws S)) j)) S = Return (ret, S')"
      by (simp add: test_job_func_def Let_def osa_mutex_lock_def)
    from d_exec [OF W_run this] show ?thesis by blast
  next
    case (W_return j)
    obtain hsms ws where "worker_complete t completion_callback pad now j (sy_hsms (de_pool S)) (de_ws S) = Return (hsms, ws)"
      using complete_silent [where cb = completion_callback and t = t and pad = pad and now = now and j = j
          and hsms = "sy_hsms (de_pool S)", OF free completion_callback_def] by blast
    from d_complete [OF W_return this] show ?thesis by blast
  qed (use assms(2) in auto)
qed

lemma wait_progress:
  assumes inv: "demo_inv env T sys S" and env: "env_ok env" and m: "de_main S = M_wait i"
  shows "\<exists>S'. demo_step env S S'"
proof -
  fix clock :: "int + timespec"
  have nend: "de_main S \<notin> range M_end"
    using m by auto
  note ok = demo_invD [OF inv nend]
  note pool = ok_poolD [OF ok(3)]
  obtain sem where sem: "complete_sem_of (de_ws S) = Some sem" "5 = length (de_jq S) + pc_sum 2 holds (de_pc S) + i + sem_value sem"
    using ok(4) m by (auto simp: ok_counts_def)
  have nn: "e_job_items env + i \<noteq> NULL"
    using env by (simp add: env_ok_def)
  show ?thesis
  proof (cases "\<exists>t < 2. de_pc S t \<noteq> W_wait")
    case True
    then show ?thesis
      using worker_goes_on [OF inv] pool(8) m by (metis insertE singletonD stopping.simps(4))
  next
    case False
    then have wait: "de_pc S t = W_wait" if "t < 2" for t
      using that by blast
    then have none: "pc_sum 2 holds (de_pc S) = 0" "de_pc S t \<noteq> W_woken" for t
      using demo_worker_bound(2) [OF inv, of t] by (auto simp: pc_sum_zero holds_def)
    show ?thesis
    proof (cases "sem_value sem")
      case 0
      then have "de_jq S \<noteq> []"
        using sem(2) none(1) ok(2) m by auto
      then obtain s where "osa_sem_wait (work_sem_of (de_ws S)) (-1) clock = Return (0, s)"
        using take_returns [OF pool(2), of clock] none(2) pool(6) m by (auto simp: woken_count_def)
      from d_take [OF wait [of 0] this] show ?thesis by auto
    next
      case (Suc k)
      then have "\<exists>r ws. osa_worker_pool_wait (e_main env) True (e_job_items env + i) (-1) clock (de_ws S) = Return (r, ws)"
        using nn pool(3) sem(1)
        by (simp add: osa_worker_pool_wait_def with_lock_def acquire_def release_def osa_mutex_lock_def osa_mutex_unlock_def
            osa_sem_wait_def)
      then show ?thesis
        using m_wait [OF m] by blast
    qed
  qed
qed

lemma join_progress:
  assumes inv: "demo_inv env T sys S" and m: "de_main S = M_join" and j: "joinable (ws_pool (de_ws S)) sys"
  shows "\<exists>S'. demo_step env S S'"
proof -
  fix clock :: "int + timespec"
  have nend: "de_main S \<notin> range M_end"
    using m by auto
  note ok = demo_invD [OF inv nend]
  note pool = ok_poolD [OF ok(3)]
  show ?thesis
  proof (cases "\<forall>t. de_pc S t = W_exit")
    case True
    obtain ws ths where "stop_join (de_ws S) ((de_threads S)\<lparr>th_terminated := (\<lambda>_. True)\<rparr>) = Some (Return (ws, ths))"
      using join_returns [OF j] pool(10) by auto
    from m_join [OF m _ _ this] show ?thesis
      using True pool(6) m by (auto simp: osa_worker_completion_thread_def)
  next
    case False
    then obtain t where t: "de_pc S t \<noteq> W_exit" by blast
    show ?thesis
    proof (cases "de_pc S t = W_wait \<and> woken_count (de_pc S) = 0")
      case True
      have "0 < alive_count (de_pc S)"
        using t inv_queue_finite(1) [OF pool(1)] by (auto simp: alive_count_def card_gt_0_iff)
      then obtain s where "osa_sem_wait (work_sem_of (de_ws S)) (-1) clock = Return (0, s)"
        using pool(2,7) True m by (auto simp: inv_tokens_def osa_sem_wait_def)
      from d_take [OF _ this, of t] True show ?thesis by blast
    next
      case other: False
      then consider "de_pc S t \<noteq> W_wait" | u where "de_pc S u = W_woken"
        by (auto simp: woken_count_def card_gt_0_iff)
      then show ?thesis
      proof cases
        case 1
        then show ?thesis using worker_goes_on [OF inv, of t] t by simp
      next
        case (2 u)
        then show ?thesis using worker_goes_on [OF inv, of u] by simp
      qed
    qed
  qed
qed

lemma demo_progress:
  assumes inv: "demo_inv env T sys S" and env: "env_ok env" and nend: "de_main S \<notin> range M_end"
    and j: "joinable (ws_pool (de_ws S)) sys"
  shows "\<exists>S'. demo_step env S S'"
proof -
  note pool = ok_poolD [OF demo_invD(3) [OF inv nend]]
  note lock = with_lock_def acquire_def release_def osa_mutex_lock_def osa_mutex_unlock_def
  show ?thesis
  proof (cases "de_main S")
    case (M_submit i)
    have "\<exists>r S'. submit_item env i S = Return (r, S')"
      using pool(3) by (auto simp: submit_item_def Let_def osa_worker_pool_submit_def lock split: prod.splits)
    then show ?thesis
      using m_submit [OF M_submit] by blast
  next
    case (M_wait i)
    then show ?thesis by (rule wait_progress [OF inv env])
  next
    case M_stats
    have "\<exists>r st ws. osa_worker_pool_get_stats (e_main env) True True (de_ws S) = Return ((r, st), ws)"
      using pool(3) by (simp add: osa_worker_pool_get_stats_def lock)
    then show ?thesis
      using m_stats [OF M_stats] by blast
  next
    case M_stop
    have "\<exists>ws. stop_signal (e_main env) (de_ws S) = Return ws"
      using pool(3) by (simp add: stop_signal_def lock)
    then show ?thesis
      using m_stop [OF M_stop] by blast
  next
    case (M_post i)
    from m_post [OF this] show ?thesis by blast
  next
    case M_join
    then show ?thesis by (rule join_progress [OF inv _ j])
  qed (use nend in auto)
qed

section \<open>Properties\<close>

lemma demo_init_inv:
  assumes set_up: "main_setup env os pool0 sys0 = (None, lock, pool, sys)" and contract: "os_contract os sys0"
  shows "demo_inv env (pool_threads \<lparr>ws_pool = pool, ws_store = st\<rparr>) sys (demo_init lock pool sys st ids hsms)"
    (is "demo_inv env ?T sys ?S")
proof (rule demo_invI)
  note ok = setup_ok [OF set_up contract]
  note f = fresh_pool_fields [OF ok(3)]
  have "inv_queue 2 (de_pool ?S)" "inv_tokens 2 (de_pool ?S)"
    using pool_start_invs(1,3) [OF ok(3) refl, of st hsms] ok(4) by (simp_all add: demo_init_def)
  then show "ok_pool ?T sys ?S"
    using ok(4,5) f(5) by (simp add: ok_pool_def) (simp add: demo_init_def pool_start_def)
  have "job_queue_rep (de_ws ?S) []"
    using f by (simp add: demo_init_def pool_start_def job_queue_rep_def zero_stats_def)
  then have jq: "de_jq ?S = []" by (rule rep_contents)
  obtain sem where "wp_complete_sem pool = Some sem" "sem_value sem = 0"
    using ok(6) by auto
  moreover have "pc_sum 2 holds (de_pc ?S) = 0" "pc_sum 2 executed (de_pc ?S) = 0"
    by (auto simp: pc_sum_zero holds_def demo_init_def pool_start_def)
  ultimately show "ok_counts ?S"
    using jq f(4) by (simp add: ok_counts_def) (simp add: demo_init_def pool_start_def zero_stats_def)
  have "\<not> in_use (de_pool ?S) q" for q
    using jq by (auto simp: in_use_def demo_init_def pool_start_def split: if_splits)
  then show "ok_jobs env ?S"
    using ok(1) by (simp add: ok_jobs_def) (simp add: demo_init_def pool_start_def)
qed (auto simp: demo_init_def)

interpretation demo: ranked_steps "demo_step env" "\<lambda>S. demo_inv env T sys S \<and> env_ok env \<and> fst T = 2" demo_measure for env T sys
  by unfold_locales (auto intro: demo_step_inv demo_step_measure)

text \<open>
  C8. The demonstration of the worker pool works: once its set-up has succeeded, every run of \<^verbatim>\<open>main\<close> and the two
  workers, in whatever order they go, has at most 44 steps, is never stuck before \<^verbatim>\<open>main\<close> has returned,
  and ends with the return value 0, after five jobs submitted, five completed, none cancelled, failed, queued or
  active in the printed statistics, and a printed job count of 5.
\<close>

theorem demo_returns_zero:
  assumes "main_setup env os pool0 sys0 = (None, lock, pool, sys)" and "os_contract os sys0" and "env_ok env"
    and "(demo_step env ^^ n) (demo_init lock pool sys st ids hsms) S"
  shows "n \<le> 44 \<and> ((\<exists>S'. demo_step env S S') \<or> de_main S = M_end 0) \<and>
    (\<forall>r. de_main S = M_end r \<longrightarrow> r = 0 \<and> de_shown S = Some 5 \<and>
      de_stats S = Some \<lparr>total_submitted = 5, total_completed = 5, total_cancelled = 0, total_errors = 0,
        queue_depth = 0, active_workers = 0\<rparr>)"
proof -
  let ?T = "pool_threads \<lparr>ws_pool = pool, ws_store = st\<rparr>" and ?S0 = "demo_init lock pool sys st ids hsms"
  note ok = setup_ok [OF assms(1,2)]
  have T: "fst ?T = 2"
    using ok(4) by (simp add: pool_threads_def)
  have inv0: "demo_inv env ?T sys ?S0"
    by (rule demo_init_inv [OF assms(1,2)])
  have run: "n + demo_measure S \<le> demo_measure ?S0" "demo_inv env ?T sys S"
    using demo.run_bound [OF assms(4)] inv0 assms(3) T by blast+
  have "de_main ?S0 = M_submit 0" "tokens (de_ws ?S0) = 0" "pc_sum 2 pc_weight (de_pc ?S0) = 0"
    using fresh_pool_fields(6) [OF ok(3)] by (auto simp: demo_init_def pool_start_def tokens_def pc_sum_zero)
  moreover have "de_jq ?S0 = []"
  proof -
    have "submitted (de_main ?S0) = 0"
      by (simp add: demo_init_def)
    then show ?thesis
      using demo_invD(4) [OF inv0] by (auto simp: ok_counts_def demo_init_def)
  qed
  ultimately have "demo_measure ?S0 = 44"
    by (auto simp: demo_measure_def)
  then have bound: "n \<le> 44"
    using run(1) by linarith
  have go: "\<exists>S'. demo_step env S S'" if nend: "de_main S \<notin> range M_end"
  proof -
    have "pool_threads (de_ws S) = pool_threads \<lparr>ws_pool = pool, ws_store = st\<rparr>"
      by (rule ok_poolD(9) [OF demo_invD(3) [OF run(2) nend]])
    then have "joinable (ws_pool (de_ws S)) sys"
      using joinable_threads ok(2) by fastforce
    then show ?thesis
      by (rule demo_progress [OF run(2) assms(3) nend])
  qed
  have fin: "r = 0 \<and> de_shown S = Some 5 \<and> de_stats S = Some all_done" if "de_main S = M_end r" for r
    using that run(2) by (simp add: demo_inv_def)
  then have "(\<exists>S'. demo_step env S S') \<or> de_main S = M_end 0"
    using go by blast
  with bound fin show ?thesis
    unfolding all_done_def by blast
qed

text \<open>A concrete start; a complete run of it exists.\<close>

definition sample_env :: demo_env where
  "sample_env = \<lparr>e_job_items = 1000, e_ids = 2000, e_test_job_func = 1, e_completion_callback = 2, e_pool = 3000,
     e_worker_fn = 3, e_completion_fn = 4, e_main = 7\<rparr>"

definition sample_os :: demo_os where
  "sample_os = \<lparr>os_dup = True, os_lock = True, os_lock_init = 0, os_work_sem = True, os_complete_sem = True, os_array = True,
     os_handles = (\<lambda>m. 100 + m), os_create = (\<lambda>n _ _ _. Inr n), os_mutex = True, os_mutex_init = 0\<rparr>"

definition sample_threads :: thread_sys where
  "sample_threads = \<lparr>th_handles = Map.empty, th_terminated = (\<lambda>_. False)\<rparr>"

lemma sample_setup: "\<exists>lock pool sys. main_setup sample_env sample_os zero_pool sample_threads = (None, lock, pool, sys)"
proof -
  have two: "start_workers p f a ct pc i 2 ws sys = start_workers p f a ct pc i (Suc (Suc 0)) ws sys" for p f a ct pc i ws sys
    by (simp only: numeral_2_eq_2)
  show ?thesis
    by (simp add: main_setup_def sample_env_def sample_os_def osa_mutex_create_def osa_worker_pool_init_def Let_def
        osa_sem_create_def zero_pool_def SEM_VALUE_MAX_def osa_worker_pool_start_def osa_thread_create_def two c_consts)
qed

theorem demo_returns_zero_witness:
  "\<exists>lock pool sys n S. main_setup sample_env sample_os zero_pool sample_threads = (None, lock, pool, sys) \<and>
    (demo_step sample_env ^^ n) (demo_init lock pool sys sample_store (\<lambda>_. 0) (\<lambda>_. sample_hsm)) S \<and> n \<le> 44 \<and>
    de_main S = M_end 0 \<and> de_shown S = Some 5"
proof -
  obtain lock pool sys where set_up: "main_setup sample_env sample_os zero_pool sample_threads = (None, lock, pool, sys)"
    using sample_setup by blast
  let ?S0 = "demo_init lock pool sys sample_store (\<lambda>_. 0) (\<lambda>_. sample_hsm)"
  have ok: "os_contract sample_os sample_threads" "env_ok sample_env"
    by (simp_all add: os_contract_def sample_os_def sample_threads_def env_ok_def sample_env_def)
  note main = demo_returns_zero [OF set_up ok, of _ sample_store "\<lambda>_. 0" "\<lambda>_. sample_hsm"]
  have "(\<exists>S. (demo_step sample_env ^^ n) ?S0 S) \<or> (\<exists>m S. (demo_step sample_env ^^ m) ?S0 S \<and> de_main S = M_end 0)" for n
  proof (induction n)
    case (Suc n)
    then show ?case
      using main by (meson relpowp_Suc_I)
  qed auto
  from this [of 45] obtain m S where "(demo_step sample_env ^^ m) ?S0 S" "de_main S = M_end 0"
    using main [of 45] by fastforce
  then show ?thesis
    using main [of m S] set_up by blast
qed

text \<open>
  A set-up that fails returns -1 and releases its mutex. When the pool was initialised but could
  not be started, the pool is left as it is: its lock, its semaphores and the workers already started remain.
\<close>

theorem demo_setup_failure:
  assumes "main_setup env os pool0 sys0 = (Some r, lock, pool, sys)"
  shows "r = -1 \<and> lock = None \<and>
    (os_mutex os \<and> os_mutex_init os = 0 \<and> os_lock os \<and> os_lock_init os = 0 \<and> os_work_sem os \<and> os_complete_sem os \<and> os_array os \<longrightarrow>
      wp_lock pool = free_lock \<and> wp_work_sem pool \<noteq> None \<and> wp_complete_sem pool \<noteq> None \<and> wp_workers pool \<noteq> None)"
proof -
  have start: "wp_lock p' = wp_lock p \<and> wp_work_sem p' = wp_work_sem p \<and> wp_complete_sem p' = wp_complete_sem p \<and> wp_workers p' \<noteq> None"
    if "osa_worker_pool_start True wfn cfn self ct pc p s = (x, p', s')" "wp_workers p \<noteq> None" for wfn cfn self ct pc p s x p' s'
    using that by (auto simp: osa_worker_pool_start_def Let_def split: option.splits prod.splits if_splits)
  show ?thesis
    using assms start
    by (auto simp: main_setup_def osa_mutex_create_def osa_mutex_destroy_def osa_worker_pool_init_def Let_def osa_sem_create_def
        zero_pool_def c_consts SEM_VALUE_MAX_def split: prod.splits if_splits)
qed

end
