(* ===== verification/Osa_Error.thy ===== *)
theory Osa_Error
  imports Osa_Prelude
begin

text \<open>
  The unified error codes: \<^verbatim>\<open>enum osa_error_code\<close> and the predicates \<^verbatim>\<open>osa_is_ok\<close> and
  \<^verbatim>\<open>osa_is_err\<close> of \<^verbatim>\<open>platform/osa_error.h\<close>, and the Linux conversions to a description and
  to a category of \<^verbatim>\<open>platform/linux/osa_error.c\<close>. The enumerators are a datatype, \<open>code_of\<close> is
  the value the enum gives each of them, and the conversions take any \<^verbatim>\<open>int\<close>, as in C.

  The lemmas show that the codes and the descriptions tell the enumerators apart, that every
  code falls in the category its documented range names, and where the conversions fall through.
\<close>

section \<open>The error codes\<close>

datatype osa_error_code =
    OSA_OK
  | OSA_ERR_GENERIC
  | OSA_ERR_INVALID_PARAM
  | OSA_ERR_NULL_POINTER
  | OSA_ERR_NOT_INITIALIZED
  | OSA_ERR_ALREADY_INITIALIZED
  | OSA_ERR_NOT_IMPLEMENTED
  | OSA_ERR_NOT_SUPPORTED
  | OSA_ERR_BUSY
  | OSA_ERR_TIMEOUT
  | OSA_ERR_CANCELED
  | OSA_ERR_ABORTED
  | OSA_ERR_NO_MEMORY
  | OSA_ERR_NO_RESOURCES
  | OSA_ERR_RESOURCE_BUSY
  | OSA_ERR_RESOURCE_EXHAUSTED
  | OSA_ERR_MUTEX_LOCK
  | OSA_ERR_MUTEX_UNLOCK
  | OSA_ERR_SEM_WAIT
  | OSA_ERR_SEM_POST
  | OSA_ERR_SEM_TIMEOUT
  | OSA_ERR_THREAD_CREATE
  | OSA_ERR_THREAD_JOIN
  | OSA_ERR_THREAD_DETACH
  | OSA_ERR_THREAD_CANCEL
  | OSA_ERR_THREAD_NOT_FOUND
  | OSA_ERR_QUEUE_CREATE
  | OSA_ERR_QUEUE_FULL
  | OSA_ERR_QUEUE_EMPTY
  | OSA_ERR_QUEUE_SEND
  | OSA_ERR_QUEUE_RECV
  | OSA_ERR_QUEUE_TIMEOUT
  | OSA_ERR_WORKER_INIT
  | OSA_ERR_WORKER_START
  | OSA_ERR_WORKER_STOP
  | OSA_ERR_WORKER_SUBMIT
  | OSA_ERR_WORKER_CANCEL
  | OSA_ERR_WORKER_WAIT
  | OSA_ERR_WORKER_QUEUE_FULL
  | OSA_ERR_WORKER_NOT_FOUND
  | OSA_ERR_WORKER_BUSY
  | OSA_ERR_WORKER_SHUTDOWN
  | OSA_ERR_HSM_INIT
  | OSA_ERR_HSM_START
  | OSA_ERR_HSM_STOP
  | OSA_ERR_HSM_INVALID_STATE
  | OSA_ERR_HSM_INVALID_EVENT
  | OSA_ERR_HSM_INVALID_SIGNAL
  | OSA_ERR_HSM_SEND_FAILED
  | OSA_ERR_HSM_NOT_FOUND
  | OSA_ERR_PLATFORM_BASE

primrec code_of :: "osa_error_code \<Rightarrow> int" where
  "code_of OSA_OK = 0"
| "code_of OSA_ERR_GENERIC = -1"
| "code_of OSA_ERR_INVALID_PARAM = -2"
| "code_of OSA_ERR_NULL_POINTER = -3"
| "code_of OSA_ERR_NOT_INITIALIZED = -4"
| "code_of OSA_ERR_ALREADY_INITIALIZED = -5"
| "code_of OSA_ERR_NOT_IMPLEMENTED = -6"
| "code_of OSA_ERR_NOT_SUPPORTED = -7"
| "code_of OSA_ERR_BUSY = -8"
| "code_of OSA_ERR_TIMEOUT = -9"
| "code_of OSA_ERR_CANCELED = -10"
| "code_of OSA_ERR_ABORTED = -11"
| "code_of OSA_ERR_NO_MEMORY = -100"
| "code_of OSA_ERR_NO_RESOURCES = -101"
| "code_of OSA_ERR_RESOURCE_BUSY = -102"
| "code_of OSA_ERR_RESOURCE_EXHAUSTED = -103"
| "code_of OSA_ERR_MUTEX_LOCK = -200"
| "code_of OSA_ERR_MUTEX_UNLOCK = -201"
| "code_of OSA_ERR_SEM_WAIT = -210"
| "code_of OSA_ERR_SEM_POST = -211"
| "code_of OSA_ERR_SEM_TIMEOUT = -212"
| "code_of OSA_ERR_THREAD_CREATE = -300"
| "code_of OSA_ERR_THREAD_JOIN = -301"
| "code_of OSA_ERR_THREAD_DETACH = -302"
| "code_of OSA_ERR_THREAD_CANCEL = -303"
| "code_of OSA_ERR_THREAD_NOT_FOUND = -304"
| "code_of OSA_ERR_QUEUE_CREATE = -400"
| "code_of OSA_ERR_QUEUE_FULL = -401"
| "code_of OSA_ERR_QUEUE_EMPTY = -402"
| "code_of OSA_ERR_QUEUE_SEND = -403"
| "code_of OSA_ERR_QUEUE_RECV = -404"
| "code_of OSA_ERR_QUEUE_TIMEOUT = -405"
| "code_of OSA_ERR_WORKER_INIT = -500"
| "code_of OSA_ERR_WORKER_START = -501"
| "code_of OSA_ERR_WORKER_STOP = -502"
| "code_of OSA_ERR_WORKER_SUBMIT = -503"
| "code_of OSA_ERR_WORKER_CANCEL = -504"
| "code_of OSA_ERR_WORKER_WAIT = -505"
| "code_of OSA_ERR_WORKER_QUEUE_FULL = -506"
| "code_of OSA_ERR_WORKER_NOT_FOUND = -507"
| "code_of OSA_ERR_WORKER_BUSY = -508"
| "code_of OSA_ERR_WORKER_SHUTDOWN = -509"
| "code_of OSA_ERR_HSM_INIT = -600"
| "code_of OSA_ERR_HSM_START = -601"
| "code_of OSA_ERR_HSM_STOP = -602"
| "code_of OSA_ERR_HSM_INVALID_STATE = -603"
| "code_of OSA_ERR_HSM_INVALID_EVENT = -604"
| "code_of OSA_ERR_HSM_INVALID_SIGNAL = -605"
| "code_of OSA_ERR_HSM_SEND_FAILED = -606"
| "code_of OSA_ERR_HSM_NOT_FOUND = -607"
| "code_of OSA_ERR_PLATFORM_BASE = -1000"

definition osa_is_ok :: "int \<Rightarrow> bool" where
  "osa_is_ok err \<longleftrightarrow> err = code_of OSA_OK"

definition osa_is_err :: "int \<Rightarrow> bool" where
  "osa_is_err err \<longleftrightarrow> err < code_of OSA_OK"

section \<open>Descriptions and categories (Linux)\<close>

definition osa_error_string :: "int \<Rightarrow> string" where
  "osa_error_string err =
    (if err = code_of OSA_OK then ''Success''
     else if err = code_of OSA_ERR_GENERIC then ''Generic error''
     else if err = code_of OSA_ERR_INVALID_PARAM then ''Invalid parameter''
     else if err = code_of OSA_ERR_NULL_POINTER then ''Null pointer''
     else if err = code_of OSA_ERR_NOT_INITIALIZED then ''Not initialized''
     else if err = code_of OSA_ERR_ALREADY_INITIALIZED then ''Already initialized''
     else if err = code_of OSA_ERR_NOT_IMPLEMENTED then ''Not implemented''
     else if err = code_of OSA_ERR_NOT_SUPPORTED then ''Not supported''
     else if err = code_of OSA_ERR_BUSY then ''Resource busy''
     else if err = code_of OSA_ERR_TIMEOUT then ''Operation timeout''
     else if err = code_of OSA_ERR_CANCELED then ''Operation canceled''
     else if err = code_of OSA_ERR_ABORTED then ''Operation aborted''
     else if err = code_of OSA_ERR_NO_MEMORY then ''Out of memory''
     else if err = code_of OSA_ERR_NO_RESOURCES then ''No resources available''
     else if err = code_of OSA_ERR_RESOURCE_BUSY then ''Resource busy/in use''
     else if err = code_of OSA_ERR_RESOURCE_EXHAUSTED then ''Resource exhausted''
     else if err = code_of OSA_ERR_MUTEX_LOCK then ''Mutex lock failed''
     else if err = code_of OSA_ERR_MUTEX_UNLOCK then ''Mutex unlock failed''
     else if err = code_of OSA_ERR_SEM_WAIT then ''Semaphore wait failed''
     else if err = code_of OSA_ERR_SEM_POST then ''Semaphore post failed''
     else if err = code_of OSA_ERR_SEM_TIMEOUT then ''Semaphore timeout''
     else if err = code_of OSA_ERR_THREAD_CREATE then ''Thread creation failed''
     else if err = code_of OSA_ERR_THREAD_JOIN then ''Thread join failed''
     else if err = code_of OSA_ERR_THREAD_DETACH then ''Thread detach failed''
     else if err = code_of OSA_ERR_THREAD_CANCEL then ''Thread cancel failed''
     else if err = code_of OSA_ERR_THREAD_NOT_FOUND then ''Thread not found''
     else if err = code_of OSA_ERR_QUEUE_CREATE then ''Queue creation failed''
     else if err = code_of OSA_ERR_QUEUE_FULL then ''Queue full''
     else if err = code_of OSA_ERR_QUEUE_EMPTY then ''Queue empty''
     else if err = code_of OSA_ERR_QUEUE_SEND then ''Queue send failed''
     else if err = code_of OSA_ERR_QUEUE_RECV then ''Queue receive failed''
     else if err = code_of OSA_ERR_QUEUE_TIMEOUT then ''Queue operation timeout''
     else if err = code_of OSA_ERR_WORKER_INIT then ''Worker pool init failed''
     else if err = code_of OSA_ERR_WORKER_START then ''Worker pool start failed''
     else if err = code_of OSA_ERR_WORKER_STOP then ''Worker pool stop failed''
     else if err = code_of OSA_ERR_WORKER_SUBMIT then ''Job submit failed''
     else if err = code_of OSA_ERR_WORKER_CANCEL then ''Job cancel failed''
     else if err = code_of OSA_ERR_WORKER_WAIT then ''Job wait failed''
     else if err = code_of OSA_ERR_WORKER_QUEUE_FULL then ''Worker queue full''
     else if err = code_of OSA_ERR_WORKER_NOT_FOUND then ''Worker/job not found''
     else if err = code_of OSA_ERR_WORKER_BUSY then ''Worker busy''
     else if err = code_of OSA_ERR_WORKER_SHUTDOWN then ''Worker pool shutting down''
     else if err = code_of OSA_ERR_HSM_INIT then ''HSM init failed''
     else if err = code_of OSA_ERR_HSM_START then ''HSM start failed''
     else if err = code_of OSA_ERR_HSM_STOP then ''HSM stop failed''
     else if err = code_of OSA_ERR_HSM_INVALID_STATE then ''Invalid HSM state''
     else if err = code_of OSA_ERR_HSM_INVALID_EVENT then ''Invalid HSM event''
     else if err = code_of OSA_ERR_HSM_INVALID_SIGNAL then ''Invalid HSM signal''
     else if err = code_of OSA_ERR_HSM_SEND_FAILED then ''HSM send event failed''
     else if err = code_of OSA_ERR_HSM_NOT_FOUND then ''HSM not found''
     else if err = code_of OSA_ERR_PLATFORM_BASE then ''Platform error''
     else if err < code_of OSA_ERR_PLATFORM_BASE then ''Unknown platform error''
     else ''Unknown error'')"

definition osa_error_category :: "int \<Rightarrow> string" where
  "osa_error_category err =
    (if err = code_of OSA_OK then ''Success''
     else if err \<ge> -99 then ''General''
     else if err \<ge> -199 then ''Memory/Resource''
     else if err \<ge> -299 then ''Synchronization''
     else if err \<ge> -399 then ''Thread/Task''
     else if err \<ge> -499 then ''Queue/Message''
     else if err \<ge> -599 then ''Worker Pool''
     else if err \<ge> -699 then ''HSM''
     else if err \<le> code_of OSA_ERR_PLATFORM_BASE then ''Platform''
     else ''Unknown'')"

text \<open>The category an enumerator is declared under: the sections of \<^verbatim>\<open>enum osa_error_code\<close>.\<close>

primrec declared_category :: "osa_error_code \<Rightarrow> string" where
  "declared_category OSA_OK = ''Success''"
| "declared_category OSA_ERR_GENERIC = ''General''"
| "declared_category OSA_ERR_INVALID_PARAM = ''General''"
| "declared_category OSA_ERR_NULL_POINTER = ''General''"
| "declared_category OSA_ERR_NOT_INITIALIZED = ''General''"
| "declared_category OSA_ERR_ALREADY_INITIALIZED = ''General''"
| "declared_category OSA_ERR_NOT_IMPLEMENTED = ''General''"
| "declared_category OSA_ERR_NOT_SUPPORTED = ''General''"
| "declared_category OSA_ERR_BUSY = ''General''"
| "declared_category OSA_ERR_TIMEOUT = ''General''"
| "declared_category OSA_ERR_CANCELED = ''General''"
| "declared_category OSA_ERR_ABORTED = ''General''"
| "declared_category OSA_ERR_NO_MEMORY = ''Memory/Resource''"
| "declared_category OSA_ERR_NO_RESOURCES = ''Memory/Resource''"
| "declared_category OSA_ERR_RESOURCE_BUSY = ''Memory/Resource''"
| "declared_category OSA_ERR_RESOURCE_EXHAUSTED = ''Memory/Resource''"
| "declared_category OSA_ERR_MUTEX_LOCK = ''Synchronization''"
| "declared_category OSA_ERR_MUTEX_UNLOCK = ''Synchronization''"
| "declared_category OSA_ERR_SEM_WAIT = ''Synchronization''"
| "declared_category OSA_ERR_SEM_POST = ''Synchronization''"
| "declared_category OSA_ERR_SEM_TIMEOUT = ''Synchronization''"
| "declared_category OSA_ERR_THREAD_CREATE = ''Thread/Task''"
| "declared_category OSA_ERR_THREAD_JOIN = ''Thread/Task''"
| "declared_category OSA_ERR_THREAD_DETACH = ''Thread/Task''"
| "declared_category OSA_ERR_THREAD_CANCEL = ''Thread/Task''"
| "declared_category OSA_ERR_THREAD_NOT_FOUND = ''Thread/Task''"
| "declared_category OSA_ERR_QUEUE_CREATE = ''Queue/Message''"
| "declared_category OSA_ERR_QUEUE_FULL = ''Queue/Message''"
| "declared_category OSA_ERR_QUEUE_EMPTY = ''Queue/Message''"
| "declared_category OSA_ERR_QUEUE_SEND = ''Queue/Message''"
| "declared_category OSA_ERR_QUEUE_RECV = ''Queue/Message''"
| "declared_category OSA_ERR_QUEUE_TIMEOUT = ''Queue/Message''"
| "declared_category OSA_ERR_WORKER_INIT = ''Worker Pool''"
| "declared_category OSA_ERR_WORKER_START = ''Worker Pool''"
| "declared_category OSA_ERR_WORKER_STOP = ''Worker Pool''"
| "declared_category OSA_ERR_WORKER_SUBMIT = ''Worker Pool''"
| "declared_category OSA_ERR_WORKER_CANCEL = ''Worker Pool''"
| "declared_category OSA_ERR_WORKER_WAIT = ''Worker Pool''"
| "declared_category OSA_ERR_WORKER_QUEUE_FULL = ''Worker Pool''"
| "declared_category OSA_ERR_WORKER_NOT_FOUND = ''Worker Pool''"
| "declared_category OSA_ERR_WORKER_BUSY = ''Worker Pool''"
| "declared_category OSA_ERR_WORKER_SHUTDOWN = ''Worker Pool''"
| "declared_category OSA_ERR_HSM_INIT = ''HSM''"
| "declared_category OSA_ERR_HSM_START = ''HSM''"
| "declared_category OSA_ERR_HSM_STOP = ''HSM''"
| "declared_category OSA_ERR_HSM_INVALID_STATE = ''HSM''"
| "declared_category OSA_ERR_HSM_INVALID_EVENT = ''HSM''"
| "declared_category OSA_ERR_HSM_INVALID_SIGNAL = ''HSM''"
| "declared_category OSA_ERR_HSM_SEND_FAILED = ''HSM''"
| "declared_category OSA_ERR_HSM_NOT_FOUND = ''HSM''"
| "declared_category OSA_ERR_PLATFORM_BASE = ''Platform''"

definition all_codes :: "osa_error_code list" where
  "all_codes = [OSA_OK,
    OSA_ERR_GENERIC,
    OSA_ERR_INVALID_PARAM,
    OSA_ERR_NULL_POINTER,
    OSA_ERR_NOT_INITIALIZED,
    OSA_ERR_ALREADY_INITIALIZED,
    OSA_ERR_NOT_IMPLEMENTED,
    OSA_ERR_NOT_SUPPORTED,
    OSA_ERR_BUSY,
    OSA_ERR_TIMEOUT,
    OSA_ERR_CANCELED,
    OSA_ERR_ABORTED,
    OSA_ERR_NO_MEMORY,
    OSA_ERR_NO_RESOURCES,
    OSA_ERR_RESOURCE_BUSY,
    OSA_ERR_RESOURCE_EXHAUSTED,
    OSA_ERR_MUTEX_LOCK,
    OSA_ERR_MUTEX_UNLOCK,
    OSA_ERR_SEM_WAIT,
    OSA_ERR_SEM_POST,
    OSA_ERR_SEM_TIMEOUT,
    OSA_ERR_THREAD_CREATE,
    OSA_ERR_THREAD_JOIN,
    OSA_ERR_THREAD_DETACH,
    OSA_ERR_THREAD_CANCEL,
    OSA_ERR_THREAD_NOT_FOUND,
    OSA_ERR_QUEUE_CREATE,
    OSA_ERR_QUEUE_FULL,
    OSA_ERR_QUEUE_EMPTY,
    OSA_ERR_QUEUE_SEND,
    OSA_ERR_QUEUE_RECV,
    OSA_ERR_QUEUE_TIMEOUT,
    OSA_ERR_WORKER_INIT,
    OSA_ERR_WORKER_START,
    OSA_ERR_WORKER_STOP,
    OSA_ERR_WORKER_SUBMIT,
    OSA_ERR_WORKER_CANCEL,
    OSA_ERR_WORKER_WAIT,
    OSA_ERR_WORKER_QUEUE_FULL,
    OSA_ERR_WORKER_NOT_FOUND,
    OSA_ERR_WORKER_BUSY,
    OSA_ERR_WORKER_SHUTDOWN,
    OSA_ERR_HSM_INIT,
    OSA_ERR_HSM_START,
    OSA_ERR_HSM_STOP,
    OSA_ERR_HSM_INVALID_STATE,
    OSA_ERR_HSM_INVALID_EVENT,
    OSA_ERR_HSM_INVALID_SIGNAL,
    OSA_ERR_HSM_SEND_FAILED,
    OSA_ERR_HSM_NOT_FOUND,
    OSA_ERR_PLATFORM_BASE]"

section \<open>Lemmas\<close>

lemma in_all_codes: "c \<in> set all_codes"
  by (cases c) (simp_all add: all_codes_def)

lemma inj_of_distinct_all_codes: "distinct (map f all_codes) \<Longrightarrow> f c = f d \<longleftrightarrow> c = d"
  using in_all_codes by (auto simp: distinct_map inj_on_def)

lemma code_of_inj: "code_of c = code_of d \<longleftrightarrow> c = d"
  by (rule inj_of_distinct_all_codes) code_simp

lemma code_of_nonpos: "code_of c \<le> 0"
  by (cases c) simp_all

text \<open>
  \<^verbatim>\<open>osa_error_string\<close> tells the codes apart: two enumerators have the same message only when they
  are the same.
\<close>

theorem osa_error_string_inj:
  "osa_error_string (code_of c) = osa_error_string (code_of d) \<longleftrightarrow> c = d"
proof -
  have "distinct (map (\<lambda>c. osa_error_string (code_of c)) all_codes)"
    by code_simp
  then show ?thesis
    by (rule inj_of_distinct_all_codes)
qed

lemma osa_error_string_unknown:
  assumes "err \<notin> range code_of"
  shows "osa_error_string err =
    (if err < code_of OSA_ERR_PLATFORM_BASE then ''Unknown platform error'' else ''Unknown error'')"
proof -
  have "err \<noteq> code_of c" for c
    using assms by auto
  then show ?thesis
    unfolding osa_error_string_def by (simp del: code_of.simps)
qed

text \<open>
  \<^verbatim>\<open>osa_error_category\<close> agrees with the enumeration: for every enumerator it names the section of
  \<^verbatim>\<open>platform/osa_error.h\<close> in which the enumerator is declared.
\<close>

theorem osa_error_category_declared: "osa_error_category (code_of c) = declared_category c"
  by (cases c) (simp_all add: osa_error_category_def)

end
