(* ===== verification/Error_Demo.thy ===== *)
theory Error_Demo
  imports Osa_Error Pool_Start
begin

text \<open>
  The demonstration of the error codes, \<^verbatim>\<open>examples/linux/error_code_demo.c\<close>: what it prints of the
  categories and of the codes its scenarios return, the initialisation, start and stop of a worker pool with their
  error paths, and the table of names. Printing is the value \<open>error_demo_out\<close>; the result of \<^verbatim>\<open>main\<close> is
  \<open>None\<close> where its behaviour is undefined. When the stop comes to its joins the threads that were created have
  ended, because the flag they test is set and each worker has been woken (\<^verbatim>\<open>Worker_Threads\<close>).

  The lemmas: every code of the table has its own name and description, and how \<^verbatim>\<open>main\<close> ends in each case.
\<close>

section \<open>The program\<close>

definition demo_operation :: "int \<Rightarrow> int" where
  "demo_operation scenario =
    (if scenario = 0 then code_of OSA_OK
     else if scenario = 1 then code_of OSA_ERR_INVALID_PARAM
     else if scenario = 2 then code_of OSA_ERR_NO_MEMORY
     else if scenario = 3 then code_of OSA_ERR_TIMEOUT
     else if scenario = 4 then code_of OSA_ERR_WORKER_QUEUE_FULL
     else if scenario = 5 then code_of OSA_ERR_HSM_INVALID_STATE
     else code_of OSA_ERR_GENERIC)"

record error_info =
  ei_code :: int
  ei_string :: string
  ei_category :: string
  ei_is_ok :: bool
  ei_is_err :: bool

definition print_error_info :: "int \<Rightarrow> error_info" where
  "print_error_info err =
    \<lparr>ei_code = err, ei_string = osa_error_string err, ei_category = osa_error_category err,
     ei_is_ok = osa_is_ok err, ei_is_err = osa_is_err err\<rparr>"

text \<open>The first part: one code of each category.\<close>

definition demo_categories :: "string list" where
  "demo_categories =
    map (\<lambda>c. osa_error_category (code_of c))
      [OSA_OK, OSA_ERR_GENERIC, OSA_ERR_NO_MEMORY, OSA_ERR_MUTEX_LOCK, OSA_ERR_THREAD_CREATE, OSA_ERR_QUEUE_FULL,
       OSA_ERR_WORKER_INIT, OSA_ERR_HSM_INIT]"

text \<open>The last part: the codes of the table and the names it gives them.\<close>

definition demo_errors :: "int list" where
  "demo_errors =
    map code_of [OSA_OK, OSA_ERR_GENERIC, OSA_ERR_INVALID_PARAM, OSA_ERR_NULL_POINTER, OSA_ERR_NOT_INITIALIZED,
      OSA_ERR_NO_MEMORY, OSA_ERR_TIMEOUT, OSA_ERR_MUTEX_LOCK, OSA_ERR_THREAD_CREATE, OSA_ERR_QUEUE_FULL,
      OSA_ERR_WORKER_INIT, OSA_ERR_WORKER_QUEUE_FULL, OSA_ERR_HSM_INIT, OSA_ERR_HSM_INVALID_STATE]"

definition demo_name :: "int \<Rightarrow> string" where
  "demo_name err =
    (if err = code_of OSA_OK then ''OSA_OK''
     else if err = code_of OSA_ERR_GENERIC then ''OSA_ERR_GENERIC''
     else if err = code_of OSA_ERR_INVALID_PARAM then ''OSA_ERR_INVALID_PARAM''
     else if err = code_of OSA_ERR_NULL_POINTER then ''OSA_ERR_NULL_POINTER''
     else if err = code_of OSA_ERR_NOT_INITIALIZED then ''OSA_ERR_NOT_INITIALIZED''
     else if err = code_of OSA_ERR_NO_MEMORY then ''OSA_ERR_NO_MEMORY''
     else if err = code_of OSA_ERR_TIMEOUT then ''OSA_ERR_TIMEOUT''
     else if err = code_of OSA_ERR_MUTEX_LOCK then ''OSA_ERR_MUTEX_LOCK''
     else if err = code_of OSA_ERR_THREAD_CREATE then ''OSA_ERR_THREAD_CREATE''
     else if err = code_of OSA_ERR_QUEUE_FULL then ''OSA_ERR_QUEUE_FULL''
     else if err = code_of OSA_ERR_WORKER_INIT then ''OSA_ERR_WORKER_INIT''
     else if err = code_of OSA_ERR_WORKER_QUEUE_FULL then ''OSA_ERR_WORKER_QUEUE_FULL''
     else if err = code_of OSA_ERR_HSM_INIT then ''OSA_ERR_HSM_INIT''
     else if err = code_of OSA_ERR_HSM_INVALID_STATE then ''OSA_ERR_HSM_INVALID_STATE''
     else ''UNKNOWN'')"

definition demo_table :: "(string \<times> int \<times> string) list" where
  "demo_table = map (\<lambda>err. (demo_name err, err, osa_error_string err)) demo_errors"

text \<open>What is printed: the categories, the scenarios, the message and category of a failure, the table.\<close>

record error_demo_out =
  eo_categories :: "string list"
  eo_details :: "error_info list"
  eo_failed :: "(string \<times> string option) option"
  eo_table :: "(string \<times> int \<times> string) list"

definition printed_first :: error_demo_out where
  "printed_first =
    \<lparr>eo_categories = demo_categories, eo_details = map (\<lambda>i. print_error_info (demo_operation i)) [0..5],
     eo_failed = None, eo_table = []\<rparr>"

text \<open>\<^verbatim>\<open>main\<close> on the thread \<open>c\<close>; \<open>st\<close> are the jobs of the process, \<open>sys\<close> its threads, \<open>wfn\<close>, \<open>cfn\<close>, \<open>self\<close> addresses.\<close>

definition error_demo_main ::
  "nat \<Rightarrow> ptr \<Rightarrow> ptr \<Rightarrow> ptr \<Rightarrow> pool_os \<Rightarrow> osa_worker_pool \<Rightarrow> job_store \<Rightarrow> thread_sys \<Rightarrow> (int \<times> error_demo_out) call option" where
  "error_demo_main c wfn cfn self os pool st sys =
    (case osa_worker_pool_init True pool (Some ''demo_pool'') 2 16 (os_dup os) (os_lock os) (os_lock_init os)
            (os_work_sem os) (os_complete_sem os) (os_array os) of
       (err, pool) \<Rightarrow>
         if osa_is_err err
         then Some (Return (-1, printed_first\<lparr>eo_failed := Some (osa_error_string err, Some (osa_error_category err))\<rparr>))
         else (case osa_worker_pool_start True wfn cfn self (os_handles os) (os_create os) pool sys of
                 (err, pool, sys) \<Rightarrow>
                   let stop = osa_worker_pool_stop c True \<lparr>ws_pool = pool, ws_store = st\<rparr> (sys\<lparr>th_terminated := (\<lambda>_. True)\<rparr>)
                   in if osa_is_err err
                      then map_option (map_call (\<lambda>_. (-1, printed_first\<lparr>eo_failed := Some (osa_error_string err, None)\<rparr>))) stop
                      else map_option (map_call (\<lambda>_. (0, printed_first\<lparr>eo_table := demo_table\<rparr>))) stop))"

section \<open>Properties\<close>

lemma worker_init_result:
  assumes "osa_worker_pool_init True p0 name n q dup mtx mi s1 s2 arr = (err, pool)"
  shows "err = 0 \<or> err = -1" "err = 0 \<Longrightarrow> wp_lock pool = free_lock"
    "err = 0 \<Longrightarrow> wp_workers pool = Some (replicate (unat (num_workers pool)) None)"
    "err = 0 \<Longrightarrow> wp_completion_thread pool = NULL"
  using assms by (auto simp: osa_worker_pool_init_def Let_def osa_mutex_create_def osa_sem_create_def zero_pool_def
      c_consts split: if_splits)

text \<open>
  Every code of the table is printed under its own name, with a description of its own; the scenarios and
  the categories are those the comments announce.
\<close>

theorem error_demo_table:
  "map fst demo_table =
     [''OSA_OK'', ''OSA_ERR_GENERIC'', ''OSA_ERR_INVALID_PARAM'', ''OSA_ERR_NULL_POINTER'', ''OSA_ERR_NOT_INITIALIZED'',
      ''OSA_ERR_NO_MEMORY'', ''OSA_ERR_TIMEOUT'', ''OSA_ERR_MUTEX_LOCK'', ''OSA_ERR_THREAD_CREATE'', ''OSA_ERR_QUEUE_FULL'',
      ''OSA_ERR_WORKER_INIT'', ''OSA_ERR_WORKER_QUEUE_FULL'', ''OSA_ERR_HSM_INIT'', ''OSA_ERR_HSM_INVALID_STATE''] \<and>
   distinct (map (snd \<circ> snd) demo_table) \<and>
   demo_categories = [''Success'', ''General'', ''Memory/Resource'', ''Synchronization'', ''Thread/Task'', ''Queue/Message'',
     ''Worker Pool'', ''HSM''] \<and>
   map (\<lambda>i. ei_is_err (print_error_info (demo_operation i))) [0..5] = [False, True, True, True, True, True]"
proof -
  have "[0..5] = [0, 1, 2, 3, 4, 5 :: int]"
    by (simp add: upto.simps)
  then show ?thesis
    by (simp add: demo_table_def demo_errors_def demo_name_def demo_categories_def osa_error_category_def osa_error_string_def
        print_error_info_def demo_operation_def osa_is_err_def)
qed

text \<open>
  C40. How the demonstration of the error codes ends. When the pool cannot be initialised it reports a generic
  error and returns -1. When the pool is initialised but cannot be started, its clean-up stops the pool, which joins
  a handle that was never written: undefined behaviour. Otherwise it prints the whole table and returns 0.
\<close>

theorem error_demo_outcome:
  assumes "os_contract os sys"
    and "osa_worker_pool_init True pool (Some ''demo_pool'') 2 16 (os_dup os) (os_lock os) (os_lock_init os)
      (os_work_sem os) (os_complete_sem os) (os_array os) = (err, pool1)"
    and "osa_worker_pool_start True wfn cfn self (os_handles os) (os_create os) pool1 sys = (err2, pool2, sys2)"
  shows "error_demo_main c wfn cfn self os pool st sys =
    (if err \<noteq> 0 then Some (Return (-1, printed_first\<lparr>eo_failed := Some (''Generic error'', Some ''General'')\<rparr>))
     else if err2 \<noteq> 0 then None
     else Some (Return (0, printed_first\<lparr>eo_table := demo_table\<rparr>)))"
proof (cases "err = 0")
  case False
  then have "err = -1"
    using worker_init_result(1) [OF assms(2)] by blast
  then show ?thesis
    by (simp add: error_demo_main_def assms(2) osa_is_err_def osa_error_string_def osa_error_category_def)
next
  case True
  note init = worker_init_result(2-4) [OF assms(2) True]
  let ?ws = "\<lparr>ws_pool = pool2, ws_store = st\<rparr>" and ?sys = "sys2\<lparr>th_terminated := (\<lambda>_. True)\<rparr>"
  have lock: "wp_lock (ws_pool ?ws) = free_lock"
    using start_failed_join(2) [OF assms(3) _ assms(1) init(2)] start_joinable(2) [OF _ assms(1) init(2,3), of wfn cfn self pool2 sys2]
      assms(3) init(1) by (cases "err2 = 0") auto
  obtain ws where stop: "osa_worker_pool_stop c True ?ws ?sys =
      map_option (map_call (\<lambda>(ws2, sys'). (0, ws2, sys'))) (stop_join ws ?sys)" and thr: "pool_threads ws = pool_threads ?ws"
    by (rule stop_joins [OF lock])
  show ?thesis
  proof (cases "err2 = 0")
    case True
    have "joinable (ws_pool ws) sys2"
      using start_joinable(1) [OF assms(3) [unfolded True] assms(1) init(2,3)] joinable_threads [OF thr] by simp
    then obtain ws' sys' where "stop_join ws ?sys = Some (Return (ws', sys'))"
      using join_returns by blast
    then show ?thesis
      using stop \<open>err = 0\<close> True by (simp add: error_demo_main_def assms(2,3) osa_is_err_def)
  next
    case False
    note failed = start_failed_join(1,3) [OF assms(3) False assms(1) init(2) thr]
    then show ?thesis
      using stop \<open>err = 0\<close> False by (simp add: error_demo_main_def assms(2,3) osa_is_err_def)
  qed
qed

text \<open>A system that cannot create a second thread.\<close>

definition sample_pool_os :: pool_os where
  "sample_pool_os = \<lparr>os_dup = True, os_lock = True, os_lock_init = 0, os_work_sem = True, os_complete_sem = True, os_array = True,
     os_handles = (\<lambda>m. 100 + m), os_create = (\<lambda>n _ _ _. if n = 0 then Inr 0 else Inl 11)\<rparr>"

theorem error_demo_outcome_witness:
  "error_demo_main 7 3 4 3000 sample_pool_os zero_pool \<lparr>jobs = (\<lambda>_. zero_job), g_job_id_counter = 0, g_job_pool_initialized = False\<rparr>
    \<lparr>th_handles = Map.empty, th_terminated = (\<lambda>_. False)\<rparr> = None"
proof -
  let ?os = sample_pool_os and ?sys = "\<lparr>th_handles = Map.empty, th_terminated = (\<lambda>_. False)\<rparr>"
  have contract: "os_contract ?os ?sys"
    by (simp add: os_contract_def sample_pool_os_def)
  obtain err pool1 where i: "osa_worker_pool_init True zero_pool (Some ''demo_pool'') 2 16 (os_dup ?os) (os_lock ?os) (os_lock_init ?os)
      (os_work_sem ?os) (os_complete_sem ?os) (os_array ?os) = (err, pool1)"
    by fastforce
  obtain err2 pool2 sys2 where s: "osa_worker_pool_start True 3 4 3000 (os_handles ?os) (os_create ?os) pool1 ?sys = (err2, pool2, sys2)"
    by (cases "osa_worker_pool_start True 3 4 3000 (os_handles ?os) (os_create ?os) pool1 ?sys") blast
  have two: "start_workers p f a ct pc i 2 ws sys = start_workers p f a ct pc i (Suc (Suc 0)) ws sys" for p f a ct pc i ws sys
    by (simp only: numeral_2_eq_2)
  have "err = 0" and p: "num_workers pool1 = 2" "wp_workers pool1 = Some (replicate 2 None)"
    using i by (auto simp: sample_pool_os_def osa_worker_pool_init_def Let_def osa_mutex_create_def osa_sem_create_def zero_pool_def
        SEM_VALUE_MAX_def c_consts)
  moreover have "err2 \<noteq> 0"
    using s p by (auto simp: sample_pool_os_def osa_worker_pool_start_def Let_def two osa_thread_create_def)
  ultimately show ?thesis
    using error_demo_outcome [OF contract i s, of 7] by simp
qed

end
