(* ===== verification/Esp_Pool.thy ===== *)
theory Esp_Pool
  imports Slot_Pool Osa_Error
begin

text \<open>
  The tables of statically allocated objects that the files of \<^verbatim>\<open>platform/esp32\<close> keep: slots with a
  kernel object's handle and a flag, a search for the first free slot and one by handle. The
  FreeRTOS calls are parameters of the model: records of functions on a kernel state \<open>'k\<close>; a result
  that the sources compare with \<^verbatim>\<open>pdTRUE\<close> or \<^verbatim>\<open>pdPASS\<close> is a truth value. A static buffer handed to the
  kernel is named by the index of its slot. The functions of the ESP32 port that have the name of a
  Linux one carry the prefix \<open>esp_\<close>.

  The contract \<open>handle_table\<close> is what the five tables have in common. Its lemmas show, for a kernel
  that gives each static buffer its own handle, that a creation fails exactly when all slots are in
  use, that live handles are never shared and that a destruction frees the slot of its handle alone,
  after any sequence of creations and destructions.
\<close>

section \<open>Slots\<close>

record esp_slot =
  slot_handle :: ptr
  slot_used :: bool

text \<open>The index of the first free slot of a table of \<open>n\<close> slots, or -1.\<close>

definition find_free_slot :: "nat \<Rightarrow> 'a esp_slot_scheme list \<Rightarrow> int" where
  "find_free_slot n pool =
    (case first_free (\<lambda>i. \<not> slot_used (pool ! i)) 0 n of None \<Rightarrow> -1 | Some i \<Rightarrow> int i)"

text \<open>The loop of a destruction: it clears the first used slot with the handle and ends there.\<close>

definition free_slot_of ::
  "nat \<Rightarrow> ('a esp_slot_scheme \<Rightarrow> 'a esp_slot_scheme) \<Rightarrow> ptr \<Rightarrow> 'a esp_slot_scheme list \<Rightarrow>
   'a esp_slot_scheme list" where
  "free_slot_of n clear h pool =
    (case first_free (\<lambda>i. slot_handle (pool ! i) = h \<and> slot_used (pool ! i)) 0 n of
       None \<Rightarrow> pool | Some i \<Rightarrow> pool[i := clear (pool ! i)])"

text \<open>What a table holds: the handle of every used slot.\<close>

definition slot_live :: "'a esp_slot_scheme list \<Rightarrow> nat \<Rightarrow> ptr option" where
  "slot_live pool i =
    (if i < length pool \<and> slot_used (pool ! i) then Some (slot_handle (pool ! i)) else None)"

lemma slot_live_update:
  "i < length pool \<Longrightarrow>
   slot_live (pool[i := x]) = (slot_live pool)(i := if slot_used x then Some (slot_handle x) else None)"
  by (auto simp: slot_live_def fun_eq_iff nth_list_update)

lemma slot_live_replicate [simp]: "\<not> slot_used x \<Longrightarrow> slot_live (replicate n x) = Map.empty"
  by (auto simp: slot_live_def fun_eq_iff)

lemma first_free_cong:
  "(\<And>j. i \<le> j \<Longrightarrow> j < i + n \<Longrightarrow> P j = Q j) \<Longrightarrow> first_free P i n = first_free Q i n"
  by (induction n arbitrary: i) auto

lemma first_free_single: "k \<le> i \<Longrightarrow> i < k + n \<Longrightarrow> first_free (\<lambda>j. j = i) k n = Some i"
  by (induction n arbitrary: k) auto

lemma find_free_live:
  "length pool = n \<Longrightarrow> find_free_slot n pool =
    (case first_free (\<lambda>i. slot_live pool i = None) 0 n of None \<Rightarrow> -1 | Some i \<Rightarrow> int i)"
  unfolding find_free_slot_def
  by (subst first_free_cong [where Q = "\<lambda>i. slot_live pool i = None"]) (auto simp: slot_live_def)

lemma length_free_slot_of [simp]: "length (free_slot_of n clear h pool) = length pool"
  by (simp add: free_slot_of_def split: option.split)

lemma free_slot_of_live:
  assumes "length pool = n" and "\<And>x. \<not> slot_used (clear x)"
  shows "slot_live (free_slot_of n clear h pool) =
    (case first_free (\<lambda>i. slot_live pool i = Some h) 0 n of
       None \<Rightarrow> slot_live pool | Some i \<Rightarrow> (slot_live pool)(i := None))"
proof -
  have eq: "first_free (\<lambda>i. slot_handle (pool ! i) = h \<and> slot_used (pool ! i)) 0 n =
      first_free (\<lambda>i. slot_live pool i = Some h) 0 n"
    using assms(1) by (intro first_free_cong) (auto simp: slot_live_def)
  show ?thesis
  proof (cases "first_free (\<lambda>i. slot_live pool i = Some h) 0 n")
    case (Some i)
    then have "i < length pool"
      using first_free_Some [OF Some] assms(1) by simp
    then show ?thesis
      using assms(2) Some by (simp add: free_slot_of_def eq slot_live_update)
  qed (simp add: free_slot_of_def eq)
qed

section \<open>The contract\<close>

text \<open>
  \<open>live s i\<close> is the handle in slot \<open>i\<close>, if it is in use, and \<open>given s i\<close> the handle the kernel would
  give for the buffer of slot \<open>i\<close>.
\<close>

locale handle_table =
  fixes size :: nat
    and inv :: "'s \<Rightarrow> bool"
    and live :: "'s \<Rightarrow> nat \<Rightarrow> ptr option"
    and given :: "'s \<Rightarrow> nat \<Rightarrow> ptr"
    and create :: "'s \<Rightarrow> ptr \<times> 's"
    and destroy :: "'s \<Rightarrow> ptr \<Rightarrow> 's"
  assumes live_size: "inv s \<Longrightarrow> live s i \<noteq> None \<Longrightarrow> i < size"
    and create_inv: "inv s \<Longrightarrow> inv (snd (create s))"
    and create_full: "inv s \<Longrightarrow> first_free (\<lambda>i. live s i = None) 0 size = None \<Longrightarrow>
      fst (create s) = NULL \<and> live (snd (create s)) = live s"
    and create_slot: "inv s \<Longrightarrow> first_free (\<lambda>i. live s i = None) 0 size = Some i \<Longrightarrow>
      fst (create s) = given s i \<and>
      live (snd (create s)) = (if given s i = NULL then live s else (live s)(i \<mapsto> given s i))"
    and destroy_inv: "inv s \<Longrightarrow> inv (destroy s h)"
    and destroy_live: "inv s \<Longrightarrow> h \<noteq> NULL \<Longrightarrow> live (destroy s h) =
      (case first_free (\<lambda>i. live s i = Some h) 0 size of None \<Rightarrow> live s | Some i \<Rightarrow> (live s)(i := None))"
begin

text \<open>Any sequence of creations (\<open>None\<close>) and destructions of a handle.\<close>

fun table_run :: "ptr option list \<Rightarrow> 's \<Rightarrow> 's" where
  "table_run [] s = s"
| "table_run (None # ops) s = table_run ops (snd (create s))"
| "table_run (Some h # ops) s = table_run ops (destroy s h)"

text \<open>Each static buffer has its own handle \<open>f i\<close>, and a slot in use holds the handle of its buffer.\<close>

definition static_handles :: "(nat \<Rightarrow> ptr) \<Rightarrow> bool" where
  "static_handles f \<longleftrightarrow> inj f \<and> (\<forall>i. f i \<noteq> NULL) \<and> (\<forall>s i. given s i = f i)"

definition table_ok :: "(nat \<Rightarrow> ptr) \<Rightarrow> 's \<Rightarrow> bool" where
  "table_ok f s \<longleftrightarrow> inv s \<and> (\<forall>i h. live s i = Some h \<longrightarrow> h = f i)"

lemma static_handlesD:
  assumes "static_handles f"
  shows "f i \<noteq> NULL" "given s i = f i" "f i = f j \<longleftrightarrow> i = j"
  using assms by (simp_all add: static_handles_def inj_eq)

lemma table_okD:
  assumes "table_ok f s"
  shows "inv s" "live s i = Some h \<Longrightarrow> h = f i"
  using assms by (simp_all add: table_ok_def)

text \<open>The two ways a creation ends.\<close>

lemma create_cases:
  assumes "static_handles f" and "table_ok f s"
  obtains (full) "fst (create s) = NULL" "live (snd (create s)) = live s" "\<forall>i < size. live s i \<noteq> None"
  | (new) i where "i < size" "fst (create s) = f i" "live s i = None"
    "live (snd (create s)) = (live s)(i \<mapsto> f i)" "\<forall>j. live s j \<noteq> Some (f i)"
proof (cases "first_free (\<lambda>i. live s i = None) 0 size")
  case None
  then show ?thesis
    using full create_full [OF table_okD(1) [OF assms(2)] None]
      first_free_None [of "\<lambda>i. live s i = None" 0 size] by auto
next
  case (Some i)
  have i: "i < size" "live s i = None"
    using first_free_Some [OF Some] by auto
  have "live s j \<noteq> Some (f i)" for j
  proof
    assume j: "live s j = Some (f i)"
    then have "f i = f j"
      by (rule table_okD(2) [OF assms(2)])
    then have "i = j"
      using static_handlesD(3) [OF assms(1)] by blast
    then show False
      using j i by simp
  qed
  then show ?thesis
    using new [of i] i create_slot [OF table_okD(1) [OF assms(2)] Some]
    unfolding static_handlesD(2) [OF assms(1)] if_not_P [OF static_handlesD(1) [OF assms(1)]] by blast
qed

lemma create_ok:
  assumes "static_handles f" and "table_ok f s"
  shows "table_ok f (snd (create s))"
  using create_inv [OF table_okD(1) [OF assms(2)]] table_okD(2) [OF assms(2)]
  unfolding table_ok_def by (cases rule: create_cases [OF assms]) auto

lemma create_refused:
  assumes "inv s" and "\<And>i. given s i = NULL"
  shows "fst (create s) = NULL \<and> live (snd (create s)) = live s"
  using create_full [OF assms(1)] create_slot [OF assms(1)] assms(2)
  by (cases "first_free (\<lambda>i. live s i = None) 0 size") auto

lemma destroy_ok:
  assumes "table_ok f s" and "h \<noteq> NULL"
  shows "table_ok f (destroy s h)"
  using destroy_inv [OF table_okD(1) [OF assms(1)], of h] table_okD(2) [OF assms(1)]
    destroy_live [OF table_okD(1) [OF assms(1)] assms(2)]
  unfolding table_ok_def by (auto split: option.splits if_splits)

lemma run_ok:
  assumes "static_handles f" and "table_ok f s" and "Some NULL \<notin> set ops"
  shows "table_ok f (table_run ops s)"
  using assms(2,3)
proof (induction ops arbitrary: s)
  case (Cons x ops)
  then show ?case
    using create_ok [OF assms(1)] destroy_ok by (cases x) auto
qed simp

lemma live_exclusive:
  assumes "static_handles f" and "table_ok f s" and "live s i = Some h" and "live s j = Some h"
  shows "i = j"
  using table_okD(2) [OF assms(2,3)] table_okD(2) [OF assms(2,4)] static_handlesD(3) [OF assms(1)] by simp

lemma destroy_frees:
  assumes "static_handles f" and "table_ok f s" and "live s i = Some h"
  shows "live (destroy s h) = (live s)(i := None)"
proof -
  have "h = f i" and inv: "inv s"
    using table_okD [OF assms(2)] assms(3) by auto
  then have h: "h \<noteq> NULL"
    using static_handlesD(1) [OF assms(1)] by simp
  have "i < size"
    using live_size [OF inv] assms(3) by simp
  then obtain k where k: "first_free (\<lambda>j. live s j = Some h) 0 size = Some k"
    using first_free_None [of "\<lambda>j. live s j = Some h" 0 size] assms(3)
    by (cases "first_free (\<lambda>j. live s j = Some h) 0 size") auto
  then have "k = i"
    using live_exclusive [OF assms(1,2) _ assms(3)] first_free_Some [OF k] by blast
  then show ?thesis
    using destroy_live [OF inv h] k by simp
qed

lemma destroy_unknown:
  assumes "inv s" and "h \<noteq> NULL" and "\<forall>i. live s i \<noteq> Some h"
  shows "live (destroy s h) = live s"
proof (cases "first_free (\<lambda>i. live s i = Some h) 0 size")
  case None
  then show ?thesis using destroy_live [OF assms(1,2)] by simp
next
  case (Some i)
  then show ?thesis using first_free_Some [OF Some] assms(3) by blast
qed

text \<open>All of it, after any sequence of creations and destructions.\<close>

lemma table_history:
  assumes "static_handles f" and "table_ok f s0" and "Some NULL \<notin> set ops"
  defines "s \<equiv> table_run ops s0"
  shows "live s i = Some h \<Longrightarrow> live s j = Some h \<Longrightarrow> i = j"
    "fst (create s) = NULL \<longleftrightarrow> (\<forall>i < size. live s i \<noteq> None)"
    "fst (create s) \<noteq> NULL \<Longrightarrow> live s i \<noteq> Some (fst (create s))"
    "fst (create s) \<noteq> NULL \<Longrightarrow> \<exists>i < size. live s i = None \<and> live (snd (create s)) = (live s)(i \<mapsto> fst (create s))"
    "fst (create s) \<noteq> NULL \<Longrightarrow> live (destroy (snd (create s)) (fst (create s))) = live s"
proof -
  have ok: "table_ok f s"
    unfolding s_def by (rule run_ok [OF assms(1-3)])
  show "live s i = Some h \<Longrightarrow> live s j = Some h \<Longrightarrow> i = j"
    by (rule live_exclusive [OF assms(1) ok])
  note nn = static_handlesD(1) [OF assms(1)]
  show "fst (create s) = NULL \<longleftrightarrow> (\<forall>i < size. live s i \<noteq> None)"
    by (cases rule: create_cases [OF assms(1) ok]) (use nn in \<open>auto simp del: neq0_conv\<close>)
  have "\<exists>k < size. fst (create s) = f k \<and> live s k = None \<and> live (snd (create s)) = (live s)(k \<mapsto> f k) \<and>
      (\<forall>j. live s j \<noteq> Some (f k))" if "fst (create s) \<noteq> NULL"
    by (cases rule: create_cases [OF assms(1) ok]) (use that in auto)
  then show "fst (create s) \<noteq> NULL \<Longrightarrow> live s i \<noteq> Some (fst (create s))"
    "fst (create s) \<noteq> NULL \<Longrightarrow> \<exists>i < size. live s i = None \<and> live (snd (create s)) = (live s)(i \<mapsto> fst (create s))"
    by metis+
  show "live (destroy (snd (create s)) (fst (create s))) = live s" if new: "fst (create s) \<noteq> NULL"
  proof -
    obtain k where k: "live s k = None" "live (snd (create s)) = (live s)(k \<mapsto> fst (create s))"
      using \<open>fst (create s) \<noteq> NULL \<Longrightarrow> \<exists>i < size. live s i = None \<and> live (snd (create s)) = (live s)(i \<mapsto> fst (create s))\<close>
        new by blast
    then show ?thesis
      using destroy_frees [OF assms(1) create_ok [OF assms(1) ok], of k "fst (create s)"]
      by (simp add: fun_upd_idem_iff)
  qed
qed

end

section \<open>Tables in an array\<close>

text \<open>
  How the sources implement the contract: an array of slots that the first creation zeroes (\<open>ready\<close> is
  the flag of this), a creation that fills the first free slot with the kernel's handle and a
  destruction that clears the slot of the handle.
\<close>

locale slot_array =
  fixes size :: nat
    and arr :: "'s \<Rightarrow> 'a esp_slot_scheme list"
    and ready :: "'s \<Rightarrow> bool"
    and zero_slot :: "'a esp_slot_scheme"
    and fill :: "ptr \<Rightarrow> 'a esp_slot_scheme \<Rightarrow> 'a esp_slot_scheme"
    and clear :: "'a esp_slot_scheme \<Rightarrow> 'a esp_slot_scheme"
    and given :: "'s \<Rightarrow> nat \<Rightarrow> ptr"
    and create :: "'s \<Rightarrow> ptr \<times> 's"
    and destroy :: "'s \<Rightarrow> ptr \<Rightarrow> 's"
  assumes zero_unused: "\<not> slot_used zero_slot"
    and fill_used: "slot_used (fill h x)" "slot_handle (fill h x) = h"
    and clear_unused: "\<not> slot_used (clear x)"
    and create_none: "find_free_slot size (if ready s then arr s else replicate size zero_slot) < 0 \<Longrightarrow>
      fst (create s) = NULL \<and> ready (snd (create s)) \<and>
      arr (snd (create s)) = (if ready s then arr s else replicate size zero_slot)"
    and create_some: "find_free_slot size (if ready s then arr s else replicate size zero_slot) = int i \<Longrightarrow>
      fst (create s) = given s i \<and> ready (snd (create s)) \<and>
      arr (snd (create s)) =
        (let pool = (if ready s then arr s else replicate size zero_slot)
         in if given s i = NULL then pool else pool[i := fill (given s i) (pool ! i)])"
    and destroy_null: "destroy s NULL = s"
    and destroy_slot: "h \<noteq> NULL \<Longrightarrow>
      ready (destroy s h) = ready s \<and> arr (destroy s h) = free_slot_of size clear h (arr s)"
begin

definition table_inv :: "'s \<Rightarrow> bool" where
  "table_inv s \<longleftrightarrow> length (arr s) = size \<and> (ready s \<or> slot_live (arr s) = Map.empty)"

definition table_live :: "'s \<Rightarrow> nat \<Rightarrow> ptr option" where
  "table_live s = slot_live (arr s)"

definition ready_arr :: "'s \<Rightarrow> 'a esp_slot_scheme list" where
  "ready_arr s = (if ready s then arr s else replicate size zero_slot)"

lemma ready_arr_simps:
  assumes "table_inv s"
  shows "length (ready_arr s) = size" "slot_live (ready_arr s) = table_live s"
  using assms zero_unused by (auto simp: ready_arr_def table_inv_def table_live_def)

lemma array_create_full:
  assumes "table_inv s" and "first_free (\<lambda>i. table_live s i = None) 0 size = None"
  shows "fst (create s) = NULL" "table_inv (snd (create s))" "table_live (snd (create s)) = table_live s"
proof -
  have "find_free_slot size (ready_arr s) < 0"
    using find_free_live [OF ready_arr_simps(1) [OF assms(1)]] assms(2)
    by (simp add: ready_arr_simps [OF assms(1)])
  note c = create_none [folded ready_arr_def, OF this]
  then show "fst (create s) = NULL" "table_inv (snd (create s))" "table_live (snd (create s)) = table_live s"
    using ready_arr_simps [OF assms(1)] by (simp_all add: table_inv_def table_live_def)
qed

lemma array_create_slot:
  assumes "table_inv s" and "first_free (\<lambda>i. table_live s i = None) 0 size = Some i"
  shows "fst (create s) = given s i" "table_inv (snd (create s))"
    "table_live (snd (create s)) = (if given s i = NULL then table_live s else (table_live s)(i \<mapsto> given s i))"
proof -
  have "find_free_slot size (ready_arr s) = int i"
    using find_free_live [OF ready_arr_simps(1) [OF assms(1)]] assms(2)
    by (simp add: ready_arr_simps [OF assms(1)])
  note c = create_some [folded ready_arr_def, OF this]
  have "i < length (ready_arr s)"
    using first_free_Some [OF assms(2)] ready_arr_simps(1) [OF assms(1)] by simp
  with c show "fst (create s) = given s i" "table_inv (snd (create s))"
    "table_live (snd (create s)) = (if given s i = NULL then table_live s else (table_live s)(i \<mapsto> given s i))"
    using ready_arr_simps [OF assms(1)]
    by (simp_all add: table_inv_def table_live_def slot_live_update fill_used Let_def)
qed

lemma array_destroy:
  assumes "table_inv s" and "h \<noteq> NULL"
  shows "table_inv (destroy s h)" "table_live (destroy s h) =
    (case first_free (\<lambda>i. table_live s i = Some h) 0 size of
       None \<Rightarrow> table_live s | Some i \<Rightarrow> (table_live s)(i := None))"
proof -
  have len: "length (arr s) = size" and d: "ready (destroy s h) = ready s"
    "arr (destroy s h) = free_slot_of size clear h (arr s)"
    using assms destroy_slot [OF assms(2)] by (simp_all add: table_inv_def)
  note l = free_slot_of_live [OF len clear_unused, where h = h]
  show "table_live (destroy s h) = (case first_free (\<lambda>i. table_live s i = Some h) 0 size of
       None \<Rightarrow> table_live s | Some i \<Rightarrow> (table_live s)(i := None))"
    using l unfolding table_live_def d .
  show "table_inv (destroy s h)"
    using assms(1) l len unfolding table_inv_def d by (auto split: option.splits)
qed

end

sublocale slot_array \<subseteq> handle_table size table_inv table_live given create destroy
proof (unfold_locales, goal_cases)
  case (1 s i)
  then show ?case by (simp add: table_inv_def table_live_def slot_live_def split: if_splits)
next
  case (2 s)
  then show ?case
    by (cases "first_free (\<lambda>i. table_live s i = None) 0 size") (auto intro: array_create_full array_create_slot)
next
  case (3 s)
  then show ?case by (simp add: array_create_full)
next
  case (4 s i)
  then show ?case using array_create_slot [OF 4] by blast
next
  case (5 s h)
  then show ?case by (cases "h = NULL") (auto simp: destroy_null intro: array_destroy)
next
  case (6 s h)
  then show ?case by (rule array_destroy(2))
qed

end
