(* ===== verification/Esp_Queue.thy ===== *)
theory Esp_Queue
  imports Esp_Pool
begin

text \<open>
  Message queues of the ESP32 port, \<^verbatim>\<open>platform/esp32/osa_queue.c\<close>: every operation, over the queue calls
  of FreeRTOS as the record \<open>queue_kernel\<close>. A message is the list of bytes at the pointer handed to the
  kernel, \<open>None\<close> for NULL; a call of the kernel that stores a message returns it. The limits
  \<^verbatim>\<open>OSA_QUEUE_MAX_SIZE\<close> and \<^verbatim>\<open>OSA_QUEUE_MAX_MSG_SIZE\<close>, which no file of the repository defines, are
  fields of \<open>queue_config\<close>, with the registry switch of FreeRTOS.

  The lemmas: the table of queues keeps the contract \<open>handle_table\<close>; what a creation asks of the
  kernel fits the static storage; and on a kernel whose queues behave as documented the operations
  are those of a bounded FIFO.
\<close>

section \<open>The kernel\<close>

record 'k queue_kernel =
  xQueueCreateStatic :: "uint32 \<Rightarrow> uint32 \<Rightarrow> nat \<Rightarrow> 'k \<Rightarrow> ptr \<times> 'k"
  vQueueAddToRegistry :: "ptr \<Rightarrow> string \<Rightarrow> 'k \<Rightarrow> 'k"
  vQueueDelete :: "ptr \<Rightarrow> 'k \<Rightarrow> 'k"
  xQueueSend :: "ptr \<Rightarrow> byte list \<Rightarrow> uint32 \<Rightarrow> 'k \<Rightarrow> bool \<times> 'k"
  xQueueSendFromISR :: "ptr \<Rightarrow> byte list \<Rightarrow> 'k \<Rightarrow> bool \<times> bool \<times> 'k"
  xQueueReceive :: "ptr \<Rightarrow> uint32 \<Rightarrow> 'k \<Rightarrow> byte list option \<times> 'k"
  xQueuePeek :: "ptr \<Rightarrow> uint32 \<Rightarrow> 'k \<Rightarrow> byte list option \<times> 'k"
  uxQueueMessagesWaiting :: "ptr \<Rightarrow> 'k \<Rightarrow> uint32"
  uxQueueSpacesAvailable :: "ptr \<Rightarrow> 'k \<Rightarrow> uint32"
  xQueueReset :: "ptr \<Rightarrow> 'k \<Rightarrow> 'k"
  q_xPortInIsrContext :: "'k \<Rightarrow> bool"
  q_portYIELD_FROM_ISR :: "bool \<Rightarrow> 'k \<Rightarrow> 'k"
  q_pdMS_TO_TICKS :: "uint32 \<Rightarrow> uint32"
  q_portMAX_DELAY :: uint32

record queue_config =
  OSA_QUEUE_MAX_SIZE :: int
  OSA_QUEUE_MAX_MSG_SIZE :: nat
  registry_enabled :: bool

section \<open>The table\<close>

definition OSA_MAX_QUEUES :: nat where "OSA_MAX_QUEUES = 8"

record queue_slot = esp_slot +
  slot_msg_size :: nat

record queue_table =
  queue_pool :: "queue_slot list"
  queue_pool_init :: bool

definition zero_queue_slot :: queue_slot where
  "zero_queue_slot = \<lparr>slot_handle = NULL, slot_used = False, slot_msg_size = 0\<rparr>"

definition queue_pool_init_once :: "queue_table \<Rightarrow> queue_table" where
  "queue_pool_init_once tab =
    (if \<not> queue_pool_init tab
     then tab\<lparr>queue_pool := replicate OSA_MAX_QUEUES zero_queue_slot, queue_pool_init := True\<rparr> else tab)"

definition find_free_queue_slot :: "queue_table \<Rightarrow> int" where
  "find_free_queue_slot tab = find_free_slot OSA_MAX_QUEUES (queue_pool tab)"

text \<open>The limits of the static storage, as the creation applies them.\<close>

definition limit_msg_size :: "queue_config \<Rightarrow> nat \<Rightarrow> nat" where
  "limit_msg_size cfg msg_size =
    (if msg_size > OSA_QUEUE_MAX_MSG_SIZE cfg then OSA_QUEUE_MAX_MSG_SIZE cfg else msg_size)"

definition limit_max_msgs :: "queue_config \<Rightarrow> int \<Rightarrow> int" where
  "limit_max_msgs cfg max_msgs =
    (if max_msgs > OSA_QUEUE_MAX_SIZE cfg then OSA_QUEUE_MAX_SIZE cfg else max_msgs)"

definition esp_queue_create ::
  "'k queue_kernel \<Rightarrow> queue_config \<Rightarrow> string option \<Rightarrow> nat \<Rightarrow> int \<Rightarrow> queue_table \<times> 'k \<Rightarrow>
   ptr \<times> queue_table \<times> 'k" where
  "esp_queue_create K cfg name msg_size max_msgs s =
    (let tab = queue_pool_init_once (fst s)
     in if msg_size = 0 \<or> max_msgs = 0 then (NULL, tab, snd s)
        else
          let msg_size1 = limit_msg_size cfg msg_size; max_msgs1 = limit_max_msgs cfg max_msgs;
              slot = find_free_queue_slot tab
          in if slot < 0 then (NULL, tab, snd s)
             else case xQueueCreateStatic K (of_int max_msgs1) (of_nat msg_size1) (nat slot) (snd s) of
               (handle, k) \<Rightarrow>
                 if handle = NULL then (NULL, tab, k)
                 else (handle,
                   tab\<lparr>queue_pool := (queue_pool tab)[nat slot :=
                     (queue_pool tab ! nat slot)\<lparr>slot_handle := handle, slot_used := True,
                       slot_msg_size := msg_size1\<rparr>]\<rparr>,
                   if registry_enabled cfg
                   then (case name of Some nm \<Rightarrow> vQueueAddToRegistry K handle nm k | None \<Rightarrow> k) else k))"

definition esp_queue_destroy :: "'k queue_kernel \<Rightarrow> ptr \<Rightarrow> queue_table \<times> 'k \<Rightarrow> int \<times> queue_table \<times> 'k" where
  "esp_queue_destroy K queue s =
    (if queue = NULL then (code_of OSA_ERR_INVALID_PARAM, s)
     else (code_of OSA_OK,
       (fst s)\<lparr>queue_pool := free_slot_of OSA_MAX_QUEUES
          (\<lambda>x. x\<lparr>slot_used := False, slot_handle := NULL\<rparr>) queue (queue_pool (fst s))\<rparr>,
       vQueueDelete K queue (snd s)))"

section \<open>Messages\<close>

definition esp_ticks :: "'k queue_kernel \<Rightarrow> int \<Rightarrow> uint32" where
  "esp_ticks K timeout_ms =
    (if timeout_ms < 0 then q_portMAX_DELAY K else q_pdMS_TO_TICKS K (of_int timeout_ms))"

text \<open>The argument \<^verbatim>\<open>msg_size\<close> of the three calls is not used.\<close>

definition esp_queue_send ::
  "'k queue_kernel \<Rightarrow> ptr \<Rightarrow> byte list option \<Rightarrow> nat \<Rightarrow> int \<Rightarrow> 'k \<Rightarrow> int \<times> 'k" where
  "esp_queue_send K queue msg msg_size timeout_ms k =
    (if queue = NULL then (code_of OSA_ERR_INVALID_PARAM, k)
     else case msg of
       None \<Rightarrow> (code_of OSA_ERR_INVALID_PARAM, k)
     | Some m \<Rightarrow>
         (case (if q_xPortInIsrContext K k
                then case xQueueSendFromISR K queue m k of
                  (ok, woken, k1) \<Rightarrow> (ok, q_portYIELD_FROM_ISR K woken k1)
                else xQueueSend K queue m (esp_ticks K timeout_ms) k) of
            (ok, k') \<Rightarrow>
              (if \<not> ok then (if timeout_ms = 0 then code_of OSA_ERR_QUEUE_FULL else code_of OSA_ERR_TIMEOUT)
               else code_of OSA_OK, k')))"

text \<open>\<open>msg_ok\<close>: the pointer for the message is not NULL; the stored message is part of the result.\<close>

definition esp_queue_receive ::
  "'k queue_kernel \<Rightarrow> ptr \<Rightarrow> bool \<Rightarrow> nat \<Rightarrow> int \<Rightarrow> 'k \<Rightarrow> (int \<times> byte list option) \<times> 'k" where
  "esp_queue_receive K queue msg_ok msg_size timeout_ms k =
    (if queue = NULL \<or> \<not> msg_ok then ((code_of OSA_ERR_INVALID_PARAM, None), k)
     else case xQueueReceive K queue (esp_ticks K timeout_ms) k of
       (None, k') \<Rightarrow> ((if timeout_ms = 0 then code_of OSA_ERR_TIMEOUT else code_of OSA_ERR_GENERIC, None), k')
     | (Some m, k') \<Rightarrow> ((code_of OSA_OK, Some m), k'))"

definition esp_queue_peek ::
  "'k queue_kernel \<Rightarrow> ptr \<Rightarrow> bool \<Rightarrow> nat \<Rightarrow> 'k \<Rightarrow> (int \<times> byte list option) \<times> 'k" where
  "esp_queue_peek K queue msg_ok msg_size k =
    (if queue = NULL \<or> \<not> msg_ok then ((code_of OSA_ERR_INVALID_PARAM, None), k)
     else case xQueuePeek K queue 0 k of
       (None, k') \<Rightarrow> ((code_of OSA_ERR_GENERIC, None), k')
     | (Some m, k') \<Rightarrow> ((code_of OSA_OK, Some m), k'))"

definition esp_queue_get_count :: "'k queue_kernel \<Rightarrow> ptr \<Rightarrow> bool \<Rightarrow> 'k \<Rightarrow> int \<times> int option" where
  "esp_queue_get_count K queue count_ok k =
    (if queue = NULL \<or> \<not> count_ok then (code_of OSA_ERR_INVALID_PARAM, None)
     else (code_of OSA_OK, Some (sint (uxQueueMessagesWaiting K queue k))))"

definition esp_queue_get_space :: "'k queue_kernel \<Rightarrow> ptr \<Rightarrow> bool \<Rightarrow> 'k \<Rightarrow> int \<times> int option" where
  "esp_queue_get_space K queue space_ok k =
    (if queue = NULL \<or> \<not> space_ok then (code_of OSA_ERR_INVALID_PARAM, None)
     else (code_of OSA_OK, Some (sint (uxQueueSpacesAvailable K queue k))))"

definition esp_queue_flush :: "'k queue_kernel \<Rightarrow> ptr \<Rightarrow> 'k \<Rightarrow> int \<times> 'k" where
  "esp_queue_flush K queue k =
    (if queue = NULL then (code_of OSA_ERR_INVALID_PARAM, k) else (code_of OSA_OK, xQueueReset K queue k))"

section \<open>The table keeps the contract\<close>

text \<open>The handle a creation would get for slot \<open>i\<close>; NULL when the arguments are refused.\<close>

definition queue_given ::
  "'k queue_kernel \<Rightarrow> queue_config \<Rightarrow> nat \<Rightarrow> int \<Rightarrow> queue_table \<times> 'k \<Rightarrow> nat \<Rightarrow> ptr" where
  "queue_given K cfg msg_size max_msgs s i =
    (if msg_size = 0 \<or> max_msgs = 0 then NULL
     else fst (xQueueCreateStatic K (of_int (limit_max_msgs cfg max_msgs))
            (of_nat (limit_msg_size cfg msg_size)) i (snd s)))"

interpretation queues: slot_array OSA_MAX_QUEUES "\<lambda>s. queue_pool (fst s)" "\<lambda>s. queue_pool_init (fst s)"
  zero_queue_slot
  "\<lambda>h x. x\<lparr>slot_handle := h, slot_used := True, slot_msg_size := limit_msg_size cfg msg_size\<rparr>"
  "\<lambda>x. x\<lparr>slot_used := False, slot_handle := NULL\<rparr>"
  "queue_given K cfg msg_size max_msgs" "esp_queue_create K cfg name msg_size max_msgs"
  "\<lambda>s h. snd (esp_queue_destroy K h s)"
  for K :: "'k queue_kernel" and cfg name msg_size max_msgs
  by unfold_locales
    (auto simp: esp_queue_create_def esp_queue_destroy_def find_free_queue_slot_def queue_given_def
      queue_pool_init_once_def zero_queue_slot_def Let_def split: prod.splits option.splits)

section \<open>Properties\<close>

lemma limits:
  assumes "0 < max_msgs" and "0 < OSA_QUEUE_MAX_SIZE cfg" and "0 < msg_size" and "0 < OSA_QUEUE_MAX_MSG_SIZE cfg"
  shows "0 < limit_max_msgs cfg max_msgs" "limit_max_msgs cfg max_msgs \<le> OSA_QUEUE_MAX_SIZE cfg"
    "0 < limit_msg_size cfg msg_size" "limit_msg_size cfg msg_size \<le> OSA_QUEUE_MAX_MSG_SIZE cfg"
  using assms by (auto simp: limit_max_msgs_def limit_msg_size_def)

text \<open>What reaches a kernel that logs the sizes it is asked for.\<close>

lemma create_request:
  assumes "\<forall>n m i k. snd (xQueueCreateStatic K n m i k) = (n, m) # k"
    and "\<forall>h nm k. vQueueAddToRegistry K h nm k = k"
    and "esp_queue_create K cfg name msg_size max_msgs (tab, []) = (h, tab', reqs)"
  shows "reqs = [] \<and> h = NULL \<or>
    msg_size \<noteq> 0 \<and> max_msgs \<noteq> 0 \<and>
    reqs = [(of_int (limit_max_msgs cfg max_msgs), of_nat (limit_msg_size cfg msg_size))]"
proof -
  have "k' = (n, m) # k" if "xQueueCreateStatic K n m i k = (h', k')" for n m i k h' k'
    using assms(1) that by (metis snd_conv)
  then show ?thesis
    using assms(2,3)
    by (auto simp: esp_queue_create_def Let_def split: if_splits prod.splits option.splits)
qed

text \<open>
  What the creation of a queue on the ESP32 asks of the kernel, seen by a kernel that logs the
  length and item size it is asked for: with a positive number of messages the request is positive
  in both and fits the static storage of a slot. A negative number of messages passes the check for
  0 and the limit, and the kernel is asked for more than \<open>2 ^ 31\<close> messages.
\<close>

theorem esp_queue_create_bounds:
  assumes "\<forall>n m i k. snd (xQueueCreateStatic K n m i k) = (n, m) # k"
    and "\<forall>h nm k. vQueueAddToRegistry K h nm k = k"
    and "0 < OSA_QUEUE_MAX_SIZE cfg" and "OSA_QUEUE_MAX_SIZE cfg < 2 ^ 31"
    and "0 < OSA_QUEUE_MAX_MSG_SIZE cfg" and "OSA_QUEUE_MAX_MSG_SIZE cfg < 2 ^ 32"
    and "esp_queue_create K cfg name msg_size max_msgs (tab, []) = (h, tab', reqs)"
  shows "(0 < max_msgs \<longrightarrow> (\<forall>(n, m) \<in> set reqs. 0 < n \<and> 0 < m \<and>
      unat n * unat m \<le> nat (OSA_QUEUE_MAX_SIZE cfg) * OSA_QUEUE_MAX_MSG_SIZE cfg)) \<and>
    (max_msgs < 0 \<and> c_int max_msgs \<and> h \<noteq> NULL \<longrightarrow> (\<exists>m. reqs = [(of_int max_msgs, m)]) \<and>
      2 ^ 31 \<le> uint (of_int max_msgs :: uint32))"
proof (intro conjI impI)
  assume pos: "0 < max_msgs"
  show "\<forall>(n, m) \<in> set reqs. 0 < n \<and> 0 < m \<and>
      unat n * unat m \<le> nat (OSA_QUEUE_MAX_SIZE cfg) * OSA_QUEUE_MAX_MSG_SIZE cfg"
  proof (cases "reqs = []")
    case False
    let ?n = "limit_max_msgs cfg max_msgs" and ?m = "limit_msg_size cfg msg_size"
    have req: "reqs = [(of_int ?n, of_nat ?m)]" and "0 < msg_size"
      using create_request [OF assms(1,2,7)] False by auto
    note lim = limits [OF pos assms(3) this(2) assms(5)]
    have "uint (of_int ?n :: uint32) = ?n"
      using lim(1,2) assms(4) by (simp add: uint_word_of_int)
    then have n: "unat (of_int ?n :: uint32) = nat ?n"
      by (metis unat_eq_nat_uint)
    have m: "unat (of_nat ?m :: uint32) = ?m"
      using lim(4) assms(6) by (simp add: unat_of_nat)
    have "nat ?n * ?m \<le> nat (OSA_QUEUE_MAX_SIZE cfg) * OSA_QUEUE_MAX_MSG_SIZE cfg"
      using lim by (intro mult_mono) auto
    then show ?thesis
      using lim(1,3) by (simp add: req n m word_less_nat_alt del: of_nat_0_less_iff)
  qed simp
next
  assume neg: "max_msgs < 0 \<and> c_int max_msgs \<and> h \<noteq> NULL"
  then have "limit_max_msgs cfg max_msgs = max_msgs"
    using assms(3) by (simp add: limit_max_msgs_def)
  then show "\<exists>m. reqs = [(of_int max_msgs, m)]"
    using create_request [OF assms(1,2,7)] neg by auto
  have "max_msgs mod 2 ^ 32 = (max_msgs + 2 ^ 32) mod 2 ^ 32"
    by simp
  also have "\<dots> = max_msgs + 2 ^ 32"
    using neg by (intro mod_pos_pos_trivial) (auto simp: c_int_def)
  finally show "2 ^ 31 \<le> uint (of_int max_msgs :: uint32)"
    using neg by (simp add: uint_word_of_int c_int_def)
qed

text \<open>A kernel that logs its requests.\<close>

definition log_kernel :: "(uint32 \<times> uint32) list queue_kernel" where
  "log_kernel = \<lparr>xQueueCreateStatic = (\<lambda>n m i k. (Suc i, (n, m) # k)), vQueueAddToRegistry = (\<lambda>_ _ k. k),
     vQueueDelete = (\<lambda>_ k. k), xQueueSend = (\<lambda>_ _ _ k. (True, k)), xQueueSendFromISR = (\<lambda>_ _ k. (True, False, k)),
     xQueueReceive = (\<lambda>_ _ k. (None, k)), xQueuePeek = (\<lambda>_ _ k. (None, k)), uxQueueMessagesWaiting = (\<lambda>_ _. 0),
     uxQueueSpacesAvailable = (\<lambda>_ _. 0), xQueueReset = (\<lambda>_ k. k), q_xPortInIsrContext = (\<lambda>_. False),
     q_portYIELD_FROM_ISR = (\<lambda>_ k. k), q_pdMS_TO_TICKS = (\<lambda>ms. ms), q_portMAX_DELAY = - 1\<rparr>"

definition fresh_queues :: queue_table where
  "fresh_queues = \<lparr>queue_pool = replicate OSA_MAX_QUEUES zero_queue_slot, queue_pool_init = False\<rparr>"

theorem esp_queue_create_bounds_witness:
  "\<exists>tab m. esp_queue_create log_kernel \<lparr>OSA_QUEUE_MAX_SIZE = 20, OSA_QUEUE_MAX_MSG_SIZE = 64, registry_enabled = False\<rparr>
     None 16 (-3) (fresh_queues, []) = (1, tab, [(of_int (-3), m)]) \<and> 2 ^ 31 \<le> uint (of_int (-3) :: uint32)"
proof -
  let ?cfg = "\<lparr>OSA_QUEUE_MAX_SIZE = 20, OSA_QUEUE_MAX_MSG_SIZE = 64, registry_enabled = False\<rparr>"
  let ?c = "esp_queue_create log_kernel ?cfg None 16 (-3) (fresh_queues, [])"
  have "fst ?c = 1"
    by code_simp
  then obtain tab reqs where c: "?c = (1, tab, reqs)"
    by (metis prod.collapse)
  have "\<forall>n m i k. snd (xQueueCreateStatic log_kernel n m i k) = (n, m) # k"
    "\<forall>h nm k. vQueueAddToRegistry log_kernel h nm k = k" "0 < OSA_QUEUE_MAX_SIZE ?cfg"
    "OSA_QUEUE_MAX_SIZE ?cfg < 2 ^ 31" "0 < OSA_QUEUE_MAX_MSG_SIZE ?cfg" "OSA_QUEUE_MAX_MSG_SIZE ?cfg < 2 ^ 32"
    by (simp_all add: log_kernel_def)
  from conjunct2 [OF esp_queue_create_bounds [OF this c]] c show ?thesis
    by (auto simp: c_int_def)
qed

end
