(* ===== verification/Esp_Sync.thy ===== *)
theory Esp_Sync
  imports Esp_Pool
begin

text \<open>
  Mutexes and semaphores of the ESP32 port, \<^verbatim>\<open>platform/esp32/osa_sync.c\<close>: every operation, over the
  semaphore calls of FreeRTOS as the record \<open>sem_kernel\<close>. The macro \<^verbatim>\<open>OSA_WAIT_FOREVER\<close>, which no file of
  the repository defines, is an argument.

  Both tables are instances of \<open>handle_table\<close>.
\<close>

section \<open>The kernel\<close>

text \<open>\<open>xSemaphoreGiveFromISR\<close> returns its result and whether a task of higher priority woke.\<close>

record 'k sem_kernel =
  xSemaphoreCreateMutexStatic :: "nat \<Rightarrow> 'k \<Rightarrow> ptr \<times> 'k"
  xSemaphoreCreateBinaryStatic :: "nat \<Rightarrow> 'k \<Rightarrow> ptr \<times> 'k"
  xSemaphoreCreateCountingStatic :: "uint32 \<Rightarrow> uint32 \<Rightarrow> nat \<Rightarrow> 'k \<Rightarrow> ptr \<times> 'k"
  vSemaphoreDelete :: "ptr \<Rightarrow> 'k \<Rightarrow> 'k"
  xSemaphoreTake :: "ptr \<Rightarrow> uint32 \<Rightarrow> 'k \<Rightarrow> bool \<times> 'k"
  xSemaphoreGive :: "ptr \<Rightarrow> 'k \<Rightarrow> bool \<times> 'k"
  xSemaphoreGiveFromISR :: "ptr \<Rightarrow> 'k \<Rightarrow> bool \<times> bool \<times> 'k"
  uxSemaphoreGetCount :: "ptr \<Rightarrow> 'k \<Rightarrow> uint32"
  xPortInIsrContext :: "'k \<Rightarrow> bool"
  portYIELD_FROM_ISR :: "bool \<Rightarrow> 'k \<Rightarrow> 'k"
  pdMS_TO_TICKS :: "uint32 \<Rightarrow> uint32"
  portMAX_DELAY :: uint32

section \<open>Mutexes\<close>

definition OSA_MAX_MUTEXES :: nat where "OSA_MAX_MUTEXES = 16"

record mutex_table =
  mutex_pool :: "esp_slot list"
  mutex_pool_init :: bool

definition mutex_pool_init_once :: "mutex_table \<Rightarrow> mutex_table" where
  "mutex_pool_init_once tab =
    (if \<not> mutex_pool_init tab
     then tab\<lparr>mutex_pool := replicate OSA_MAX_MUTEXES \<lparr>slot_handle = NULL, slot_used = False\<rparr>,
              mutex_pool_init := True\<rparr>
     else tab)"

definition find_free_mutex_slot :: "mutex_table \<Rightarrow> int" where
  "find_free_mutex_slot tab = find_free_slot OSA_MAX_MUTEXES (mutex_pool tab)"

definition esp_mutex_create :: "'k sem_kernel \<Rightarrow> mutex_table \<times> 'k \<Rightarrow> ptr \<times> mutex_table \<times> 'k" where
  "esp_mutex_create K s =
    (let tab = mutex_pool_init_once (fst s); slot = find_free_mutex_slot tab
     in if slot < 0 then (NULL, tab, snd s)
        else case xSemaphoreCreateMutexStatic K (nat slot) (snd s) of
          (handle, k) \<Rightarrow>
            if handle = NULL then (NULL, tab, k)
            else (handle,
              tab\<lparr>mutex_pool := (mutex_pool tab)[nat slot :=
                (mutex_pool tab ! nat slot)\<lparr>slot_handle := handle, slot_used := True\<rparr>]\<rparr>, k))"

definition esp_mutex_destroy :: "'k sem_kernel \<Rightarrow> ptr \<Rightarrow> mutex_table \<times> 'k \<Rightarrow> int \<times> mutex_table \<times> 'k" where
  "esp_mutex_destroy K mutex s =
    (if mutex = NULL then (code_of OSA_ERR_INVALID_PARAM, s)
     else (code_of OSA_OK,
       (fst s)\<lparr>mutex_pool := free_slot_of OSA_MAX_MUTEXES
          (\<lambda>x. x\<lparr>slot_used := False, slot_handle := NULL\<rparr>) mutex (mutex_pool (fst s))\<rparr>,
       vSemaphoreDelete K mutex (snd s)))"

definition esp_mutex_lock :: "'k sem_kernel \<Rightarrow> ptr \<Rightarrow> 'k \<Rightarrow> int \<times> 'k" where
  "esp_mutex_lock K mutex k =
    (if mutex = NULL then (code_of OSA_ERR_INVALID_PARAM, k)
     else case xSemaphoreTake K mutex (portMAX_DELAY K) k of
       (ok, k') \<Rightarrow> (if \<not> ok then code_of OSA_ERR_MUTEX_LOCK else code_of OSA_OK, k'))"

definition esp_mutex_unlock :: "'k sem_kernel \<Rightarrow> ptr \<Rightarrow> 'k \<Rightarrow> int \<times> 'k" where
  "esp_mutex_unlock K mutex k =
    (if mutex = NULL then (code_of OSA_ERR_INVALID_PARAM, k)
     else case xSemaphoreGive K mutex k of
       (ok, k') \<Rightarrow> (if \<not> ok then code_of OSA_ERR_MUTEX_LOCK else code_of OSA_OK, k'))"

definition esp_mutex_trylock :: "'k sem_kernel \<Rightarrow> ptr \<Rightarrow> 'k \<Rightarrow> int \<times> 'k" where
  "esp_mutex_trylock K mutex k =
    (if mutex = NULL then (code_of OSA_ERR_INVALID_PARAM, k)
     else case xSemaphoreTake K mutex 0 k of
       (ok, k') \<Rightarrow> (if \<not> ok then code_of OSA_ERR_TIMEOUT else code_of OSA_OK, k'))"

definition esp_mutex_timedlock :: "'k sem_kernel \<Rightarrow> uint32 \<Rightarrow> ptr \<Rightarrow> uint32 \<Rightarrow> 'k \<Rightarrow> int \<times> 'k" where
  "esp_mutex_timedlock K wait_forever mutex timeout_ms k =
    (if mutex = NULL then (code_of OSA_ERR_INVALID_PARAM, k)
     else
       let ticks = (if timeout_ms = wait_forever then portMAX_DELAY K else pdMS_TO_TICKS K timeout_ms)
       in case xSemaphoreTake K mutex ticks k of
            (ok, k') \<Rightarrow> (if \<not> ok then code_of OSA_ERR_TIMEOUT else code_of OSA_OK, k'))"

section \<open>Semaphores\<close>

definition OSA_MAX_SEMAPHORES :: nat where "OSA_MAX_SEMAPHORES = 16"

record sem_table =
  sem_pool :: "esp_slot list"
  sem_pool_init :: bool

definition sem_pool_init_once :: "sem_table \<Rightarrow> sem_table" where
  "sem_pool_init_once tab =
    (if \<not> sem_pool_init tab
     then tab\<lparr>sem_pool := replicate OSA_MAX_SEMAPHORES \<lparr>slot_handle = NULL, slot_used = False\<rparr>,
              sem_pool_init := True\<rparr>
     else tab)"

definition find_free_sem_slot :: "sem_table \<Rightarrow> int" where
  "find_free_sem_slot tab = find_free_slot OSA_MAX_SEMAPHORES (sem_pool tab)"

text \<open>The kernel object for slot \<open>i\<close>: binary for a maximum of 1, counting otherwise.\<close>

definition sem_kernel_create :: "'k sem_kernel \<Rightarrow> int \<Rightarrow> int \<Rightarrow> nat \<Rightarrow> 'k \<Rightarrow> ptr \<times> 'k" where
  "sem_kernel_create K init_count max_count i k =
    (if max_count = 1
     then case xSemaphoreCreateBinaryStatic K i k of
       (handle, k1) \<Rightarrow> (handle, if init_count > 0 then snd (xSemaphoreGive K handle k1) else k1)
     else xSemaphoreCreateCountingStatic K (of_int max_count) (of_int init_count) i k)"

definition esp_sem_create ::
  "'k sem_kernel \<Rightarrow> int \<Rightarrow> int \<Rightarrow> sem_table \<times> 'k \<Rightarrow> ptr \<times> sem_table \<times> 'k" where
  "esp_sem_create K init_count max_count s =
    (let tab = sem_pool_init_once (fst s); slot = find_free_sem_slot tab
     in if slot < 0 then (NULL, tab, snd s)
        else case sem_kernel_create K init_count max_count (nat slot) (snd s) of
          (handle, k) \<Rightarrow>
            if handle = NULL then (NULL, tab, k)
            else (handle,
              tab\<lparr>sem_pool := (sem_pool tab)[nat slot :=
                (sem_pool tab ! nat slot)\<lparr>slot_handle := handle, slot_used := True\<rparr>]\<rparr>, k))"

definition esp_sem_destroy :: "'k sem_kernel \<Rightarrow> ptr \<Rightarrow> sem_table \<times> 'k \<Rightarrow> int \<times> sem_table \<times> 'k" where
  "esp_sem_destroy K sem s =
    (if sem = NULL then (code_of OSA_ERR_INVALID_PARAM, s)
     else (code_of OSA_OK,
       (fst s)\<lparr>sem_pool := free_slot_of OSA_MAX_SEMAPHORES
          (\<lambda>x. x\<lparr>slot_used := False, slot_handle := NULL\<rparr>) sem (sem_pool (fst s))\<rparr>,
       vSemaphoreDelete K sem (snd s)))"

definition esp_sem_wait :: "'k sem_kernel \<Rightarrow> ptr \<Rightarrow> int \<Rightarrow> 'k \<Rightarrow> int \<times> 'k" where
  "esp_sem_wait K sem timeout_ms k =
    (if sem = NULL then (code_of OSA_ERR_INVALID_PARAM, k)
     else
       let ticks = (if timeout_ms < 0 then portMAX_DELAY K else pdMS_TO_TICKS K (of_int timeout_ms))
       in case xSemaphoreTake K sem ticks k of
            (ok, k') \<Rightarrow>
              (if \<not> ok then (if timeout_ms = 0 then code_of OSA_ERR_TIMEOUT else code_of OSA_ERR_GENERIC)
               else code_of OSA_OK, k'))"

definition esp_sem_post :: "'k sem_kernel \<Rightarrow> ptr \<Rightarrow> 'k \<Rightarrow> int \<times> 'k" where
  "esp_sem_post K sem k =
    (if sem = NULL then (code_of OSA_ERR_INVALID_PARAM, k)
     else
       case (if xPortInIsrContext K k
             then case xSemaphoreGiveFromISR K sem k of (ok, woken, k1) \<Rightarrow> (ok, portYIELD_FROM_ISR K woken k1)
             else xSemaphoreGive K sem k) of
         (ok, k') \<Rightarrow> (if \<not> ok then code_of OSA_ERR_GENERIC else code_of OSA_OK, k'))"

text \<open>The count is stored through \<^verbatim>\<open>count\<close>; \<open>None\<close> where nothing is stored.\<close>

definition esp_sem_get_count :: "'k sem_kernel \<Rightarrow> ptr \<Rightarrow> bool \<Rightarrow> 'k \<Rightarrow> int \<times> int option" where
  "esp_sem_get_count K sem count_ok k =
    (if sem = NULL \<or> \<not> count_ok then (code_of OSA_ERR_INVALID_PARAM, None)
     else (code_of OSA_OK, Some (sint (uxSemaphoreGetCount K sem k))))"

section \<open>The tables keep the contract\<close>

interpretation mutexes: slot_array OSA_MAX_MUTEXES "\<lambda>s. mutex_pool (fst s)" "\<lambda>s. mutex_pool_init (fst s)"
  "\<lparr>slot_handle = NULL, slot_used = False\<rparr>" "\<lambda>h x. x\<lparr>slot_handle := h, slot_used := True\<rparr>"
  "\<lambda>x. x\<lparr>slot_used := False, slot_handle := NULL\<rparr>"
  "\<lambda>s i. fst (xSemaphoreCreateMutexStatic K i (snd s))" "esp_mutex_create K"
  "\<lambda>s h. snd (esp_mutex_destroy K h s)"
  for K :: "'k sem_kernel"
  by unfold_locales
    (auto simp: esp_mutex_create_def esp_mutex_destroy_def find_free_mutex_slot_def
      mutex_pool_init_once_def Let_def split: prod.splits)

interpretation sems: slot_array OSA_MAX_SEMAPHORES "\<lambda>s. sem_pool (fst s)" "\<lambda>s. sem_pool_init (fst s)"
  "\<lparr>slot_handle = NULL, slot_used = False\<rparr>" "\<lambda>h x. x\<lparr>slot_handle := h, slot_used := True\<rparr>"
  "\<lambda>x. x\<lparr>slot_used := False, slot_handle := NULL\<rparr>"
  "\<lambda>s i. fst (sem_kernel_create K init_count max_count i (snd s))" "esp_sem_create K init_count max_count"
  "\<lambda>s h. snd (esp_sem_destroy K h s)"
  for K :: "'k sem_kernel" and init_count max_count
  by unfold_locales
    (auto simp: esp_sem_create_def esp_sem_destroy_def find_free_sem_slot_def
      sem_pool_init_once_def Let_def split: prod.splits)

section \<open>Properties\<close>

definition fresh_mutexes :: mutex_table where
  "fresh_mutexes = \<lparr>mutex_pool = replicate OSA_MAX_MUTEXES \<lparr>slot_handle = NULL, slot_used = False\<rparr>,
     mutex_pool_init = False\<rparr>"

abbreviation live_mutexes :: "mutex_table \<times> 'k \<Rightarrow> nat \<Rightarrow> ptr option" where
  "live_mutexes s \<equiv> slot_live (mutex_pool (fst s))"

text \<open>
  C36. The table of mutexes of the ESP32 port, after any sequence of creations and destructions, on a
  kernel that gives each static buffer its own handle: no two slots hold the same handle; a creation
  returns NULL exactly when all 16 slots are in use, and otherwise a handle that is not in use and
  takes one free slot; and destroying this handle gives the slot back and no other.
\<close>

theorem esp_mutex_table:
  fixes k :: 'k
  assumes "inj f" and "\<forall>i. f i \<noteq> NULL" and "\<forall>i k. fst (xSemaphoreCreateMutexStatic K i k) = f i"
    and "Some NULL \<notin> set ops"
  defines "s \<equiv> mutexes.table_run K ops (fresh_mutexes, k)"
  shows "(\<forall>i j h. live_mutexes s i = Some h \<and> live_mutexes s j = Some h \<longrightarrow> i = j) \<and>
    (case esp_mutex_create K s of (h, s') \<Rightarrow>
       (h = NULL \<longleftrightarrow> (\<forall>i < 16. live_mutexes s i \<noteq> None)) \<and>
       (h \<noteq> NULL \<longrightarrow> (\<forall>i. live_mutexes s i \<noteq> Some h) \<and>
         (\<exists>i < 16. live_mutexes s i = None \<and> live_mutexes s' = (live_mutexes s)(i \<mapsto> h)) \<and>
         live_mutexes (snd (esp_mutex_destroy K h s')) = live_mutexes s))"
proof -
  have static: "mutexes.static_handles TYPE('k) K f"
    unfolding mutexes.static_handles_def using assms(1-3) by simp
  have "mutexes.table_ok f (fresh_mutexes, k)"
    by (simp add: mutexes.table_ok_def mutexes.table_inv_def mutexes.table_live_def fresh_mutexes_def)
  note h = mutexes.table_history [OF static this assms(4), folded s_def,
      unfolded mutexes.table_live_def OSA_MAX_MUTEXES_def]
  obtain p s' where c: "esp_mutex_create K s = (p, s')" by (cases "esp_mutex_create K s")
  then have "fst (esp_mutex_create K s) = p" "snd (esp_mutex_create K s) = s'"
    by simp_all
  note h = h [unfolded this]
  from h(1) have "\<forall>i j h. live_mutexes s i = Some h \<and> live_mutexes s j = Some h \<longrightarrow> i = j" by blast
  with h(2-5) show ?thesis
    unfolding c prod.case by blast
qed

text \<open>A kernel whose handles are the addresses of the buffers and that does nothing else.\<close>

definition sample_kernel :: "unit sem_kernel" where
  "sample_kernel = \<lparr>xSemaphoreCreateMutexStatic = (\<lambda>i k. (Suc i, k)),
     xSemaphoreCreateBinaryStatic = (\<lambda>i k. (17 + i, k)),
     xSemaphoreCreateCountingStatic = (\<lambda>_ _ i k. (17 + i, k)), vSemaphoreDelete = (\<lambda>_ k. k),
     xSemaphoreTake = (\<lambda>_ _ k. (True, k)), xSemaphoreGive = (\<lambda>_ k. (True, k)),
     xSemaphoreGiveFromISR = (\<lambda>_ k. (True, False, k)), uxSemaphoreGetCount = (\<lambda>_ _. 0),
     xPortInIsrContext = (\<lambda>_. False), portYIELD_FROM_ISR = (\<lambda>_ k. k), pdMS_TO_TICKS = (\<lambda>ms. ms),
     portMAX_DELAY = - 1\<rparr>"

theorem esp_mutex_table_witness:
  "fst (esp_mutex_create sample_kernel (mutexes.table_run sample_kernel [None, Some 1] (fresh_mutexes, ()))) \<noteq> NULL"
proof -
  let ?s = "mutexes.table_run sample_kernel [None, Some 1] (fresh_mutexes, ())"
  have "live_mutexes ?s 5 = None"
    unfolding mutexes.table_run.simps
    by (simp add: sample_kernel_def fresh_mutexes_def esp_mutex_create_def
        esp_mutex_destroy_def mutex_pool_init_once_def find_free_mutex_slot_def find_free_slot_def
        free_slot_of_def slot_live_def OSA_MAX_MUTEXES_def numeral_eq_Suc Let_def)
  then have "\<not> (\<forall>i < 16. live_mutexes ?s i \<noteq> None)"
    by (metis (mono_tags) numeral_less_iff semiring_norm(76,78,81))
  moreover have "inj Suc" "\<forall>i. Suc i \<noteq> NULL" "\<forall>i k. fst (xSemaphoreCreateMutexStatic sample_kernel i k) = Suc i"
    "Some NULL \<notin> set [None, Some 1]"
    by (simp_all add: sample_kernel_def)
  note conjunct2 [OF esp_mutex_table [OF this, of "()"]]
  ultimately show ?thesis
    unfolding case_prod_beta by blast
qed

end
