(* ===== verification/Osa_Portability.thy ===== *)
theory Osa_Portability
  imports Osa_Queue Osa_Sync Esp_Queue Esp_Sync
begin

text \<open>
  The two platforms side by side: \<^verbatim>\<open>platform/osa_queue.h\<close> and \<^verbatim>\<open>platform/osa_sync.h\<close> promise the same queue
  and the same semaphore on Linux and on the ESP32. The ESP32 port only forwards to FreeRTOS; what it
  relies on there is stated as the predicates \<open>freertos_queue\<close> and \<open>freertos_sem\<close>, the documented
  behaviour of a queue and of a counting semaphore when a task calls without waiting. On such a
  kernel the same sequence of operations has the same outcome on both platforms.
\<close>

section \<open>Queues\<close>

definition freertos_queue :: "'k queue_kernel \<Rightarrow> ptr \<Rightarrow> ('k \<Rightarrow> byte list list) \<Rightarrow> nat \<Rightarrow> bool" where
  "freertos_queue K h contents cap \<longleftrightarrow>
    q_pdMS_TO_TICKS K 0 = 0 \<and>
    (\<forall>k. \<not> q_xPortInIsrContext K k \<and> length (contents k) \<le> cap) \<and>
    (\<forall>k m. fst (xQueueSend K h m 0 k) \<longleftrightarrow> length (contents k) < cap) \<and>
    (\<forall>k m. contents (snd (xQueueSend K h m 0 k)) =
      (if length (contents k) < cap then contents k @ [m] else contents k)) \<and>
    (\<forall>k. fst (xQueueReceive K h 0 k) = (case contents k of [] \<Rightarrow> None | m # _ \<Rightarrow> Some m)) \<and>
    (\<forall>k. contents (snd (xQueueReceive K h 0 k)) = tl (contents k))"

definition esp_try_send :: "'k queue_kernel \<Rightarrow> ptr \<Rightarrow> 'k \<Rightarrow> byte list \<Rightarrow> int \<times> 'k" where
  "esp_try_send K h k msg = esp_queue_send K h (Some msg) (length msg) 0 k"

definition esp_try_receive :: "'k queue_kernel \<Rightarrow> ptr \<Rightarrow> nat \<Rightarrow> 'k \<Rightarrow> byte list option \<times> 'k" where
  "esp_try_receive K h msg_size k =
    (case esp_queue_receive K h True msg_size 0 k of ((r, m), k') \<Rightarrow> (m, k'))"

lemma esp_fifo:
  assumes "freertos_queue K h contents cap" and "h \<noteq> NULL"
  shows "bounded_fifo (\<lambda>_. True) contents (\<lambda>_. cap) (\<lambda>_ _. True) (esp_try_send K h) (esp_try_receive K h msg_size)"
proof -
  have "q_pdMS_TO_TICKS K 0 = 0" "\<And>k. \<not> q_xPortInIsrContext K k" "\<And>k. length (contents k) \<le> cap"
    "\<And>k m. fst (xQueueSend K h m 0 k) \<longleftrightarrow> length (contents k) < cap"
    "\<And>k m. contents (snd (xQueueSend K h m 0 k)) = (if length (contents k) < cap then contents k @ [m] else contents k)"
    "\<And>k. fst (xQueueReceive K h 0 k) = (case contents k of [] \<Rightarrow> None | m # _ \<Rightarrow> Some m)"
    "\<And>k. contents (snd (xQueueReceive K h 0 k)) = tl (contents k)"
    using assms(1) by (auto simp: freertos_queue_def)
  note laws = this
  have send: "esp_try_send K h k m =
      (if fst (xQueueSend K h m 0 k) then 0 else code_of OSA_ERR_QUEUE_FULL, snd (xQueueSend K h m 0 k))" for k m
    using laws(1,2) assms(2) by (simp add: esp_try_send_def esp_queue_send_def esp_ticks_def split: prod.split)
  have recv: "esp_try_receive K h msg_size k = xQueueReceive K h 0 k" for k
    using laws(1) assms(2)
    by (simp add: esp_try_receive_def esp_queue_receive_def esp_ticks_def split: prod.split option.split)
  show ?thesis
    by unfold_locales (simp_all add: send recv laws)
qed

text \<open>
  C33. Queues are portable: a Linux queue and an ESP32 queue with equal contents and capacity accept the
  same messages and deliver the same messages in the same order under every sequence of
  non-blocking sends (of messages of the queue's size) and receives, on a kernel whose queues behave
  as documented.
\<close>

theorem queue_portable:
  assumes "freertos_queue K h contents cap" and "h \<noteq> NULL"
    and "open_inv q" and "queue_contents q = contents k" and "queue_cap q = cap"
    and "fifo_ok fits (try_send now) (try_receive now) ops q"
    and "fifo_run (try_send now) (try_receive now) ops q = (accepted, delivered, q')"
    and "fifo_run (esp_try_send K h) (esp_try_receive K h msg_size) ops k = (accepted', delivered', k')"
  shows "accepted = accepted' \<and> delivered = delivered' \<and> queue_contents q' = contents k'"
proof -
  note esp = esp_fifo [OF assms(1,2), of msg_size]
  from fifo_equiv [OF ring.bounded_fifo_axioms esp assms(3) TrueI assms(4,5,6) fifo_ok_any assms(7,8)]
  show ?thesis .
qed

text \<open>A kernel with one queue of two messages, its state the contents.\<close>

definition list_kernel :: "byte list list queue_kernel" where
  "list_kernel = \<lparr>xQueueCreateStatic = (\<lambda>_ _ i k. (Suc i, k)), vQueueAddToRegistry = (\<lambda>_ _ k. k),
     vQueueDelete = (\<lambda>_ k. k), xQueueSend = (\<lambda>_ m _ k. if length (take 2 k) < 2 then (True, take 2 k @ [m]) else (False, k)),
     xQueueSendFromISR = (\<lambda>_ _ k. (False, False, k)),
     xQueueReceive = (\<lambda>_ _ k. case take 2 k of [] \<Rightarrow> (None, k) | m # k' \<Rightarrow> (Some m, k')), xQueuePeek = (\<lambda>_ _ k. (None, k)),
     uxQueueMessagesWaiting = (\<lambda>_ k. of_nat (length k)), uxQueueSpacesAvailable = (\<lambda>_ _. 0), xQueueReset = (\<lambda>_ k. []),
     q_xPortInIsrContext = (\<lambda>_. False), q_portYIELD_FROM_ISR = (\<lambda>_ k. k), q_pdMS_TO_TICKS = (\<lambda>ms. ms),
     q_portMAX_DELAY = - 1\<rparr>"

theorem queue_portable_witness:
  "\<exists>k' q'. fifo_run (esp_try_send list_kernel 1) (esp_try_receive list_kernel 1 1)
      [Put [1], Put [2], Put [3], Get, Put [4], Get] [] = ([[1], [2], [4]], [[1], [2]], k') \<and>
    queue_contents q' = take 2 k'"
proof -
  let ?q = "\<lparr>q_name = [], q_msg_size = 1, q_max_msgs = 2, q_buffer = [0, 0], q_head = 0, q_tail = 0,
       q_count = 0, q_closed = False\<rparr> :: osa_queue_impl"
    and ?now = "\<lparr>tv_sec = 0, tv_nsec = 0\<rparr> :: timespec"
  let ?ops = "[Put [1], Put [2], Put [3], Get, Put [4], Get] :: byte list fifo_op list"
  have K: "freertos_queue list_kernel 1 (take 2) 2"
    by (auto simp: freertos_queue_def list_kernel_def min_def split: list.split
        dest!: arg_cong [where f = length] split: if_splits)
  have "open_inv ?q" "queue_contents ?q = take 2 []" "queue_cap ?q = 2"
    by (simp_all add: open_inv_def queue_inv_def queue_contents_def queue_cap_def)
  note q = this
  have ok: "fifo_ok fits (try_send ?now) (try_receive ?now) ?ops ?q"
    by code_simp
  obtain q' where lin: "fifo_run (try_send ?now) (try_receive ?now) ?ops ?q = ([[1], [2], [4]], [[1], [2]], q')"
    by (simp add: try_send_def try_receive_def queue_send_cases queue_receive_cases send_finish_def
        recv_finish_def queue_full_def memcpy_to_def memcpy_from_def smod_nonneg c_consts)
  obtain a d k' where esp: "fifo_run (esp_try_send list_kernel 1) (esp_try_receive list_kernel 1 1) ?ops [] = (a, d, k')"
    by (cases "fifo_run (esp_try_send list_kernel 1) (esp_try_receive list_kernel 1 1) ?ops []")
  from queue_portable [OF K _ q ok lin esp] esp show ?thesis by auto
qed

section \<open>Semaphores\<close>

definition freertos_sem :: "'k sem_kernel \<Rightarrow> ptr \<Rightarrow> ('k \<Rightarrow> nat) \<Rightarrow> nat \<Rightarrow> bool" where
  "freertos_sem K h count max_count \<longleftrightarrow>
    pdMS_TO_TICKS K 0 = 0 \<and> (\<forall>k. \<not> xPortInIsrContext K k) \<and>
    (\<forall>k. fst (xSemaphoreTake K h 0 k) \<longleftrightarrow> 0 < count k) \<and>
    (\<forall>k. count (snd (xSemaphoreTake K h 0 k)) = count k - 1) \<and>
    (\<forall>k. fst (xSemaphoreGive K h k) \<longleftrightarrow> count k < max_count) \<and>
    (\<forall>k. count (snd (xSemaphoreGive K h k)) = (if count k < max_count then count k + 1 else count k))"

text \<open>A client that posts and polls: whether each poll got a token, and the final state.\<close>

datatype sem_op = Sem_post | Sem_poll

fun linux_sem_run :: "sem_op list \<Rightarrow> osa_sem_internal option \<Rightarrow> bool list \<times> osa_sem_internal option" where
  "linux_sem_run [] sem = ([], sem)"
| "linux_sem_run (Sem_post # ops) sem = linux_sem_run ops (osa_sem_post sem)"
| "linux_sem_run (Sem_poll # ops) sem =
    (case osa_sem_wait sem 0 (Inl 0) of
       Return (r, sem') \<Rightarrow> (case linux_sem_run ops sem' of (rs, sem'') \<Rightarrow> ((r = 0) # rs, sem''))
     | Park _ \<Rightarrow> ([], sem))"

fun esp_sem_run :: "'k sem_kernel \<Rightarrow> ptr \<Rightarrow> sem_op list \<Rightarrow> 'k \<Rightarrow> bool list \<times> 'k" where
  "esp_sem_run K h [] k = ([], k)"
| "esp_sem_run K h (Sem_post # ops) k = esp_sem_run K h ops (snd (esp_sem_post K h k))"
| "esp_sem_run K h (Sem_poll # ops) k =
    (case esp_sem_wait K h 0 k of (r, k') \<Rightarrow>
       (case esp_sem_run K h ops k' of (rs, k'') \<Rightarrow> ((r = 0) # rs, k'')))"

lemma esp_sem_ops:
  assumes "freertos_sem K h count max_count" and "h \<noteq> NULL"
  shows "esp_sem_post K h k = (if count k < max_count then 0 else code_of OSA_ERR_GENERIC, snd (xSemaphoreGive K h k))"
    "esp_sem_wait K h 0 k = (if 0 < count k then 0 else code_of OSA_ERR_TIMEOUT, snd (xSemaphoreTake K h 0 k))"
    "count (snd (xSemaphoreTake K h 0 k)) = count k - 1"
    "count (snd (xSemaphoreGive K h k)) = (if count k < max_count then count k + 1 else count k)"
  using assms
  by (simp_all add: freertos_sem_def esp_sem_post_def esp_sem_wait_def Let_def case_prod_beta)

lemma linux_poll: "osa_sem_wait (Some sem) 0 clock = Return (if 0 < sem_value sem then 0 else - EAGAIN, Some (sem_take sem))"
  by (cases sem) (simp add: osa_sem_wait_def sem_take_def)

text \<open>
  C34. Semaphores are portable up to their maximum: as long as the tokens there are and the posts to
  come stay within the maximum, a Linux and an ESP32 semaphore with the same number of tokens answer
  every sequence of posts and polls alike and end with the same number. At the maximum they part:
  the ESP32 refuses the post and keeps the number, Linux goes above it.
\<close>

theorem sem_portable:
  assumes "freertos_sem K h count max_count" and "h \<noteq> NULL" and "count k = sem_value sem"
    and "max_count \<le> SEM_VALUE_MAX"
    and "sem_value sem + length (filter (\<lambda>op. op = Sem_post) ops) \<le> max_count"
    and "linux_sem_run ops (Some sem) = (rs, sem1)" and "esp_sem_run K h ops k = (rs', k1)"
  shows "rs = rs' \<and> (\<exists>sem'. sem1 = Some sem' \<and> sem_value sem' = count k1) \<and>
    (sem_value sem = max_count \<and> max_count < SEM_VALUE_MAX \<longrightarrow>
      fst (esp_sem_post K h k) = code_of OSA_ERR_GENERIC \<and> count (snd (esp_sem_post K h k)) = max_count \<and>
      osa_sem_post (Some sem) = Some (sem\<lparr>sem_value := max_count + 1\<rparr>))"
proof -
  note esp = esp_sem_ops [OF assms(1,2)]
  have "rs = rs' \<and> (\<exists>sem'. sem1 = Some sem' \<and> sem_value sem' = count k1)"
    using assms(3,5,6,7)
  proof (induction ops arbitrary: sem k rs rs')
    case (Cons op ops)
    show ?case
    proof (cases op)
      case Sem_post
      have lt: "sem_value sem < max_count"
        using Cons.prems(2) Sem_post by simp
      let ?sem = "sem\<lparr>sem_value := sem_value sem + 1\<rparr>"
      have "osa_sem_post (Some sem) = Some ?sem"
        using lt assms(4) by (simp add: osa_sem_post_value)
      then show ?thesis
        using Cons.IH [of "snd (esp_sem_post K h k)" ?sem rs rs'] Cons.prems Sem_post lt esp(1,4) by simp
    next
      case Sem_poll
      obtain rs1 rs2 where run: "linux_sem_run ops (Some (sem_take sem)) = (rs1, sem1)"
        "esp_sem_run K h ops (snd (xSemaphoreTake K h 0 k)) = (rs2, k1)"
        and res: "rs = (0 < sem_value sem) # rs1" "rs' = (0 < sem_value sem) # rs2"
        using Cons.prems Sem_poll esp(2) [of k]
        by (auto simp: linux_poll EAGAIN_def split: prod.splits if_splits)
      have "sem_value (sem_take sem) + length (filter (\<lambda>op. op = Sem_post) ops) \<le> max_count"
        using Cons.prems(2) Sem_poll by (simp add: sem_take_def)
      with Cons.IH [OF _ _ run] Cons.prems(1) esp(3) res show ?thesis
        by (simp add: sem_take_def)
    qed
  qed auto
  moreover have "osa_sem_post (Some sem) = Some (sem\<lparr>sem_value := max_count + 1\<rparr>)"
    if "sem_value sem = max_count" "max_count < SEM_VALUE_MAX"
    using that by (simp add: osa_sem_post_def)
  ultimately show ?thesis
    using esp(1,4) assms(3) by simp
qed

definition count_kernel :: "nat sem_kernel" where
  "count_kernel = \<lparr>xSemaphoreCreateMutexStatic = (\<lambda>i k. (Suc i, k)),
     xSemaphoreCreateBinaryStatic = (\<lambda>i k. (17 + i, k)),
     xSemaphoreCreateCountingStatic = (\<lambda>_ _ i k. (17 + i, k)), vSemaphoreDelete = (\<lambda>_ k. k),
     xSemaphoreTake = (\<lambda>_ _ k. (0 < k, k - 1)), xSemaphoreGive = (\<lambda>_ k. if k < 2 then (True, k + 1) else (False, k)),
     xSemaphoreGiveFromISR = (\<lambda>_ k. (False, False, k)), uxSemaphoreGetCount = (\<lambda>_ k. of_nat k),
     xPortInIsrContext = (\<lambda>_. False), portYIELD_FROM_ISR = (\<lambda>_ k. k), pdMS_TO_TICKS = (\<lambda>ms. ms),
     portMAX_DELAY = - 1\<rparr>"

theorem sem_portable_witness:
  "fst (linux_sem_run [Sem_poll, Sem_post, Sem_poll] (Some \<lparr>sem_value = 0, sem_max_count = 2\<rparr>)) = [False, True] \<and>
   fst (esp_sem_run count_kernel 5 [Sem_poll, Sem_post, Sem_poll] 0) = [False, True]"
proof -
  let ?ops = "[Sem_poll, Sem_post, Sem_poll]" and ?sem = "\<lparr>sem_value = 0, sem_max_count = 2\<rparr> :: osa_sem_internal"
  have K: "freertos_sem count_kernel 5 (\<lambda>k. k) 2"
    by (auto simp: freertos_sem_def count_kernel_def)
  obtain sem1 where lin: "linux_sem_run ?ops (Some ?sem) = ([False, True], sem1)"
    by (simp add: osa_sem_wait_def osa_sem_post_def SEM_VALUE_MAX_def sem_take_def EAGAIN_def)
  obtain rs k1 where esp: "esp_sem_run count_kernel 5 ?ops 0 = (rs, k1)"
    by (cases "esp_sem_run count_kernel 5 ?ops 0")
  have "(5 :: ptr) \<noteq> NULL" "(0 :: nat) = sem_value ?sem" "2 \<le> SEM_VALUE_MAX"
    "sem_value ?sem + length (filter (\<lambda>op. op = Sem_post) ?ops) \<le> 2"
    by (simp_all add: SEM_VALUE_MAX_def)
  from sem_portable [OF K this lin esp] lin esp show ?thesis by simp
qed

end
