(* ===== verification/Esp_Timer.thy ===== *)
theory Esp_Timer
  imports Esp_Pool
begin

text \<open>
  Software timers of the ESP32 port, \<^verbatim>\<open>platform/esp32/osa_timer.c\<close>: every operation, over the timer calls
  of FreeRTOS as the record \<open>timer_kernel\<close>. Every timer runs the same kernel callback,
  \<^verbatim>\<open>timer_callback_wrapper\<close>, which finds the function to call in the table: its model returns the
  function and its argument, or \<open>None\<close> when it calls nothing.

  The lemmas: the table keeps the contract \<open>handle_table\<close>, and an expiry calls what its timer was
  created with and nothing after its destruction.
\<close>

section \<open>The kernel\<close>

record 'k timer_kernel =
  xTimerCreateStatic :: "string \<Rightarrow> uint32 \<Rightarrow> bool \<Rightarrow> nat \<Rightarrow> nat \<Rightarrow> 'k \<Rightarrow> ptr \<times> 'k"
  xTimerStart :: "ptr \<Rightarrow> uint32 \<Rightarrow> 'k \<Rightarrow> bool \<times> 'k"
  xTimerStartFromISR :: "ptr \<Rightarrow> 'k \<Rightarrow> bool \<times> bool \<times> 'k"
  xTimerStop :: "ptr \<Rightarrow> uint32 \<Rightarrow> 'k \<Rightarrow> bool \<times> 'k"
  xTimerStopFromISR :: "ptr \<Rightarrow> 'k \<Rightarrow> bool \<times> bool \<times> 'k"
  xTimerChangePeriod :: "ptr \<Rightarrow> uint32 \<Rightarrow> uint32 \<Rightarrow> 'k \<Rightarrow> bool \<times> 'k"
  xTimerReset :: "ptr \<Rightarrow> uint32 \<Rightarrow> 'k \<Rightarrow> bool \<times> 'k"
  xTimerIsTimerActive :: "ptr \<Rightarrow> 'k \<Rightarrow> bool"
  xTimerGetPeriod :: "ptr \<Rightarrow> 'k \<Rightarrow> uint32"
  t_xPortInIsrContext :: "'k \<Rightarrow> bool"
  t_portYIELD_FROM_ISR :: "bool \<Rightarrow> 'k \<Rightarrow> 'k"
  t_pdMS_TO_TICKS :: "uint32 \<Rightarrow> uint32"
  t_portMAX_DELAY :: uint32
  portTICK_PERIOD_MS :: uint32

section \<open>The table\<close>

definition OSA_MAX_TIMERS :: nat where "OSA_MAX_TIMERS = 8"

record timer_slot = esp_slot +
  slot_callback :: ptr
  slot_arg :: ptr

record timer_table =
  timer_pool :: "timer_slot list"
  timer_pool_init :: bool

definition zero_timer_slot :: timer_slot where
  "zero_timer_slot = \<lparr>slot_handle = NULL, slot_used = False, slot_callback = NULL, slot_arg = NULL\<rparr>"

definition timer_pool_init_once :: "timer_table \<Rightarrow> timer_table" where
  "timer_pool_init_once tab =
    (if \<not> timer_pool_init tab
     then tab\<lparr>timer_pool := replicate OSA_MAX_TIMERS zero_timer_slot, timer_pool_init := True\<rparr> else tab)"

definition find_free_timer_slot :: "timer_table \<Rightarrow> int" where
  "find_free_timer_slot tab = find_free_slot OSA_MAX_TIMERS (timer_pool tab)"

definition timer_callback_wrapper :: "timer_table \<Rightarrow> ptr \<Rightarrow> (ptr \<times> ptr) option" where
  "timer_callback_wrapper tab xTimer =
    (case first_free (\<lambda>i. slot_handle (timer_pool tab ! i) = xTimer \<and> slot_used (timer_pool tab ! i)) 0 OSA_MAX_TIMERS of
       None \<Rightarrow> None
     | Some i \<Rightarrow>
         if slot_callback (timer_pool tab ! i) \<noteq> NULL
         then Some (slot_callback (timer_pool tab ! i), slot_arg (timer_pool tab ! i)) else None)"

text \<open>A period in ticks, at least one.\<close>

definition esp_period_ticks :: "'k timer_kernel \<Rightarrow> uint32 \<Rightarrow> uint32" where
  "esp_period_ticks K period_ms =
    (let period_ticks = t_pdMS_TO_TICKS K period_ms in if period_ticks = 0 then 1 else period_ticks)"

definition esp_timer_create ::
  "'k timer_kernel \<Rightarrow> string option \<Rightarrow> uint32 \<Rightarrow> bool \<Rightarrow> ptr \<Rightarrow> ptr \<Rightarrow> timer_table \<times> 'k \<Rightarrow>
   ptr \<times> timer_table \<times> 'k" where
  "esp_timer_create K name period_ms periodic callback arg s =
    (let tab = timer_pool_init_once (fst s)
     in if period_ms = 0 \<or> callback = NULL then (NULL, tab, snd s)
        else
          let slot = find_free_timer_slot tab
          in if slot < 0 then (NULL, tab, snd s)
             else case xTimerCreateStatic K (case name of Some n \<Rightarrow> n | None \<Rightarrow> ''osa_timer'')
                    (esp_period_ticks K period_ms) periodic (nat slot) (nat slot) (snd s) of
               (handle, k) \<Rightarrow>
                 if handle = NULL then (NULL, tab, k)
                 else (handle,
                   tab\<lparr>timer_pool := (timer_pool tab)[nat slot :=
                     (timer_pool tab ! nat slot)\<lparr>slot_handle := handle, slot_used := True,
                       slot_callback := callback, slot_arg := arg\<rparr>]\<rparr>, k))"

definition esp_timer_destroy :: "'k timer_kernel \<Rightarrow> ptr \<Rightarrow> timer_table \<times> 'k \<Rightarrow> int \<times> timer_table \<times> 'k" where
  "esp_timer_destroy K timer s =
    (if timer = NULL then (code_of OSA_ERR_INVALID_PARAM, s)
     else
       let k = snd (xTimerStop K timer (t_portMAX_DELAY K) (snd s))
       in (code_of OSA_OK,
         (fst s)\<lparr>timer_pool := free_slot_of OSA_MAX_TIMERS
            (\<lambda>x. x\<lparr>slot_used := False, slot_handle := NULL, slot_callback := NULL\<rparr>) timer (timer_pool (fst s))\<rparr>,
         k))"

section \<open>Running timers\<close>

text \<open>A call with a variant for interrupts, and the code for its result.\<close>

definition esp_isr_call ::
  "'k timer_kernel \<Rightarrow> ('k \<Rightarrow> bool \<times> bool \<times> 'k) \<Rightarrow> ('k \<Rightarrow> bool \<times> 'k) \<Rightarrow> 'k \<Rightarrow> int \<times> 'k" where
  "esp_isr_call K from_isr from_task k =
    (case (if t_xPortInIsrContext K k
           then case from_isr k of (ok, woken, k1) \<Rightarrow> (ok, t_portYIELD_FROM_ISR K woken k1)
           else from_task k) of
       (ok, k') \<Rightarrow> (if \<not> ok then code_of OSA_ERR_GENERIC else code_of OSA_OK, k'))"

definition esp_timer_start :: "'k timer_kernel \<Rightarrow> ptr \<Rightarrow> 'k \<Rightarrow> int \<times> 'k" where
  "esp_timer_start K timer k =
    (if timer = NULL then (code_of OSA_ERR_INVALID_PARAM, k)
     else esp_isr_call K (xTimerStartFromISR K timer) (xTimerStart K timer (t_portMAX_DELAY K)) k)"

definition esp_timer_stop :: "'k timer_kernel \<Rightarrow> ptr \<Rightarrow> 'k \<Rightarrow> int \<times> 'k" where
  "esp_timer_stop K timer k =
    (if timer = NULL then (code_of OSA_ERR_INVALID_PARAM, k)
     else esp_isr_call K (xTimerStopFromISR K timer) (xTimerStop K timer (t_portMAX_DELAY K)) k)"

definition esp_timer_restart :: "'k timer_kernel \<Rightarrow> ptr \<Rightarrow> uint32 \<Rightarrow> 'k \<Rightarrow> int \<times> 'k" where
  "esp_timer_restart K timer period_ms k =
    (if timer = NULL then (code_of OSA_ERR_INVALID_PARAM, k)
     else case xTimerChangePeriod K timer (esp_period_ticks K period_ms) (t_portMAX_DELAY K) k of
       (ok, k1) \<Rightarrow>
         if \<not> ok then (code_of OSA_ERR_GENERIC, k1)
         else case xTimerReset K timer (t_portMAX_DELAY K) k1 of
           (ok2, k2) \<Rightarrow> (if \<not> ok2 then code_of OSA_ERR_GENERIC else code_of OSA_OK, k2))"

definition esp_timer_set_period :: "'k timer_kernel \<Rightarrow> ptr \<Rightarrow> uint32 \<Rightarrow> 'k \<Rightarrow> int \<times> 'k" where
  "esp_timer_set_period K timer period_ms k =
    (if timer = NULL then (code_of OSA_ERR_INVALID_PARAM, k)
     else case xTimerChangePeriod K timer (esp_period_ticks K period_ms) (t_portMAX_DELAY K) k of
       (ok, k1) \<Rightarrow> (if \<not> ok then code_of OSA_ERR_GENERIC else code_of OSA_OK, k1))"

definition esp_timer_is_active :: "'k timer_kernel \<Rightarrow> ptr \<Rightarrow> 'k \<Rightarrow> bool" where
  "esp_timer_is_active K timer k = (if timer = NULL then False else xTimerIsTimerActive K timer k)"

definition esp_timer_get_period :: "'k timer_kernel \<Rightarrow> ptr \<Rightarrow> 'k \<Rightarrow> uint32" where
  "esp_timer_get_period K timer k =
    (if timer = NULL then 0 else xTimerGetPeriod K timer k * portTICK_PERIOD_MS K)"

definition esp_timer_get_expiry :: "ptr \<Rightarrow> uint32" where
  "esp_timer_get_expiry timer = (if timer = NULL then 0 else 0)"

section \<open>The table keeps the contract\<close>

definition timer_given ::
  "'k timer_kernel \<Rightarrow> string option \<Rightarrow> uint32 \<Rightarrow> bool \<Rightarrow> ptr \<Rightarrow> timer_table \<times> 'k \<Rightarrow> nat \<Rightarrow> ptr" where
  "timer_given K name period_ms periodic callback s i =
    (if period_ms = 0 \<or> callback = NULL then NULL
     else fst (xTimerCreateStatic K (case name of Some n \<Rightarrow> n | None \<Rightarrow> ''osa_timer'')
            (esp_period_ticks K period_ms) periodic i i (snd s)))"

interpretation timers: slot_array OSA_MAX_TIMERS "\<lambda>s. timer_pool (fst s)" "\<lambda>s. timer_pool_init (fst s)"
  zero_timer_slot
  "\<lambda>h x. x\<lparr>slot_handle := h, slot_used := True, slot_callback := callback, slot_arg := arg\<rparr>"
  "\<lambda>x. x\<lparr>slot_used := False, slot_handle := NULL, slot_callback := NULL\<rparr>"
  "timer_given K name period_ms periodic callback" "esp_timer_create K name period_ms periodic callback arg"
  "\<lambda>s h. snd (esp_timer_destroy K h s)"
  for K :: "'k timer_kernel" and name period_ms periodic callback arg
  by unfold_locales
    (auto simp: esp_timer_create_def esp_timer_destroy_def find_free_timer_slot_def timer_given_def
      timer_pool_init_once_def zero_timer_slot_def Let_def split: prod.splits)

text \<open>Any sequence of creations, with their arguments, and destructions.\<close>

datatype timer_op = T_create "string option" uint32 bool ptr ptr | T_destroy ptr

fun timer_op_run :: "'k timer_kernel \<Rightarrow> timer_op \<Rightarrow> timer_table \<times> 'k \<Rightarrow> timer_table \<times> 'k" where
  "timer_op_run K (T_create name period_ms periodic callback arg) s =
    snd (esp_timer_create K name period_ms periodic callback arg s)"
| "timer_op_run K (T_destroy timer) s = snd (esp_timer_destroy K timer s)"

definition fresh_timers :: timer_table where
  "fresh_timers = \<lparr>timer_pool = replicate OSA_MAX_TIMERS zero_timer_slot, timer_pool_init = False\<rparr>"

text \<open>The documented behaviour of the kernel: a timer object lives in its buffer and has its own handle.\<close>

definition static_timers :: "'k timer_kernel \<Rightarrow> (nat \<Rightarrow> ptr) \<Rightarrow> bool" where
  "static_timers K f \<longleftrightarrow> inj f \<and> (\<forall>i. f i \<noteq> NULL) \<and>
    (\<forall>n p a d i k. fst (xTimerCreateStatic K n p a d i k) = f i)"

lemma static_timers_given:
  assumes "static_timers K f" and "period_ms \<noteq> 0" and "callback \<noteq> NULL"
  shows "timers.static_handles TYPE('k) (K :: 'k timer_kernel) name period_ms periodic callback f"
  unfolding timers.static_handles_def using assms by (simp add: static_timers_def timer_given_def)

lemma timer_op_ok:
  assumes "static_timers K f" and "timers.table_ok f s" and "op \<noteq> T_destroy NULL"
  shows "timers.table_ok f (timer_op_run K op s)"
proof (cases op)
  case (T_create name period_ms periodic callback arg)
  have inv: "timers.table_inv s"
    by (rule timers.table_okD(1) [OF assms(2)])
  show ?thesis
  proof (cases "period_ms = 0 \<or> callback = NULL")
    case True
    then have "timer_given K name period_ms periodic callback s i = NULL" for i
      by (simp add: timer_given_def)
    note timers.create_refused [OF inv this, of arg]
    moreover have "timers.table_inv (timer_op_run K op s)"
      using timers.create_inv [OF inv] T_create by simp
    ultimately show ?thesis
      using assms(2) T_create by (simp add: timers.table_ok_def)
  next
    case False
    then have "timers.static_handles TYPE('a) K name period_ms periodic callback f"
      by (intro static_timers_given [OF assms(1)]) auto
    from timers.create_ok [OF this assms(2)] T_create show ?thesis by simp
  qed
next
  case (T_destroy timer)
  then show ?thesis
    using timers.destroy_ok [OF assms(2)] assms(3) by simp
qed

lemma timer_ops_ok:
  assumes "static_timers K f" and "timers.table_ok f s" and "T_destroy NULL \<notin> set ops"
  shows "timers.table_ok f (fold (timer_op_run K) ops s)"
  using assms(2,3)
proof (induction ops arbitrary: s)
  case (Cons op ops)
  then have "timers.table_ok f (timer_op_run K op s)"
    by (intro timer_op_ok [OF assms(1)]) auto
  with Cons show ?case by simp
qed simp

section \<open>Expiry\<close>

text \<open>The slot a lookup by handle matches, and that a change of other slots does not matter.\<close>

definition slot_of :: "ptr \<Rightarrow> 'a esp_slot_scheme \<Rightarrow> bool" where
  "slot_of h x \<longleftrightarrow> slot_handle x = h \<and> slot_used x"

lemma wrapper_unchanged:
  assumes "length (timer_pool tab) = OSA_MAX_TIMERS" and "i < OSA_MAX_TIMERS"
    and "\<not> slot_of h (timer_pool tab ! i)" and "\<not> slot_of h x"
  shows "timer_callback_wrapper (tab\<lparr>timer_pool := (timer_pool tab)[i := x]\<rparr>) h = timer_callback_wrapper tab h"
proof -
  let ?P = "\<lambda>pool j. slot_handle (pool ! j) = h \<and> slot_used (pool ! j)"
  have eq: "first_free (?P ((timer_pool tab)[i := x])) 0 OSA_MAX_TIMERS = first_free (?P (timer_pool tab)) 0 OSA_MAX_TIMERS"
    using assms by (intro first_free_cong) (auto simp: nth_list_update slot_of_def)
  show ?thesis
  proof (cases "first_free (?P (timer_pool tab)) 0 OSA_MAX_TIMERS")
    case (Some j)
    then have "j \<noteq> i"
      using first_free_Some [OF Some] assms(3) by (auto simp: slot_of_def)
    then show ?thesis
      unfolding timer_callback_wrapper_def by (simp add: eq Some)
  qed (simp add: timer_callback_wrapper_def eq)
qed

lemma wrapper_unique:
  assumes "length (timer_pool tab) = OSA_MAX_TIMERS" and "i < OSA_MAX_TIMERS"
    and "\<And>j. j < OSA_MAX_TIMERS \<Longrightarrow> slot_of h (timer_pool tab ! j) \<longleftrightarrow> j = i"
  shows "timer_callback_wrapper tab h =
    (if slot_callback (timer_pool tab ! i) \<noteq> NULL
     then Some (slot_callback (timer_pool tab ! i), slot_arg (timer_pool tab ! i)) else None)"
proof -
  have eq: "first_free (\<lambda>j. slot_handle (timer_pool tab ! j) = h \<and> slot_used (timer_pool tab ! j)) 0 OSA_MAX_TIMERS =
      first_free (\<lambda>j. j = i) 0 OSA_MAX_TIMERS"
    using assms(3) by (intro first_free_cong) (simp add: slot_of_def)
  have "first_free (\<lambda>j. j = i) 0 OSA_MAX_TIMERS = Some i"
    using assms(2) by (intro first_free_single) auto
  then show ?thesis
    by (simp add: timer_callback_wrapper_def eq)
qed

lemma wrapper_none:
  assumes "\<And>j. j < OSA_MAX_TIMERS \<Longrightarrow> \<not> slot_of h (timer_pool tab ! j)"
  shows "timer_callback_wrapper tab h = None"
proof -
  have "first_free (\<lambda>j. slot_handle (timer_pool tab ! j) = h \<and> slot_used (timer_pool tab ! j)) 0 OSA_MAX_TIMERS = None"
    using assms by (auto simp: first_free_None slot_of_def)
  then show ?thesis by (simp add: timer_callback_wrapper_def)
qed

text \<open>A creation in full: the filled slot, and the table around it.\<close>

lemma timer_create_slot:
  assumes inv: "timers.table_inv s" and c: "esp_timer_create K name period_ms periodic callback arg s = (h, s')"
    and h: "h \<noteq> NULL"
  obtains tab i where "tab = timer_pool_init_once (fst s)" "callback \<noteq> NULL"
    "length (timer_pool tab) = OSA_MAX_TIMERS" "i < OSA_MAX_TIMERS" "\<not> slot_used (timer_pool tab ! i)"
    "slot_live (timer_pool tab) = slot_live (timer_pool (fst s))"
    "fst s' = tab\<lparr>timer_pool := (timer_pool tab)[i := (timer_pool tab ! i)
      \<lparr>slot_handle := h, slot_used := True, slot_callback := callback, slot_arg := arg\<rparr>]\<rparr>"
proof -
  let ?tab = "timer_pool_init_once (fst s)"
  have eq: "timers.ready_arr s = timer_pool ?tab"
    by (simp add: timers.ready_arr_def timer_pool_init_once_def)
  have len: "length (timer_pool ?tab) = OSA_MAX_TIMERS"
    and live: "slot_live (timer_pool ?tab) = slot_live (timer_pool (fst s))"
    using timers.ready_arr_simps [OF inv] by (simp_all add: eq timers.table_live_def)
  obtain i where i: "first_free (\<lambda>j. \<not> slot_used (timer_pool ?tab ! j)) 0 OSA_MAX_TIMERS = Some i"
    using c h by (cases "first_free (\<lambda>j. \<not> slot_used (timer_pool ?tab ! j)) 0 OSA_MAX_TIMERS")
      (auto simp: esp_timer_create_def find_free_timer_slot_def find_free_slot_def Let_def split: if_splits)
  show ?thesis
    using c h len live first_free_Some [OF i]
    by (intro that [of ?tab i])
      (auto simp: esp_timer_create_def find_free_timer_slot_def find_free_slot_def i Let_def split: if_splits prod.splits)
qed

lemma live_slot_of: "j < length pool \<Longrightarrow> slot_of h (pool ! j) \<longleftrightarrow> slot_live pool j = Some h"
  by (auto simp: slot_of_def slot_live_def)

lemma wrapper_init_once:
  assumes "timers.table_inv s"
  shows "timer_callback_wrapper (timer_pool_init_once (fst s)) h = timer_callback_wrapper (fst s) h"
proof (cases "timer_pool_init (fst s)")
  case False
  then have live: "slot_live (timer_pool (fst s)) = Map.empty" and len: "length (timer_pool (fst s)) = OSA_MAX_TIMERS"
    using assms by (simp_all add: timers.table_inv_def)
  have "timer_callback_wrapper (fst s) h = None"
    using live len by (intro wrapper_none) (simp add: live_slot_of)
  moreover have "timer_callback_wrapper (timer_pool_init_once (fst s)) h = None"
    using False by (intro wrapper_none) (simp add: timer_pool_init_once_def slot_of_def zero_timer_slot_def)
  ultimately show ?thesis by simp
qed (simp add: timer_pool_init_once_def)

text \<open>The handle of a creation is not in use before.\<close>

lemma timer_create_fresh:
  assumes "static_timers K f" and "timers.table_ok f s"
    and c: "esp_timer_create K name period_ms periodic callback arg s = (h, s')" and "h \<noteq> NULL"
  shows "slot_live (timer_pool (fst s)) j \<noteq> Some h"
proof -
  have "period_ms \<noteq> 0" "callback \<noteq> NULL"
    using c assms(4) by (auto simp: esp_timer_create_def Let_def split: if_splits)
  note st = static_timers_given [OF assms(1) this, of name periodic]
  show ?thesis
    using c assms(4)
    by (cases rule: timers.create_cases [OF st assms(2), of arg]) (auto simp: timers.table_live_def)
qed

text \<open>
  C35. Expiry on the ESP32 calls the right function: after any sequence of creations and destructions,
  a timer that is created calls exactly its own callback with its own argument when it expires, and
  nothing once it is destroyed; the other timers call what they called before.
\<close>

theorem esp_timer_callback:
  assumes "static_timers K f" and "T_destroy NULL \<notin> set ops"
    and "s = fold (timer_op_run K) ops (fresh_timers, k)"
    and "esp_timer_create K name period_ms periodic callback arg s = (h, s')" and "h \<noteq> NULL"
    and "esp_timer_destroy K h s' = (r, s'')"
  shows "timer_callback_wrapper (fst s') h = Some (callback, arg) \<and>
    r = code_of OSA_OK \<and> timer_callback_wrapper (fst s'') h = None \<and>
    (\<forall>h'. h' \<noteq> h \<longrightarrow> timer_callback_wrapper (fst s') h' = timer_callback_wrapper (fst s) h' \<and>
      timer_callback_wrapper (fst s'') h' = timer_callback_wrapper (fst s) h')"
proof -
  have "timers.table_ok f (fresh_timers, k)"
    by (simp add: timers.table_ok_def timers.table_inv_def timers.table_live_def fresh_timers_def zero_timer_slot_def)
  from timer_ops_ok [OF assms(1) this assms(2)] have ok: "timers.table_ok f s"
    unfolding assms(3) .
  note inv = timers.table_okD(1) [OF ok]
  obtain tab i where t: "tab = timer_pool_init_once (fst s)" "callback \<noteq> NULL"
    "length (timer_pool tab) = OSA_MAX_TIMERS" "i < OSA_MAX_TIMERS" "\<not> slot_used (timer_pool tab ! i)"
    "slot_live (timer_pool tab) = slot_live (timer_pool (fst s))"
    and s': "fst s' = tab\<lparr>timer_pool := (timer_pool tab)[i := (timer_pool tab ! i)
      \<lparr>slot_handle := h, slot_used := True, slot_callback := callback, slot_arg := arg\<rparr>]\<rparr>"
    by (rule timer_create_slot [OF inv assms(4,5)])
  let ?x = "(timer_pool tab ! i)\<lparr>slot_handle := h, slot_used := True, slot_callback := callback, slot_arg := arg\<rparr>"
  have free: "\<not> slot_of h (timer_pool tab ! j)" if "j < OSA_MAX_TIMERS" for j
    using that timer_create_fresh [OF assms(1) ok assms(4,5), of j] by (simp add: live_slot_of t(3,6))
  have only: "slot_of h (timer_pool (fst s') ! j) \<longleftrightarrow> j = i" if "j < OSA_MAX_TIMERS" for j
    using that free [OF that] t(3,4) by (cases "j = i") (simp_all add: s' slot_of_def)
  have call: "timer_callback_wrapper (fst s') h = Some (callback, arg)"
    using wrapper_unique [of "fst s'" i h, OF _ t(4) only] t(2,3,4) by (simp add: s')
  have "first_free (\<lambda>j. slot_handle (timer_pool (fst s') ! j) = h \<and> slot_used (timer_pool (fst s') ! j)) 0 OSA_MAX_TIMERS =
      first_free (\<lambda>j. j = i) 0 OSA_MAX_TIMERS"
    using only by (intro first_free_cong) (simp add: slot_of_def)
  also have "\<dots> = Some i"
    using t(4) by (intro first_free_single) auto
  finally have s'': "r = code_of OSA_OK" "fst s'' = tab\<lparr>timer_pool := (timer_pool tab)[i :=
      ?x\<lparr>slot_used := False, slot_handle := NULL, slot_callback := NULL\<rparr>]\<rparr>"
    using assms(5,6) t(3,4) by (auto simp: esp_timer_destroy_def free_slot_of_def s' Let_def)
  have "timer_callback_wrapper (fst s'') h = None"
    using free t(3,4) by (intro wrapper_none) (auto simp: s'' nth_list_update slot_of_def)
  moreover have "timer_callback_wrapper (fst s') h' = timer_callback_wrapper tab h'"
    "timer_callback_wrapper (fst s'') h' = timer_callback_wrapper tab h'" if "h' \<noteq> h" for h'
    unfolding s' s'' using that t(5) by (auto intro!: wrapper_unchanged [OF t(3,4)] simp: slot_of_def)
  ultimately show ?thesis
    using call s''(1) wrapper_init_once [OF inv] t(1) by simp
qed

text \<open>A kernel whose handles are the addresses of the buffers.\<close>

definition sample_timers :: "unit timer_kernel" where
  "sample_timers = \<lparr>xTimerCreateStatic = (\<lambda>_ _ _ _ i k. (Suc i, k)), xTimerStart = (\<lambda>_ _ k. (True, k)),
     xTimerStartFromISR = (\<lambda>_ k. (True, False, k)), xTimerStop = (\<lambda>_ _ k. (True, k)),
     xTimerStopFromISR = (\<lambda>_ k. (True, False, k)), xTimerChangePeriod = (\<lambda>_ _ _ k. (True, k)),
     xTimerReset = (\<lambda>_ _ k. (True, k)), xTimerIsTimerActive = (\<lambda>_ _. True), xTimerGetPeriod = (\<lambda>_ _. 1),
     t_xPortInIsrContext = (\<lambda>_. False), t_portYIELD_FROM_ISR = (\<lambda>_ k. k), t_pdMS_TO_TICKS = (\<lambda>ms. ms),
     t_portMAX_DELAY = - 1, portTICK_PERIOD_MS = 1\<rparr>"

theorem esp_timer_callback_witness:
  "\<exists>s'. esp_timer_create sample_timers None 10 True 70 80
     (fold (timer_op_run sample_timers) [T_create None 5 True 50 60] (fresh_timers, ())) = (2, s') \<and>
   timer_callback_wrapper (fst s') 2 = Some (70, 80)"
proof -
  let ?s = "fold (timer_op_run sample_timers) [T_create None 5 True 50 60] (fresh_timers, ())"
  have "fst (esp_timer_create sample_timers None 10 True 70 80 ?s) = 2"
    by code_simp
  then obtain s' where c: "esp_timer_create sample_timers None 10 True 70 80 ?s = (2, s')"
    by (metis prod.collapse)
  obtain r s'' where d: "esp_timer_destroy sample_timers 2 s' = (r, s'')"
    by (cases "esp_timer_destroy sample_timers 2 s'")
  have "static_timers sample_timers Suc" "T_destroy NULL \<notin> set [T_create None 5 True 50 60]"
    by (simp_all add: static_timers_def sample_timers_def)
  from esp_timer_callback [OF this refl c _ d] c show ?thesis by simp
qed

end
