(* ===== verification/Esp_Thread.thy ===== *)
theory Esp_Thread
  imports Esp_Pool Osa_Thread
begin

text \<open>
  Tasks of the ESP32 port, \<^verbatim>\<open>platform/esp32/osa_thread.c\<close>, over the task calls of FreeRTOS as the record
  \<open>task_kernel\<close>. The state holds the table of tasks and the wrapper arguments on the heap, by address;
  the address \<^verbatim>\<open>malloc\<close> returns (NULL when it fails) is an argument. The task function is code of the
  application: \<open>task_wrapper_enter\<close> is the wrapper up to the call of it, \<open>task_wrapper_leave\<close> what
  follows its return.

  The lemmas: the table keeps the contract \<open>handle_table\<close>; no wrapper is leaked; a task that returns
  leaves its slot in use.
\<close>

section \<open>The kernel\<close>

record 'k task_kernel =
  xTaskCreateStatic :: "string \<Rightarrow> uint32 \<Rightarrow> ptr \<Rightarrow> uint32 \<Rightarrow> nat \<Rightarrow> 'k \<Rightarrow> ptr \<times> 'k"
  vTaskDelete :: "ptr \<Rightarrow> 'k \<Rightarrow> 'k"
  vTaskDelay :: "uint32 \<Rightarrow> 'k \<Rightarrow> 'k"
  taskYIELD :: "'k \<Rightarrow> 'k"
  xTaskGetCurrentTaskHandle :: "'k \<Rightarrow> ptr"
  pcTaskGetName :: "ptr \<Rightarrow> 'k \<Rightarrow> string"
  p_pdMS_TO_TICKS :: "uint32 \<Rightarrow> uint32"
  configMAX_PRIORITIES :: uint32
  sizeof_StackType :: nat

section \<open>The table\<close>

definition OSA_MAX_TASKS :: nat where "OSA_MAX_TASKS = 16"

record task_wrapper_arg =
  tw_func :: ptr
  tw_arg :: ptr

record task_table =
  task_pool :: "esp_slot list"
  task_pool_init :: bool
  task_wrappers :: "ptr \<rightharpoonup> task_wrapper_arg"

definition task_pool_init_once :: "task_table \<Rightarrow> task_table" where
  "task_pool_init_once tab =
    (if \<not> task_pool_init tab
     then tab\<lparr>task_pool := replicate OSA_MAX_TASKS \<lparr>slot_handle = NULL, slot_used = False\<rparr>,
              task_pool_init := True\<rparr>
     else tab)"

definition find_free_task_slot :: "task_table \<Rightarrow> int" where
  "find_free_task_slot tab = find_free_slot OSA_MAX_TASKS (task_pool tab)"

text \<open>
  The wrapper up to the call: it copies the function and its argument, frees the wrapper and calls.
  \<open>None\<close> is an access through a dangling pointer.
\<close>

definition task_wrapper_enter :: "ptr \<Rightarrow> task_table \<Rightarrow> ((ptr \<times> ptr) \<times> task_table) option" where
  "task_wrapper_enter pvParameters tab =
    (case task_wrappers tab pvParameters of
       None \<Rightarrow> None
     | Some w \<Rightarrow> Some ((tw_func w, tw_arg w), tab\<lparr>task_wrappers := (task_wrappers tab)(pvParameters := None)\<rparr>))"

definition task_wrapper_leave :: "'k task_kernel \<Rightarrow> task_table \<times> 'k \<Rightarrow> task_table \<times> 'k" where
  "task_wrapper_leave K s = (fst s, vTaskDelete K NULL (snd s))"

text \<open>Priorities 1 to 10 of the interface on the range of the kernel, as unsigned numbers.\<close>

definition freertos_priority :: "'k task_kernel \<Rightarrow> int \<Rightarrow> uint32" where
  "freertos_priority K priority =
    (let p = of_int (priority + 1)
     in if p > configMAX_PRIORITIES K - 1 then configMAX_PRIORITIES K - 1 else p)"

text \<open>The quotient of an \<^verbatim>\<open>int\<close> and a \<^verbatim>\<open>size_t\<close>, computed in the 32 bits of the latter.\<close>

definition stack_words :: "'k task_kernel \<Rightarrow> int \<Rightarrow> uint32" where
  "stack_words K stack_size = of_int stack_size div of_nat (sizeof_StackType K)"

definition esp_thread_create ::
  "'k task_kernel \<Rightarrow> osa_thread_param option \<Rightarrow> ptr \<Rightarrow> ptr \<Rightarrow> ptr \<Rightarrow> task_table \<times> 'k \<Rightarrow>
   ptr \<times> task_table \<times> 'k" where
  "esp_thread_create K param func arg wrapper s =
    (let tab = task_pool_init_once (fst s)
     in case param of
       None \<Rightarrow> (NULL, tab, snd s)
     | Some prm \<Rightarrow>
         if func = NULL then (NULL, tab, snd s)
         else
           let slot = find_free_task_slot tab
           in if slot < 0 then (NULL, tab, snd s)
              else if wrapper = NULL then (NULL, tab, snd s)
              else
                let tab1 = tab\<lparr>task_wrappers := (task_wrappers tab)(wrapper \<mapsto> \<lparr>tw_func = func, tw_arg = arg\<rparr>)\<rparr>
                in case xTaskCreateStatic K (case tp_name prm of Some n \<Rightarrow> n | None \<Rightarrow> ''osa_task'')
                     (stack_words K (tp_stack_size prm)) wrapper (freertos_priority K (tp_priority prm))
                     (nat slot) (snd s) of
                  (handle, k) \<Rightarrow>
                    if handle = NULL
                    then (NULL, tab1\<lparr>task_wrappers := (task_wrappers tab1)(wrapper := None)\<rparr>, k)
                    else (handle,
                      tab1\<lparr>task_pool := (task_pool tab1)[nat slot :=
                        (task_pool tab1 ! nat slot)\<lparr>slot_handle := handle, slot_used := True\<rparr>]\<rparr>, k))"

definition esp_thread_destroy :: "'k task_kernel \<Rightarrow> ptr \<Rightarrow> task_table \<times> 'k \<Rightarrow> int \<times> task_table \<times> 'k" where
  "esp_thread_destroy K thread s =
    (if thread = NULL then (code_of OSA_ERR_INVALID_PARAM, s)
     else (code_of OSA_OK,
       (fst s)\<lparr>task_pool := free_slot_of OSA_MAX_TASKS
          (\<lambda>x. x\<lparr>slot_used := False, slot_handle := NULL\<rparr>) thread (task_pool (fst s))\<rparr>,
       vTaskDelete K thread (snd s)))"

definition esp_thread_sleep :: "'k task_kernel \<Rightarrow> uint32 \<Rightarrow> 'k \<Rightarrow> 'k" where
  "esp_thread_sleep K ms k = vTaskDelay K (p_pdMS_TO_TICKS K ms) k"

definition esp_thread_yield :: "'k task_kernel \<Rightarrow> 'k \<Rightarrow> 'k" where
  "esp_thread_yield K k = taskYIELD K k"

definition esp_thread_self :: "'k task_kernel \<Rightarrow> 'k \<Rightarrow> ptr" where
  "esp_thread_self K k = xTaskGetCurrentTaskHandle K k"

definition osa_thread_set_name :: "ptr \<Rightarrow> string option \<Rightarrow> int" where
  "osa_thread_set_name thread name = code_of OSA_OK"

definition osa_thread_get_name :: "'k task_kernel \<Rightarrow> ptr \<Rightarrow> 'k \<Rightarrow> string" where
  "osa_thread_get_name K thread k =
    (let handle = (if thread \<noteq> NULL then thread else xTaskGetCurrentTaskHandle K k) in pcTaskGetName K handle k)"

section \<open>The table keeps the contract\<close>

definition task_given ::
  "'k task_kernel \<Rightarrow> osa_thread_param option \<Rightarrow> ptr \<Rightarrow> ptr \<Rightarrow> task_table \<times> 'k \<Rightarrow> nat \<Rightarrow> ptr" where
  "task_given K param func wrapper s i =
    (case param of
       None \<Rightarrow> NULL
     | Some prm \<Rightarrow>
         if func = NULL \<or> wrapper = NULL then NULL
         else fst (xTaskCreateStatic K (case tp_name prm of Some n \<Rightarrow> n | None \<Rightarrow> ''osa_task'')
                (stack_words K (tp_stack_size prm)) wrapper (freertos_priority K (tp_priority prm)) i (snd s)))"

lemma task_once:
  "task_pool (task_pool_init_once tab) =
    (if task_pool_init tab then task_pool tab
     else replicate OSA_MAX_TASKS \<lparr>slot_handle = NULL, slot_used = False\<rparr>)"
  "task_pool_init (task_pool_init_once tab)"
  "task_wrappers (task_pool_init_once tab) = task_wrappers tab"
  by (simp_all add: task_pool_init_once_def)

interpretation tasks: slot_array OSA_MAX_TASKS "\<lambda>s. task_pool (fst s)" "\<lambda>s. task_pool_init (fst s)"
  "\<lparr>slot_handle = NULL, slot_used = False\<rparr>" "\<lambda>h x. x\<lparr>slot_handle := h, slot_used := True\<rparr>"
  "\<lambda>x. x\<lparr>slot_used := False, slot_handle := NULL\<rparr>"
  "task_given K param func wrapper" "esp_thread_create K param func arg wrapper"
  "\<lambda>s h. snd (esp_thread_destroy K h s)"
  for K :: "'k task_kernel" and param func wrapper arg
  by unfold_locales
    (simp_all add: esp_thread_create_def esp_thread_destroy_def find_free_task_slot_def task_given_def
      task_once(2) task_once(1) [symmetric] Let_def split: prod.split option.split)

section \<open>Properties\<close>

text \<open>
  C37. Creating a task on the ESP32: a creation that fails, wherever it does, leaves no wrapper behind
  and takes no slot; one that succeeds leaves its wrapper for the new task, which calls exactly the
  function with its argument and frees it. When the function returns the kernel deletes the task but
  its slot stays in use: with all slots taken, no number of returning tasks makes room.
\<close>

theorem esp_thread_create_spec:
  assumes "tasks.table_inv s" and "task_wrappers (fst s) wrapper = None"
    and "esp_thread_create K param func arg wrapper s = (h, s')"
  shows "(h = NULL \<longrightarrow> task_wrappers (fst s') = task_wrappers (fst s) \<and>
      slot_live (task_pool (fst s')) = slot_live (task_pool (fst s))) \<and>
    (h \<noteq> NULL \<longrightarrow> (\<exists>tab. task_wrapper_enter wrapper (fst s') = Some ((func, arg), tab) \<and>
        task_wrappers tab = task_wrappers (fst s)) \<and>
      (\<exists>i < 16. slot_live (task_pool (fst s)) i = None \<and>
        slot_live (task_pool (fst s')) = (slot_live (task_pool (fst s)))(i \<mapsto> h))) \<and>
    ((\<forall>i < 16. slot_live (task_pool (fst s)) i \<noteq> None) \<longrightarrow>
      fst (esp_thread_create K param func arg wrapper ((task_wrapper_leave K ^^ n) s)) = NULL)"
proof -
  have wr: "h = NULL \<Longrightarrow> task_wrappers (fst s') = task_wrappers (fst s)"
    "h \<noteq> NULL \<Longrightarrow> task_wrappers (fst s') = (task_wrappers (fst s))(wrapper \<mapsto> \<lparr>tw_func = func, tw_arg = arg\<rparr>)"
    using assms(2,3)
    by (auto simp: esp_thread_create_def task_pool_init_once_def Let_def fun_upd_idem_iff
        split: option.splits prod.splits if_splits)
  have enter: "\<exists>tab. task_wrapper_enter wrapper (fst s') = Some ((func, arg), tab) \<and>
      task_wrappers tab = task_wrappers (fst s)" if "h \<noteq> NULL"
    using wr(2) [OF that] assms(2) by (auto simp: task_wrapper_enter_def fun_upd_idem_iff)
  let ?live = "\<lambda>s. slot_live (task_pool (fst s))"
  let ?first = "\<lambda>s. first_free (\<lambda>i. ?live s i = None) 0 OSA_MAX_TASKS"
  note laws = tasks.create_full [OF assms(1), unfolded tasks.table_live_def]
    tasks.create_slot [OF assms(1), unfolded tasks.table_live_def]
  have live: "(h = NULL \<longrightarrow> ?live s' = ?live s) \<and>
      (h \<noteq> NULL \<longrightarrow> (\<exists>i < 16. ?live s i = None \<and> ?live s' = (?live s)(i \<mapsto> h)))"
  proof (cases "?first s")
    case None
    then show ?thesis using laws(1) [OF None, of K param func arg wrapper] assms(3) by simp
  next
    case (Some i)
    then show ?thesis
      using laws(2) [OF Some, of K param func arg wrapper] assms(3) first_free_Some [OF Some]
      by (auto simp: OSA_MAX_TASKS_def)
  qed
  have leave: "fst ((task_wrapper_leave K ^^ n) s) = fst s"
    by (induction n) (simp_all add: task_wrapper_leave_def)
  have "fst (esp_thread_create K param func arg wrapper ((task_wrapper_leave K ^^ n) s)) = NULL"
    if all: "\<forall>i < 16. ?live s i \<noteq> None"
  proof -
    let ?s = "(task_wrapper_leave K ^^ n) s"
    have "tasks.table_inv ?s"
      using assms(1) by (simp add: tasks.table_inv_def leave)
    moreover have "?first ?s = None"
      using all by (auto simp: first_free_None leave OSA_MAX_TASKS_def)
    ultimately show ?thesis
      using tasks.create_full [unfolded tasks.table_live_def] by blast
  qed
  with wr(1) enter live show ?thesis by blast
qed

text \<open>The kernel never gets a priority out of its range, and within it one above that of the interface.\<close>

lemma freertos_priority_range:
  "freertos_priority K p \<le> configMAX_PRIORITIES K - 1"
  "0 \<le> p \<Longrightarrow> p + 1 < 2 ^ 31 \<Longrightarrow> p + 1 \<le> uint (configMAX_PRIORITIES K - 1) \<Longrightarrow>
    uint (freertos_priority K p) = p + 1"
proof -
  show "freertos_priority K p \<le> configMAX_PRIORITIES K - 1"
    by (auto simp: freertos_priority_def Let_def)
  assume p: "0 \<le> p" "p + 1 < 2 ^ 31" "p + 1 \<le> uint (configMAX_PRIORITIES K - 1)"
  have "uint (of_int (p + 1) :: uint32) = p + 1"
    using p(1,2) by (simp add: uint_word_of_int del: of_int_add)
  with p(3) show "uint (freertos_priority K p) = p + 1"
    by (simp add: freertos_priority_def Let_def word_less_def del: of_int_add)
qed

definition sample_tasks :: "unit task_kernel" where
  "sample_tasks = \<lparr>xTaskCreateStatic = (\<lambda>_ _ _ _ i k. (Suc i, k)), vTaskDelete = (\<lambda>_ k. k), vTaskDelay = (\<lambda>_ k. k),
     taskYIELD = (\<lambda>k. k), xTaskGetCurrentTaskHandle = (\<lambda>_. 1), pcTaskGetName = (\<lambda>_ _. ''t''),
     p_pdMS_TO_TICKS = (\<lambda>ms. ms), configMAX_PRIORITIES = 25, sizeof_StackType = 1\<rparr>"

definition fresh_tasks :: task_table where
  "fresh_tasks = \<lparr>task_pool = replicate OSA_MAX_TASKS \<lparr>slot_handle = NULL, slot_used = False\<rparr>,
     task_pool_init = False, task_wrappers = Map.empty\<rparr>"

theorem esp_thread_create_spec_witness:
  "\<exists>s' tab. esp_thread_create sample_tasks
      (Some \<lparr>tp_name = None, tp_stack_size = 4096, tp_priority = 5, tp_stack_buf = NULL\<rparr>) 70 80 90 (fresh_tasks, ()) = (1, s') \<and>
    task_wrapper_enter 90 (fst s') = Some ((70, 80), tab) \<and> task_wrappers tab = Map.empty"
proof -
  let ?prm = "\<lparr>tp_name = None, tp_stack_size = 4096, tp_priority = 5, tp_stack_buf = NULL\<rparr>"
  let ?c = "esp_thread_create sample_tasks (Some ?prm) 70 80 90 (fresh_tasks, ())"
  have "find_free_slot OSA_MAX_TASKS (replicate OSA_MAX_TASKS \<lparr>slot_handle = NULL, slot_used = False\<rparr>) = 0"
    by code_simp
  then have "fst ?c = 1"
    by (simp add: esp_thread_create_def fresh_tasks_def find_free_task_slot_def sample_tasks_def
        task_pool_init_once_def Let_def)
  then obtain s' where c: "?c = (1, s')"
    by (metis prod.collapse)
  have "tasks.table_inv (fresh_tasks, ())" "task_wrappers (fst (fresh_tasks, ())) 90 = None"
    by (simp_all add: tasks.table_inv_def fresh_tasks_def)
  from esp_thread_create_spec [OF this c, of 0] c show ?thesis
    by (auto simp: fresh_tasks_def)
qed

end
