(* ===== verification/Esp_Error.thy ===== *)
theory Esp_Error
  imports Osa_Error
begin

text \<open>
  Error codes of the ESP32 port, \<^verbatim>\<open>platform/esp32/osa_error.c\<close>: the two tables, the lookups in them and
  the translation of the codes of the ESP-IDF. The codes of the ESP-IDF that the source names are a
  datatype, with one constructor for all others.
\<close>

definition esp32_error_strings :: "string list" where
  "esp32_error_strings =
    [''ESP32: Task creation failed'', ''ESP32: Out of memory'', ''ESP32: Invalid handle'',
     ''ESP32: Queue full'', ''ESP32: Semaphore timeout'']"

definition OSA_ESP32_ERR_BASE :: int where "OSA_ESP32_ERR_BASE = 256"

definition osa_std_error_strings :: "string list" where
  "osa_std_error_strings =
    [''Success'', ''Generic error'', ''Invalid parameter'', ''Null pointer'', ''Not initialized'',
     ''No memory'', ''Timeout'', ''Mutex lock failed'', ''Thread creation failed'', ''Queue full'',
     ''Worker pool init failed'', ''Worker pool queue full'', ''HSM init failed'', ''HSM invalid state'']"

definition osa_std_error_categories :: "string list" where
  "osa_std_error_categories =
    [''General'', ''General'', ''Parameter'', ''Memory'', ''State'', ''Memory'', ''Timeout'', ''Sync'',
     ''Thread'', ''Queue'', ''Worker'', ''Worker'', ''HSM'', ''HSM'']"

definition osa_error_string_std :: "int \<Rightarrow> string option" where
  "osa_error_string_std err =
    (if err \<ge> 0 \<and> nat err < length osa_std_error_strings then Some (osa_std_error_strings ! nat err) else None)"

definition osa_error_category_std :: "int \<Rightarrow> string" where
  "osa_error_category_std err =
    (if err \<ge> 0 \<and> nat err < length osa_std_error_categories
     then osa_std_error_categories ! nat err else ''Unknown'')"

definition esp_error_string :: "int \<Rightarrow> string" where
  "esp_error_string err =
    (case osa_error_string_std err of
       Some std_str \<Rightarrow> std_str
     | None \<Rightarrow>
         let esp32_err = err - OSA_ESP32_ERR_BASE
         in if esp32_err \<ge> 0 \<and> nat esp32_err < length esp32_error_strings
            then esp32_error_strings ! nat esp32_err else ''ESP32: Unknown error'')"

definition esp_error_category :: "int \<Rightarrow> string" where
  "esp_error_category err =
    (if err \<ge> OSA_ESP32_ERR_BASE \<and> err < OSA_ESP32_ERR_BASE + 256 then ''ESP32''
     else osa_error_category_std err)"

datatype esp_err =
  ESP_OK | ESP_ERR_NO_MEM | ESP_ERR_INVALID_ARG | ESP_ERR_INVALID_STATE | ESP_ERR_INVALID_SIZE |
  ESP_ERR_NOT_FOUND | ESP_ERR_NOT_SUPPORTED | ESP_ERR_TIMEOUT | ESP_ERR_INVALID_RESPONSE |
  ESP_ERR_INVALID_CRC | ESP_ERR_INVALID_VERSION | ESP_ERR_INVALID_MAC | ESP_ERR_OTHER int

fun osa_error_from_esp_err :: "esp_err \<Rightarrow> int" where
  "osa_error_from_esp_err ESP_OK = code_of OSA_OK"
| "osa_error_from_esp_err ESP_ERR_NO_MEM = code_of OSA_ERR_NO_MEMORY"
| "osa_error_from_esp_err ESP_ERR_INVALID_ARG = code_of OSA_ERR_INVALID_PARAM"
| "osa_error_from_esp_err ESP_ERR_INVALID_STATE = code_of OSA_ERR_NOT_INITIALIZED"
| "osa_error_from_esp_err ESP_ERR_INVALID_SIZE = code_of OSA_ERR_INVALID_PARAM"
| "osa_error_from_esp_err ESP_ERR_NOT_FOUND = code_of OSA_ERR_GENERIC"
| "osa_error_from_esp_err ESP_ERR_NOT_SUPPORTED = code_of OSA_ERR_GENERIC"
| "osa_error_from_esp_err ESP_ERR_TIMEOUT = code_of OSA_ERR_TIMEOUT"
| "osa_error_from_esp_err ESP_ERR_INVALID_RESPONSE = code_of OSA_ERR_GENERIC"
| "osa_error_from_esp_err ESP_ERR_INVALID_CRC = code_of OSA_ERR_GENERIC"
| "osa_error_from_esp_err ESP_ERR_INVALID_VERSION = code_of OSA_ERR_GENERIC"
| "osa_error_from_esp_err ESP_ERR_INVALID_MAC = code_of OSA_ERR_GENERIC"
| "osa_error_from_esp_err (ESP_ERR_OTHER n) = code_of OSA_ERR_GENERIC"

section \<open>Properties\<close>

lemma code_of_sign: "code_of c \<le> 0 \<and> (code_of c = 0 \<longleftrightarrow> c = OSA_OK)"
  by (cases c) simp_all

text \<open>
  On the ESP32 the two tables of names are indexed by non-negative numbers while every error code
  of the system is negative: every error has the same message and the same category, only success is
  named; the codes the port translates from the ESP-IDF are codes of the system, and success is
  reported for success only.
\<close>

theorem esp_errors_unnamed:
  "(c \<noteq> OSA_OK \<longrightarrow> esp_error_string (code_of c) = ''ESP32: Unknown error'' \<and>
     esp_error_category (code_of c) = ''Unknown'') \<and>
   esp_error_string (code_of OSA_OK) = ''Success'' \<and>
   (\<exists>d. osa_error_from_esp_err e = code_of d) \<and>
   (osa_is_ok (osa_error_from_esp_err e) \<longleftrightarrow> e = ESP_OK)"
proof -
  have "esp_error_string n = ''ESP32: Unknown error''" "esp_error_category n = ''Unknown''" if "n < 0" for n
    using that
    by (simp_all add: esp_error_string_def esp_error_category_def osa_error_string_std_def
        osa_error_category_std_def OSA_ESP32_ERR_BASE_def)
  moreover have "code_of c < 0" if "c \<noteq> OSA_OK"
    using that code_of_sign [of c] by linarith
  moreover have "esp_error_string (code_of OSA_OK) = ''Success''"
    by (simp add: esp_error_string_def osa_error_string_std_def osa_std_error_strings_def)
  moreover have "osa_error_from_esp_err e \<in> range code_of"
    by (cases e) (simp_all only: osa_error_from_esp_err.simps rangeI)
  then have "\<exists>d. osa_error_from_esp_err e = code_of d" by blast
  moreover have "osa_is_ok (osa_error_from_esp_err e) \<longleftrightarrow> e = ESP_OK"
    by (cases e) (simp_all add: osa_is_ok_def)
  ultimately show ?thesis by blast
qed

theorem esp_errors_unnamed_witness: "esp_error_string (code_of OSA_ERR_TIMEOUT) = ''ESP32: Unknown error''"
  using esp_errors_unnamed [of OSA_ERR_TIMEOUT ESP_OK] by simp

end
