(* ===== verification/Spec2Isabelle.thy ===== *)
theory Spec2Isabelle
  imports Osa_Queue_Threads Led_Example Worker_Rest Worker_Main Worker_Pair Simulate_Run Pool_Demo_Run Error_Demo Osa_Portability
    Esp_Timer Esp_Thread Esp_Error
begin

text \<open>
  A verification of open_hsm, a framework for hierarchical state machines in C with an operating
  system layer for Linux and the ESP32 (FreeRTOS).

  \<^bold>\<open>The program.\<close> The state machine core (\<^verbatim>\<open>core/hsm.h\<close>) is a set of macros: a state is a handler, a parent
  and a name; a handler gets an event and moves the machine with \<^verbatim>\<open>STATE_TRANSIT\<close> or passes the event on
  with \<^verbatim>\<open>STATE_SUPER\<close>. The active state machine (\<^verbatim>\<open>core/osa_hsm.c\<close>) gives a machine a dispatcher thread, a
  message queue of events and a periodic timer. The worker pool (\<^verbatim>\<open>core/osa_worker.c\<close>) runs jobs on worker
  threads; a completed job may be reported to a machine as an event. All of them use the platform
  layer: error codes, message queues, mutexes, semaphores, threads and timers, once for Linux
  (\<^verbatim>\<open>platform/linux\<close>) and once for the ESP32 (\<^verbatim>\<open>platform/esp32\<close>).

  \<^bold>\<open>Prelude and contracts.\<close>
  \<^item> \<^verbatim>\<open>Osa_Prelude\<close>: C integers, pointers as addresses, \<^verbatim>\<open>errno\<close>, memory as bytes, C strings, and the result type
    \<open>call\<close> of an operation that may block (\<open>Return\<close>, or \<open>Park\<close> with the deadline).
  \<^item> \<^verbatim>\<open>Osa_Fifo\<close> (locale \<open>bounded_fifo\<close>): a bounded queue. Provided by the ring buffer of \<^verbatim>\<open>Osa_Queue\<close>, the
    linked list of \<^verbatim>\<open>Job_Queue\<close> and the queues of the ESP32; its clients' histories are first-in first-out, and two
    providers cannot be told apart.
  \<^item> \<^verbatim>\<open>Slot_Pool\<close> (locale \<open>slot_pool\<close>) and \<^verbatim>\<open>Esp_Pool\<close> (locales \<open>handle_table\<close>, \<open>slot_array\<close>): the static pools of
    slots, for the jobs and for the five kinds of objects of the ESP32.
  \<^item> \<open>mutex\<close> in \<^verbatim>\<open>Osa_Sync\<close>: exclusion. \<open>hsm_app\<close>, \<open>macro_app\<close> in \<^verbatim>\<open>Hsm_Core\<close> and \<open>hsm_handlers\<close> in \<^verbatim>\<open>Osa_Hsm\<close>: what the
    framework expects of the handlers of an application. All three examples provide \<open>hsm_app\<close>, the LED example the
    others too.
  \<^item> \<^verbatim>\<open>Ranked_Steps\<close> (locale \<open>ranked_steps\<close>): systems whose runs end. Provided by the three programs below.

  \<^bold>\<open>Linux.\<close>
  \<^item> \<^verbatim>\<open>Osa_Error\<close>: \<^verbatim>\<open>platform/osa_error.h\<close>, \<^verbatim>\<open>platform/linux/osa_error.c\<close>. Messages are distinct, categories are
    those of the declaration.
  \<^item> \<^verbatim>\<open>Osa_Clock\<close>, \<^verbatim>\<open>Osa_Queue\<close>, \<^verbatim>\<open>Osa_Queue_Threads\<close>: \<^verbatim>\<open>osa_queue.c\<close>. The queue object is a record with its byte buffer;
    every operation is cut where it may sleep. The specification of every branch, the refinement of a
    bounded FIFO, and, over the step relation \<open>queue_step\<close> of any number of threads, that messages arrive once and
    in order and that no wake-up is lost.
  \<^item> \<^verbatim>\<open>Osa_Sync\<close>, \<^verbatim>\<open>Osa_Thread\<close>, \<^verbatim>\<open>Osa_Timer\<close>: \<^verbatim>\<open>osa_sync.c\<close>, \<^verbatim>\<open>osa_thread.c\<close>, \<^verbatim>\<open>osa_timer.c\<close> over the POSIX objects as
    owner, value, set of terminated threads, and timer settings.

  \<^bold>\<open>State machines.\<close>
  \<^item> \<^verbatim>\<open>Hsm_Core\<close>: \<^verbatim>\<open>core/hsm.h\<close>. A handler is a function from a caller for other handlers, an event and the object to a
    result, \<open>None\<close> when it does not return; \<open>hsm_call code n\<close> runs handlers with at most \<open>n\<close> nested calls. More
    depth never changes a result (\<open>hsm_app\<close>), so a depth that gives one is enough, and a call that gives none for any depth does not
    return. Delegation to the parent, and that exit actions never run.
  \<^item> \<^verbatim>\<open>Osa_Hsm\<close>: \<^verbatim>\<open>core/osa_hsm.c\<close>. Events as bytes of messages, the dispatcher before its loop, one turn (\<open>run_iter\<close>) and the
    loop (\<open>hsm_drain\<close>, whose turns are bounded by the number of events pending where the handlers post none to themselves),
    posting, the timer.
  \<^item> \<^verbatim>\<open>Led_Example\<close>: the state machine of \<^verbatim>\<open>examples/esp32/main/hsm_esp32_example.c\<close>. \<^verbatim>\<open>Simulate_Example\<close>: two machines that post to each
    other, \<^verbatim>\<open>examples/linux/hsm_simulate.c\<close>. \<^verbatim>\<open>Worker_Example\<close>: a machine that hands jobs to the worker pool,
    \<^verbatim>\<open>examples/linux/hsm_worker.c\<close>. What each event does in each state, down to the queues; two or three
    nested calls suffice.

  \<^bold>\<open>Worker pool.\<close>
  \<^item> \<^verbatim>\<open>Job_Pool\<close>: the job objects and the static pool. \<^verbatim>\<open>Osa_Worker\<close>: every operation of \<^verbatim>\<open>core/osa_worker.c\<close>, the worker thread cut at
    its blocking points (\<open>worker_fetch\<close>, \<open>job_executed\<close>, \<open>worker_complete\<close>); job functions and callbacks are arguments.
    The search of a cancellation is a \<open>partial_function\<close>, shown to return on every well-formed queue.
  \<^item> \<^verbatim>\<open>Job_Queue\<close>: the doubly linked queue represents a list; submitting appends, fetching takes the first,
    cancelling removes, except when the back link of the first job is stale.
  \<^item> \<^verbatim>\<open>Worker_Threads\<close>: any number of workers, clients and the stopping thread as the step relation \<open>pool_step\<close>. It
    refines an abstract pool; no job is lost, the statistics are right, and a stop reaches every worker.
  \<^item> \<^verbatim>\<open>Worker_Steps\<close>: what the programs on the pool share, the effect of one stretch of a worker and sums over the workers.
    \<^verbatim>\<open>Pool_Start\<close>: starting a pool and joining its threads.
  \<^item> This theory: a job submitted for a machine comes back to it as an event.

  \<^bold>\<open>Programs.\<close>
  \<^item> \<^verbatim>\<open>Worker_System\<close>, \<^verbatim>\<open>Worker_Rest\<close>: a machine of the worker example with its dispatcher, the workers of the pool and the
    posts from outside in every interleaving (\<open>exw_step\<close>, \<open>exw_reachable\<close>). An invariant says where the job of the
    machine is; every step lowers a measure, and at rest the machine is idle. \<^verbatim>\<open>Worker_Main\<close>: the \<^verbatim>\<open>main\<close> function of the
    example leads to the start of this system. The start has the static job pool initialised, as
    the first allocation leaves it. These results are for one machine on the pool. \<^verbatim>\<open>Worker_Pair\<close> shows that they do
    not extend to the two machines of the program: the slot of a reported job can be given to the other machine
    before the first has handled the report, and the job is then queued twice.
  \<^item> \<^verbatim>\<open>Pool_Demo\<close>, \<^verbatim>\<open>Pool_Demo_Run\<close>: \<^verbatim>\<open>examples/linux/worker_pool.c\<close>, the whole program with its two workers (\<open>demo_step\<close>): every run
    ends, after at most 44 steps, with the return value 0.
  \<^item> \<^verbatim>\<open>Simulate_System\<close>, \<^verbatim>\<open>Simulate_Run\<close>: \<^verbatim>\<open>examples/linux/hsm_simulate.c\<close>, \<^verbatim>\<open>main\<close> and the two machines with their dispatchers and the
    timer of the first (\<open>sim_step\<close>). Which events reach which machine, what the counters count, that between two expiries
    of the timer only finitely much happens, and how it all comes to rest after twelve ticks. A queue of 20 events is never full
    while the machines keep up with the timer (\<open>few_events_room\<close>).
  \<^item> \<^verbatim>\<open>Error_Demo\<close>: \<^verbatim>\<open>examples/linux/error_code_demo.c\<close>, with its error paths.

  \<^bold>\<open>ESP32.\<close> \<^verbatim>\<open>Esp_Sync\<close>, \<^verbatim>\<open>Esp_Queue\<close>, \<^verbatim>\<open>Esp_Timer\<close>, \<^verbatim>\<open>Esp_Thread\<close>, \<^verbatim>\<open>Esp_Error\<close> model the files of \<^verbatim>\<open>platform/esp32\<close>; a definition \<open>esp_x\<close> is the
  function \<^verbatim>\<open>osa_x\<close> of the port. FreeRTOS is not part of the repository: its calls are records of functions on
  an arbitrary kernel state, and what is used of their documented behaviour is a hypothesis. The tables keep at most one slot per
  object and every used slot has a live handle; the callbacks reach the right slot; creations that fail leak
  nothing. \<^verbatim>\<open>Osa_Portability\<close> compares the platforms: queues agree, semaphores agree up to the maximum of their count.

  \<^bold>\<open>Conventions.\<close> A NULL argument is \<open>None\<close>, \<open>False\<close> or the address 0; outcomes of allocations and of the system's calls are
  arguments; undefined behaviour is \<open>None\<close>. Counters of type \<^verbatim>\<open>uint32_t\<close> are words and wrap. The
  threads interleave between blocking points, where the code holds the lock in between.

  \<^bold>\<open>Not modelled.\<close> Logging and console output, the report of memory of the ESP32 port, the platform selection header (conditional
  inclusion), the time stamps of the logs, the \<^verbatim>\<open>app_main\<close> of the LED example with its
  button task and callback (they initialise a field that \<^verbatim>\<open>struct hsm_event\<close> does not have and call \<^verbatim>\<open>osa_thread_create\<close> with parameters
  that its declaration does not have), and the tests with their harness. Scheduling within a lock's section, memory ordering
  and real time beyond deadlines are outside the model.

  \<^bold>\<open>Plan.\<close> The active state machine on the queues and timers of the ESP32.
\<close>

section \<open>From a submitted job to the event of the state machine\<close>

text \<open>A submission to an empty queue.\<close>

lemma submit_empty:
  fixes job :: ptr
  assumes "job_queue_rep ws []" and "0 < queue_size (ws_pool ws)"
  defines "ws1 \<equiv> snd (submit_body job ws)"
  shows "submit_body job ws = (0, ws1)" "job_queue_head (ws_pool ws1) = job"
    "job_next (jobs (ws_store ws1) job) = NULL" "queue_depth (stats (ws_pool ws1)) = 1"
    "wp_work_sem (ws_pool ws1) = osa_sem_post (wp_work_sem (ws_pool ws))"
    "wp_complete_sem (ws_pool ws1) = wp_complete_sem (ws_pool ws)"
    "wp_lock (ws_pool ws1) = wp_lock (ws_pool ws)" "shutdown (ws_pool ws1) = shutdown (ws_pool ws)"
    "total_submitted (stats (ws_pool ws1)) = total_submitted (stats (ws_pool ws)) + 1"
    "total_completed (stats (ws_pool ws1)) = total_completed (stats (ws_pool ws))"
    "total_errors (stats (ws_pool ws1)) = total_errors (stats (ws_pool ws))"
    "target_hsm (jobs (ws_store ws1) job) = target_hsm (jobs (ws_store ws) job)"
    "complete_cb (jobs (ws_store ws1) job) = complete_cb (jobs (ws_store ws) job)"
    "job_func (jobs (ws_store ws1) job) = job_func (jobs (ws_store ws) job)"
    "completion_signal (jobs (ws_store ws1) job) = completion_signal (jobs (ws_store ws) job)"
  using assms(1,2) unfolding ws1_def by (auto simp: submit_body_def Let_def job_queue_rep_def)

text \<open>The whole submission for a machine, to an idle pool.\<close>

lemma submit_to_hsm_empty:
  assumes "wp_lock (ws_pool ws) = free_lock" and "job_queue_rep ws []" and "0 < queue_size (ws_pool ws)"
    and "job \<noteq> NULL"
  obtains ws1 where "osa_worker_pool_submit_to_hsm c True job h sig ws = Return (0, ws1)"
    "wp_lock (ws_pool ws1) = free_lock" "job_queue_head (ws_pool ws1) = job"
    "job_next (jobs (ws_store ws1) job) = NULL" "queue_depth (stats (ws_pool ws1)) = 1"
    "wp_work_sem (ws_pool ws1) = osa_sem_post (wp_work_sem (ws_pool ws))"
    "wp_complete_sem (ws_pool ws1) = wp_complete_sem (ws_pool ws)"
    "shutdown (ws_pool ws1) = shutdown (ws_pool ws)"
    "total_submitted (stats (ws_pool ws1)) = total_submitted (stats (ws_pool ws)) + 1"
    "total_completed (stats (ws_pool ws1)) = total_completed (stats (ws_pool ws))"
    "total_errors (stats (ws_pool ws1)) = total_errors (stats (ws_pool ws))"
    "target_hsm (jobs (ws_store ws1) job) = h" "completion_signal (jobs (ws_store ws1) job) = sig"
    "complete_cb (jobs (ws_store ws1) job) = complete_cb (jobs (ws_store ws) job)"
    "job_func (jobs (ws_store ws1) job) = job_func (jobs (ws_store ws) job)"
proof -
  let ?ws = "upd_pool (\<lambda>p. p\<lparr>wp_lock := Some \<lparr>m_owner = Some c\<rparr>\<rparr>)
    (ws\<lparr>ws_store := upd_job job (\<lambda>j. j\<lparr>target_hsm := h, completion_signal := sig\<rparr>) (ws_store ws)\<rparr>)"
  have rep: "job_queue_rep ?ws []" "0 < queue_size (ws_pool ?ws)"
    using assms(2,3) by (simp_all add: job_queue_rep_def)
  note sub = submit_empty [OF rep, of job]
  obtain ws0 where ws0: "submit_body job ?ws = (0, ws0)"
    using sub(1) by blast
  have "wp_lock (ws_pool ws0) = Some \<lparr>m_owner = Some c\<rparr>"
    using bodies_lock(1) [of job ?ws] unfolding ws0 by simp
  then have "osa_worker_pool_submit_to_hsm c True job h sig ws =
      Return (0, upd_pool (\<lambda>p. p\<lparr>wp_lock := free_lock\<rparr>) ws0)"
    using assms(1,4) ws0
    by (simp add: osa_worker_pool_submit_to_hsm_def osa_worker_pool_submit_def with_lock_def acquire_def
        release_def osa_mutex_lock_def osa_mutex_unlock_def)
  then show ?thesis
    using sub(2-) unfolding ws0
    by (intro that [of "upd_pool (\<lambda>p. p\<lparr>wp_lock := free_lock\<rparr>) ws0"]) simp_all
qed

text \<open>The fetch of the only job.\<close>

lemma fetch_single:
  assumes "wp_lock (ws_pool ws) = free_lock" and "job_queue_head (ws_pool ws) = job" and "job \<noteq> NULL"
    and "\<not> shutdown (ws_pool ws)"
  obtains ws2 where "worker_fetch t ws = Return (Fetch_job job, ws2)" "wp_lock (ws_pool ws2) = free_lock"
    "job_queue_head (ws_pool ws2) = job_next (jobs (ws_store ws) job)"
    "queue_depth (stats (ws_pool ws2)) = queue_depth (stats (ws_pool ws)) - 1"
    "stats (ws_pool ws2) = (stats (ws_pool ws))\<lparr>active_workers := active_workers (stats (ws_pool ws)) + 1,
       queue_depth := queue_depth (stats (ws_pool ws)) - 1\<rparr>"
    "wp_complete_sem (ws_pool ws2) = wp_complete_sem (ws_pool ws)"
    "jobs (ws_store ws2) job = (jobs (ws_store ws) job)\<lparr>job_next := NULL, job_prev := NULL, job_state := OSA_JOB_RUNNING\<rparr>"
  using assms
  by (intro that [of "snd (the (case worker_fetch t ws of Return x \<Rightarrow> Some x | Park _ \<Rightarrow> None))"])
    (simp_all add: worker_fetch_def with_lock_def acquire_def release_def osa_mutex_lock_def
      osa_mutex_unlock_def fetch_body_def Let_def)

text \<open>The completion of a job that has been run, for a machine with room in its queue.\<close>

lemma complete_executed:
  fixes ret :: int
  assumes lock: "wp_lock (ws_pool ws) = free_lock"
    and jb: "target_hsm (jobs (ws_store ws) job) = h" "completion_signal (jobs (ws_store ws) job) = sig"
      "complete_cb (jobs (ws_store ws) job) = NULL"
    and hsm: "job < 2 ^ 64" "h \<noteq> NULL" "c_int sig" "hsm_running (hsms h)"
      "length (hsm_pending (hsms h)) < hsm_queue_cap (hsms h)"
  defines "failed \<equiv> job_func (jobs (ws_store ws) job) = NULL \<or> ret < 0"
  obtains hsms' ws' where "worker_complete t cb pad now job hsms (job_executed job ret ws) = Return (hsms', ws')"
    "hsm_running (hsms' h)" "hsm_current (hsms' h) = hsm_current (hsms h)"
    "map bytes_event (hsm_pending (hsms' h)) =
      map bytes_event (hsm_pending (hsms h)) @ [\<lparr>ev_signal = sig, ev_data = job, ev_size = sizeof_osa_worker_job\<rparr>]"
    "job_state (jobs (ws_store ws') job) = (if failed then OSA_JOB_ERROR else OSA_JOB_COMPLETED)"
    "job_queue_head (ws_pool ws') = job_queue_head (ws_pool ws)"
    "queue_depth (stats (ws_pool ws')) = queue_depth (stats (ws_pool ws))"
    "total_submitted (stats (ws_pool ws')) = total_submitted (stats (ws_pool ws))"
    "total_completed (stats (ws_pool ws')) = total_completed (stats (ws_pool ws)) + (if failed then 0 else 1)"
    "total_errors (stats (ws_pool ws')) = total_errors (stats (ws_pool ws)) + (if failed then 1 else 0)"
proof -
  let ?ws = "job_executed job ret ws"
  let ?lk = "upd_pool (\<lambda>p. p\<lparr>wp_lock := Some \<lparr>m_owner = Some t\<rparr>\<rparr>) ?ws"
  obtain hsms' ws1 where c: "complete_body cb pad now job hsms ?lk = (hsms', ws1)"
    "with_lock t (complete_body cb pad now job hsms) ?ws = Return (hsms', upd_pool (\<lambda>p. p\<lparr>wp_lock := free_lock\<rparr>) ws1)"
    by (rule with_lock_free [of ?ws "complete_body cb pad now job hsms" t])
      (use lock in \<open>simp_all add: job_executed_def\<close>)
  have j: "target_hsm (jobs (ws_store ?lk) job) = h" "completion_signal (jobs (ws_store ?lk) job) = sig"
    "complete_cb (jobs (ws_store ?lk) job) = NULL" "job_result (jobs (ws_store ?lk) job) < 0 \<longleftrightarrow> failed"
    using jb by (auto simp: job_executed_def failed_def)
  obtain q where q: "hsms' = hsms(h := (hsms h)\<lparr>msg_q := Some q\<rparr>)" "hsm_running (hsms' h)"
    "map bytes_event (hsm_pending (hsms' h)) =
      map bytes_event (hsm_pending (hsms h)) @ [\<lparr>ev_signal = sig, ev_data = job, ev_size = sizeof_osa_worker_job\<rparr>]"
    using complete_body_delivers [OF j(3) c(1)] hsm unfolding j by metis
  have "job_state (jobs (ws_store ws1) job) = (if failed then OSA_JOB_ERROR else OSA_JOB_COMPLETED)"
    "total_completed (stats (ws_pool ws1)) = total_completed (stats (ws_pool ws)) + (if failed then 0 else 1)"
    "total_errors (stats (ws_pool ws1)) = total_errors (stats (ws_pool ws)) + (if failed then 1 else 0)"
    "total_submitted (stats (ws_pool ws1)) = total_submitted (stats (ws_pool ws))"
    using c(1) j(3,4) by (auto simp: complete_body_def Let_def job_executed_def split: if_splits)
  then show ?thesis
    using complete_body_rest(1,6) [of cb pad now job hsms ?lk] c(1) q
    by (intro that [OF c(2) [folded worker_complete_def]]) (simp_all add: job_executed_def)
qed

text \<open>
  C7. A job submitted for a state machine comes back to it as an event. On an idle running pool, the
  submission succeeds and leaves a token, the worker that takes it fetches exactly this job, and when
  the job function has returned the completion posts the agreed signal, with the job as data, behind
  what the machine has pending; its dispatcher, if nothing else was pending, hands the event to the
  current state next. The job is counted once, and the queue is empty again.
\<close>

theorem job_reaches_hsm:
  fixes ret :: int
  assumes "wp_lock (ws_pool ws) = free_lock" and "job_queue_rep ws []" and "0 < queue_size (ws_pool ws)"
    and "\<not> shutdown (ws_pool ws)" and "wp_work_sem (ws_pool ws) = Some sem" and "sem_value sem < SEM_VALUE_MAX"
    and "job \<noteq> NULL" and "job < 2 ^ 64" and "complete_cb (jobs (ws_store ws) job) = NULL"
    and "h \<noteq> NULL" and "c_int sig" and "hsm_running (hsms h)"
    and "length (hsm_pending (hsms h)) < hsm_queue_cap (hsms h)"
  defines "failed \<equiv> job_func (jobs (ws_store ws) job) = NULL \<or> ret < 0"
  defines "e \<equiv> \<lparr>ev_signal = sig, ev_data = job, ev_size = sizeof_osa_worker_job\<rparr>"
  shows "\<exists>ws1 sem1 ws2 hsms' ws3.
    osa_worker_pool_submit_to_hsm c True job h sig ws = Return (0, ws1) \<and>
    osa_sem_wait (work_sem_of ws1) (-1) clock = Return (0, sem1) \<and>
    worker_fetch t (upd_pool (\<lambda>p. p\<lparr>wp_work_sem := sem1\<rparr>) ws1) = Return (Fetch_job job, ws2) \<and>
    worker_complete t cb pad now job hsms (job_executed job ret ws2) = Return (hsms', ws3) \<and>
    map bytes_event (hsm_pending (hsms' h)) = map bytes_event (hsm_pending (hsms h)) @ [e] \<and>
    (hsm_pending (hsms h) = [] \<longrightarrow>
      (\<exists>r. run_iter states code n now' (hsms' h) = Return (Some (hsm_current (hsms h), e), r))) \<and>
    job_state (jobs (ws_store ws3) job) = (if failed then OSA_JOB_ERROR else OSA_JOB_COMPLETED) \<and>
    job_queue_head (ws_pool ws3) = NULL \<and> queue_depth (stats (ws_pool ws3)) = 0 \<and>
    total_submitted (stats (ws_pool ws3)) = total_submitted (stats (ws_pool ws)) + 1 \<and>
    total_completed (stats (ws_pool ws3)) = total_completed (stats (ws_pool ws)) + (if failed then 0 else 1) \<and>
    total_errors (stats (ws_pool ws3)) = total_errors (stats (ws_pool ws)) + (if failed then 1 else 0)"
proof -
  obtain ws1 where ws1: "osa_worker_pool_submit_to_hsm c True job h sig ws = Return (0, ws1)"
    "wp_lock (ws_pool ws1) = free_lock" "job_queue_head (ws_pool ws1) = job"
    "job_next (jobs (ws_store ws1) job) = NULL" "queue_depth (stats (ws_pool ws1)) = 1"
    "wp_work_sem (ws_pool ws1) = osa_sem_post (wp_work_sem (ws_pool ws))"
    "shutdown (ws_pool ws1) = shutdown (ws_pool ws)"
    "total_submitted (stats (ws_pool ws1)) = total_submitted (stats (ws_pool ws)) + 1"
    "total_completed (stats (ws_pool ws1)) = total_completed (stats (ws_pool ws))"
    "total_errors (stats (ws_pool ws1)) = total_errors (stats (ws_pool ws))"
    "target_hsm (jobs (ws_store ws1) job) = h" "completion_signal (jobs (ws_store ws1) job) = sig"
    "complete_cb (jobs (ws_store ws1) job) = complete_cb (jobs (ws_store ws) job)"
    "job_func (jobs (ws_store ws1) job) = job_func (jobs (ws_store ws) job)"
    by (rule submit_to_hsm_empty [OF assms(1-3,7)])
  obtain sem1 where sem1: "osa_sem_wait (work_sem_of ws1) (-1) clock = Return (0, sem1)"
    using ws1(6) assms(5,6) by (auto simp: osa_sem_post_def osa_sem_wait_def)
  let ?ws1 = "upd_pool (\<lambda>p. p\<lparr>wp_work_sem := sem1\<rparr>) ws1"
  obtain ws2 where ws2: "worker_fetch t ?ws1 = Return (Fetch_job job, ws2)" "wp_lock (ws_pool ws2) = free_lock"
    "job_queue_head (ws_pool ws2) = job_next (jobs (ws_store ?ws1) job)"
    "queue_depth (stats (ws_pool ws2)) = queue_depth (stats (ws_pool ?ws1)) - 1"
    "stats (ws_pool ws2) = (stats (ws_pool ?ws1))\<lparr>active_workers := active_workers (stats (ws_pool ?ws1)) + 1,
       queue_depth := queue_depth (stats (ws_pool ?ws1)) - 1\<rparr>"
    "jobs (ws_store ws2) job = (jobs (ws_store ?ws1) job)\<lparr>job_next := NULL, job_prev := NULL, job_state := OSA_JOB_RUNNING\<rparr>"
    by (rule fetch_single [of ?ws1 job]) (use ws1 assms(4,7) in simp_all)
  have j: "target_hsm (jobs (ws_store ws2) job) = h" "completion_signal (jobs (ws_store ws2) job) = sig"
    "complete_cb (jobs (ws_store ws2) job) = NULL"
    and f: "job_func (jobs (ws_store ws2) job) = job_func (jobs (ws_store ws) job)"
    using ws1(11-14) ws2(6) assms(9) by simp_all
  obtain hsms' ws3 where c: "worker_complete t cb pad now job hsms (job_executed job ret ws2) = Return (hsms', ws3)"
    "hsm_running (hsms' h)" "hsm_current (hsms' h) = hsm_current (hsms h)"
    "map bytes_event (hsm_pending (hsms' h)) = map bytes_event (hsm_pending (hsms h)) @ [e]"
    "job_state (jobs (ws_store ws3) job) = (if failed then OSA_JOB_ERROR else OSA_JOB_COMPLETED)"
    "job_queue_head (ws_pool ws3) = job_queue_head (ws_pool ws2)"
    "queue_depth (stats (ws_pool ws3)) = queue_depth (stats (ws_pool ws2))"
    "total_submitted (stats (ws_pool ws3)) = total_submitted (stats (ws_pool ws2))"
    "total_completed (stats (ws_pool ws3)) = total_completed (stats (ws_pool ws2)) + (if failed then 0 else 1)"
    "total_errors (stats (ws_pool ws3)) = total_errors (stats (ws_pool ws2)) + (if failed then 1 else 0)"
    unfolding failed_def e_def f [symmetric] by (rule complete_executed [where hsms = hsms, OF ws2(2) j assms(8,10-13)])
  have "\<exists>r. run_iter states code n now' (hsms' h) = Return (Some (hsm_current (hsms h), e), r)"
    if none: "hsm_pending (hsms h) = []"
  proof -
    obtain m where m: "hsm_pending (hsms' h) = [m]" "bytes_event m = e"
      using c(4) none by (auto simp: map_eq_Cons_conv)
    show ?thesis
      by (rule run_iter_dispatch [OF c(2) m(1), of states code n now']) (auto simp: c(3) m(2))
  qed
  then show ?thesis
    using ws1 sem1 ws2 c
    by (intro exI [of _ ws1] exI [of _ sem1] exI [of _ ws2] exI [of _ hsms'] exI [of _ ws3] conjI) simp_all
qed

theorem job_reaches_hsm_witness:
  "\<exists>ws1 sem1 ws2 hsms' ws3.
    osa_worker_pool_submit_to_hsm 5 True 40 9 6 sample_ws = Return (0, ws1) \<and>
    osa_sem_wait (work_sem_of ws1) (-1) (Inl 1) = Return (0, sem1) \<and>
    worker_fetch 1 (upd_pool (\<lambda>p. p\<lparr>wp_work_sem := sem1\<rparr>) ws1) = Return (Fetch_job 40, ws2) \<and>
    worker_complete 1 (\<lambda>_ _ _ _ x. x) (\<lambda>_. 0) \<lparr>tv_sec = 0, tv_nsec = 0\<rparr> 40 (\<lambda>_. sample_hsm)
      (job_executed 40 0 ws2) = Return (hsms', ws3) \<and>
    map bytes_event (hsm_pending (hsms' 9)) = [\<lparr>ev_signal = 6, ev_data = 40, ev_size = 72\<rparr>]"
proof -
  have "wp_lock (ws_pool sample_ws) = free_lock" "job_queue_rep sample_ws []"
    "0 < queue_size (ws_pool sample_ws)" "\<not> shutdown (ws_pool sample_ws)"
    "wp_work_sem (ws_pool sample_ws) = Some \<lparr>sem_value = 0, sem_max_count = 4\<rparr>"
    "sem_value \<lparr>sem_value = 0, sem_max_count = 4\<rparr> < SEM_VALUE_MAX" "(40 :: ptr) \<noteq> NULL" "(40 :: ptr) < 2 ^ 64"
    "complete_cb (jobs (ws_store sample_ws) 40) = NULL" "(9 :: ptr) \<noteq> NULL" "c_int 6"
    "hsm_running sample_hsm" "length (hsm_pending sample_hsm) < hsm_queue_cap sample_hsm"
    using sample_hsm_running
    by (simp_all add: sample_ws_def zero_pool_def zero_stats_def zero_job_def job_queue_rep_def SEM_VALUE_MAX_def c_int_def)
  from job_reaches_hsm [OF this, of 5 "Inl 1" 1 "\<lambda>_ _ _ _ x. x" "\<lambda>_. 0" "\<lparr>tv_sec = 0, tv_nsec = 0\<rparr>" 0
      sample_states Map.empty 1 "\<lparr>tv_sec = 0, tv_nsec = 0\<rparr>"]
  show ?thesis
    unfolding sample_hsm_running(2) sizeof_osa_worker_job_def list.map append_Nil
    by (elim exE conjE) (intro exI conjI, assumption+)
qed

end
